(* ===== verification/Prelude.thy ===== *)
theory Prelude
  imports Complex_Main "HOL-Library.Word"
begin

text \<open>
  What the components share: the machine-integer types, the outcome of running a piece of
  Rust (a value, a panic, undefined behaviour, or no return), process memory as the raw
  pointers of \<^verbatim>\<open>SendSlot\<close> see it, byte-level access to C structs, and the lemmas about
  them that carry the component proofs.
\<close>

unbundle bit_operations_syntax

named_theorems outcome_simps \<open>rewriting of outcomes and of the operations built on them\<close>
named_theorems bytes_simps \<open>reads and writes of byte fields\<close>
named_theorems contract_dests \<open>what a documented contract of the environment gives\<close>

type_synonym u8 = "8 word"
type_synonym u16 = "16 word"
type_synonym u32 = "32 word"
type_synonym u64 = "64 word"
type_synonym bytes = "u8 list"

section \<open>Outcomes of running Rust code\<close>

text \<open>
  \<open>Returns\<close>: the call returns normally. \<open>Panics\<close>: an index out of bounds, a failed
  \<^verbatim>\<open>expect\<close>. \<open>Undefined\<close>: an \<^verbatim>\<open>unsafe\<close> block is reached whose obligation does not hold
  (a read through a dangling pointer). \<open>Diverges\<close>: a loop that never ends. An
  \<^verbatim>\<open>io::Result\<close> is a value of type \<open>io_error + 'a\<close> inside \<open>Returns\<close>.
\<close>

datatype 'a outcome = Returns 'a | Panics | Undefined | Diverges

primrec outcome_bind :: "'a outcome \<Rightarrow> ('a \<Rightarrow> 'b outcome) \<Rightarrow> 'b outcome" where
  "outcome_bind (Returns x) f = f x"
| "outcome_bind Panics f = Panics"
| "outcome_bind Undefined f = Undefined"
| "outcome_bind Diverges f = Diverges"

lemma outcome_bind_Returns_iff [outcome_simps]:
  "outcome_bind m f = Returns y \<longleftrightarrow> (\<exists>x. m = Returns x \<and> f x = Returns y)"
  by (cases m) auto

lemma outcome_bind_ReturnsE:
  assumes "outcome_bind m f = Returns y"
  obtains x where "m = Returns x" and "f x = Returns y"
  using assms by (auto simp: outcome_simps)

lemma outcome_bind_assoc:
  "outcome_bind (outcome_bind m f) g = outcome_bind m (\<lambda>x. outcome_bind (f x) g)"
  by (cases m) auto

lemma outcome_bind_unit [simp]: "outcome_bind m Returns = m"
  by (cases m) auto

lemma outcome_bind_cong [fundef_cong]:
  assumes "m = m'" and "\<And>x. m' = Returns x \<Longrightarrow> f x = g x"
  shows "outcome_bind m f = outcome_bind m' g"
  using assms by (cases m') auto

text \<open>Slice indexing \<^verbatim>\<open>xs[i]\<close> panics out of range.\<close>

definition index_or_panic :: "'a list \<Rightarrow> nat \<Rightarrow> 'a outcome" where
  "index_or_panic xs i = (if i < length xs then Returns (xs ! i) else Panics)"

text \<open>The prefix \<^verbatim>\<open>&xs[..n]\<close> panics when \<open>n\<close> is past the end.\<close>

definition prefix_or_panic :: "'a list \<Rightarrow> nat \<Rightarrow> 'a list outcome" where
  "prefix_or_panic xs n = (if n \<le> length xs then Returns (take n xs) else Panics)"

text \<open>\<^verbatim>\<open>xs[i] = v\<close>, through a function on the old element.\<close>

definition update_or_panic :: "'a list \<Rightarrow> nat \<Rightarrow> ('a \<Rightarrow> 'a) \<Rightarrow> 'a list outcome" where
  "update_or_panic xs i f = (if i < length xs then Returns (xs[i := f (xs ! i)]) else Panics)"

lemma index_or_panic_Returns_iff [outcome_simps]:
  "index_or_panic xs i = Returns x \<longleftrightarrow> i < length xs \<and> x = xs ! i"
  by (auto simp: index_or_panic_def)

lemma prefix_or_panic_Returns_iff [outcome_simps]:
  "prefix_or_panic xs n = Returns ys \<longleftrightarrow> n \<le> length xs \<and> ys = take n xs"
  by (auto simp: prefix_or_panic_def)

lemma update_or_panic_Returns_iff [outcome_simps]:
  "update_or_panic xs i f = Returns ys \<longleftrightarrow> i < length xs \<and> ys = xs[i := f (xs ! i)]"
  by (auto simp: update_or_panic_def)

text \<open>A loop that collects one result per element, in order.\<close>

fun outcome_map :: "('a \<Rightarrow> 'b outcome) \<Rightarrow> 'a list \<Rightarrow> 'b list outcome" where
  "outcome_map f [] = Returns []"
| "outcome_map f (x # xs) =
     outcome_bind (f x) (\<lambda>y. outcome_bind (outcome_map f xs) (\<lambda>ys. Returns (y # ys)))"

lemma outcome_map_Returns:
  "(\<And>x. x \<in> set xs \<Longrightarrow> f x = Returns (g x)) \<Longrightarrow> outcome_map f xs = Returns (map g xs)"
  by (induction xs) auto

lemma outcome_map_map: "outcome_map f (map g xs) = outcome_map (\<lambda>x. f (g x)) xs"
  by (induction xs) auto

lemma outcome_map_upt:
  assumes "\<And>j. j < length ys \<Longrightarrow> f j = Returns (ys ! j)"
  shows "outcome_map f [0 ..< length ys] = Returns ys"
  using outcome_map_Returns [of "[0 ..< length ys]" f "(!) ys"] assms by (simp add: map_nth)

section \<open>Process memory and borrowed slices\<close>

text \<open>
  \<open>None\<close> is an address that is not allocated (or not any more). A \<^verbatim>\<open>&[u8]\<close> is its
  pointer and its length.
\<close>

type_synonym memory = "nat \<Rightarrow> u8 option"

record slice =
  slice_ptr :: nat
  slice_len :: nat

definition read_mem :: "memory \<Rightarrow> slice \<Rightarrow> bytes option" where
  "read_mem m s = those (map m [slice_ptr s ..< slice_ptr s + slice_len s])"

lemma those_eq_Some_length: "those xs = Some ys \<Longrightarrow> length ys = length xs"
  by (induction xs arbitrary: ys) (auto split: option.splits)

lemma those_map_Some [simp]: "those (map (\<lambda>x. Some (f x)) xs) = Some (map f xs)"
  by (induction xs) auto

lemma read_mem_length: "read_mem m s = Some bs \<Longrightarrow> length bs = slice_len s"
  by (auto simp: read_mem_def dest: those_eq_Some_length)

text \<open>A read only depends on the bytes of the slice.\<close>

lemma read_mem_frame:
  assumes "\<And>a. slice_ptr s \<le> a \<Longrightarrow> a < slice_ptr s + slice_len s \<Longrightarrow> m' a = m a"
  shows "read_mem m' s = read_mem m s"
proof -
  have "map m' [slice_ptr s ..< slice_ptr s + slice_len s]
      = map m [slice_ptr s ..< slice_ptr s + slice_len s]"
    using assms by (intro map_cong) auto
  then show ?thesis by (simp only: read_mem_def)
qed

text \<open>Memory in which \<open>bs\<close> is stored from address \<open>p\<close>.\<close>

definition store_bytes :: "memory \<Rightarrow> nat \<Rightarrow> bytes \<Rightarrow> memory" where
  "store_bytes m p bs =
     (\<lambda>a. if p \<le> a \<and> a < p + length bs then Some (bs ! (a - p)) else m a)"

text \<open>Dropping the owner of the bytes of a slice: its addresses are no longer allocated.\<close>

definition free_slice :: "memory \<Rightarrow> slice \<Rightarrow> memory" where
  "free_slice m s =
     (\<lambda>a. if slice_ptr s \<le> a \<and> a < slice_ptr s + slice_len s then None else m a)"

lemma read_store_bytes [simp]:
  "read_mem (store_bytes m p bs) \<lparr>slice_ptr = p, slice_len = length bs\<rparr> = Some bs"
proof -
  have "map (store_bytes m p bs) [p ..< p + length bs]
      = map (\<lambda>a. Some (bs ! (a - p))) [p ..< p + length bs]"
    by (simp add: store_bytes_def)
  moreover have "map (\<lambda>a. bs ! (a - p)) [p ..< p + length bs] = bs"
    by (rule nth_equalityI) auto
  ultimately show ?thesis by (simp add: read_mem_def del: map_eq_conv)
qed

lemma those_None: "None \<in> set xs \<Longrightarrow> those xs = None"
  by (induction xs) (auto split: option.splits)

lemma read_free_slice: "0 < slice_len s \<Longrightarrow> read_mem (free_slice m s) s = None"
  unfolding read_mem_def
  by (rule those_None) (auto simp: free_slice_def image_iff intro!: bexI [of _ "slice_ptr s"])

section \<open>Byte fields of C structs\<close>

definition put_bytes :: "bytes \<Rightarrow> nat \<Rightarrow> bytes \<Rightarrow> bytes" where
  "put_bytes xs off ys = take off xs @ ys @ drop (off + length ys) xs"

definition get_bytes :: "bytes \<Rightarrow> nat \<Rightarrow> nat \<Rightarrow> bytes" where
  "get_bytes xs off n = take n (drop off xs)"

lemma length_put_bytes [bytes_simps]:
  "off + length ys \<le> length xs \<Longrightarrow> length (put_bytes xs off ys) = length xs"
  by (simp add: put_bytes_def)

lemma get_put_same [bytes_simps]:
  "off + length ys \<le> length xs \<Longrightarrow> n = length ys \<Longrightarrow> get_bytes (put_bytes xs off ys) off n = ys"
  by (simp add: put_bytes_def get_bytes_def)

lemma get_put_disjoint [bytes_simps]:
  assumes "off + length ys \<le> length xs" and "o2 + n \<le> off \<or> off + length ys \<le> o2"
  shows "get_bytes (put_bytes xs off ys) o2 n = get_bytes xs o2 n"
proof (rule nth_equalityI)
  show "length (get_bytes (put_bytes xs off ys) o2 n) = length (get_bytes xs o2 n)"
    using assms(1) by (simp add: get_bytes_def bytes_simps)
next
  fix i
  assume "i < length (get_bytes (put_bytes xs off ys) o2 n)"
  then have "i < n" and "o2 + i < length xs"
    using assms(1) by (auto simp: get_bytes_def bytes_simps)
  with assms show "get_bytes (put_bytes xs off ys) o2 n ! i = get_bytes xs o2 n ! i"
    by (auto simp: get_bytes_def put_bytes_def nth_append add.commute)
qed

lemma length_get_bytes [bytes_simps]:
  "off + n \<le> length xs \<Longrightarrow> length (get_bytes xs off n) = n"
  by (simp add: get_bytes_def)

section \<open>Words as numbers\<close>

lemma int_le_uint: "n \<le> unat (x :: 'a :: len word) \<Longrightarrow> int n \<le> uint x"
  by (metis of_nat_le_iff uint_nat)

lemma neg_le_uint [simp]: "- 1 \<le> uint (x :: 'a :: len word)"
  by (rule order_trans [of _ 0]) simp_all

lemma nat_le_unat: "n \<le> uint (x :: 'a :: len word) \<Longrightarrow> nat n \<le> unat x"
  by (metis nat_int nat_mono uint_nat)

lemma unat_of_nat_le: "n \<le> b \<Longrightarrow> unat (of_nat n :: 'a :: len word) \<le> b"
  by (simp add: unsigned_of_nat) (metis take_bit_nat_less_eq_self order_trans)

lemma unat_of_nat_u32: "n < 2 ^ 32 \<Longrightarrow> unat (of_nat n :: u32) = n"
  by (simp add: unsigned_of_nat take_bit_nat_eq_self)

section \<open>Byte order\<close>

text \<open>
  The byte images of \<^verbatim>\<open>u16\<close> and \<^verbatim>\<open>u32\<close> (\<^verbatim>\<open>to_be_bytes\<close>, \<^verbatim>\<open>from_be_bytes\<close>), and the
  native-endian ones of a target that is little-endian or not (\<^verbatim>\<open>to_ne_bytes\<close>,
  \<^verbatim>\<open>from_ne_bytes\<close>, and what a store or load through a typed pointer does).
\<close>

definition be_bytes16 :: "u16 \<Rightarrow> bytes" where
  "be_bytes16 x = [ucast (drop_bit 8 x), ucast x]"

definition be_bytes32 :: "u32 \<Rightarrow> bytes" where
  "be_bytes32 x =
     [ucast (drop_bit 24 x), ucast (drop_bit 16 x), ucast (drop_bit 8 x), ucast x]"

fun of_be_bytes16 :: "bytes \<Rightarrow> u16" where
  "of_be_bytes16 [a, b] = push_bit 8 (ucast a) OR ucast b"
| "of_be_bytes16 _ = 0"

fun of_be_bytes32 :: "bytes \<Rightarrow> u32" where
  "of_be_bytes32 [a, b, c, d] =
     push_bit 24 (ucast a) OR push_bit 16 (ucast b) OR push_bit 8 (ucast c) OR ucast d"
| "of_be_bytes32 _ = 0"

definition ne_order :: "bool \<Rightarrow> bytes \<Rightarrow> bytes" where
  "ne_order little bs = (if little then rev bs else bs)"

definition ne_bytes16 :: "bool \<Rightarrow> u16 \<Rightarrow> bytes" where
  "ne_bytes16 little x = ne_order little (be_bytes16 x)"

definition ne_bytes32 :: "bool \<Rightarrow> u32 \<Rightarrow> bytes" where
  "ne_bytes32 little x = ne_order little (be_bytes32 x)"

definition of_ne_bytes16 :: "bool \<Rightarrow> bytes \<Rightarrow> u16" where
  "of_ne_bytes16 little bs = of_be_bytes16 (ne_order little bs)"

definition of_ne_bytes32 :: "bool \<Rightarrow> bytes \<Rightarrow> u32" where
  "of_ne_bytes32 little bs = of_be_bytes32 (ne_order little bs)"

text \<open>\<^verbatim>\<open>x.to_be()\<close> and \<^verbatim>\<open>from_be(x)\<close>: a byte swap on a little-endian target.\<close>

definition to_be16 :: "bool \<Rightarrow> u16 \<Rightarrow> u16" where
  "to_be16 little x = of_ne_bytes16 little (be_bytes16 x)"

definition from_be16 :: "bool \<Rightarrow> u16 \<Rightarrow> u16" where
  "from_be16 little x = of_be_bytes16 (ne_bytes16 little x)"

definition from_be32 :: "bool \<Rightarrow> u32 \<Rightarrow> u32" where
  "from_be32 little x = of_be_bytes32 (ne_bytes32 little x)"

lemma ne_order_idem [bytes_simps]: "ne_order l (ne_order l bs) = bs"
  by (simp add: ne_order_def)

lemma length_ne_order [bytes_simps]: "length (ne_order l bs) = length bs"
  by (simp add: ne_order_def)

lemma of_be_be_bytes16 [bytes_simps]: "of_be_bytes16 (be_bytes16 x) = x"
  unfolding be_bytes16_def of_be_bytes16.simps
  by (rule bit_word_eqI) (auto simp: bit_simps)

lemma of_be_be_bytes32 [bytes_simps]: "of_be_bytes32 (be_bytes32 x) = x"
  unfolding be_bytes32_def of_be_bytes32.simps
proof (rule bit_word_eqI)
  fix n
  assume "n < LENGTH(32)"
  then consider "n < 8" | "8 \<le> n" "n < 16" | "16 \<le> n" "n < 24" | "24 \<le> n" "n < 32"
    by fastforce
  then show "bit (push_bit 24 (ucast (ucast (drop_bit 24 x) :: u8))
       OR push_bit 16 (ucast (ucast (drop_bit 16 x) :: u8))
       OR push_bit 8 (ucast (ucast (drop_bit 8 x) :: u8)) OR ucast (ucast x :: u8) :: u32) n
     = bit x n"
    by cases (auto simp: bit_simps)
qed

lemma u8_no_high_bit: "8 \<le> n \<Longrightarrow> \<not> bit (b :: u8) n"
  by (auto dest: bit_imp_le_length)

lemma be_of_be_bytes16: "length bs = 2 \<Longrightarrow> be_bytes16 (of_be_bytes16 bs) = bs"
  by (cases bs rule: of_be_bytes16.cases)
     (auto simp: be_bytes16_def bit_simps u8_no_high_bit intro!: bit_word_eqI)

lemma be_of_be_bytes32: "length bs = 4 \<Longrightarrow> be_bytes32 (of_be_bytes32 bs) = bs"
  by (cases bs rule: of_be_bytes32.cases)
     (auto simp: be_bytes32_def bit_simps u8_no_high_bit intro!: bit_word_eqI)

lemma length_be_bytes [bytes_simps]: "length (be_bytes16 x) = 2" "length (be_bytes32 y) = 4"
  by (simp_all add: be_bytes16_def be_bytes32_def)

lemma length_ne_bytes [bytes_simps]: "length (ne_bytes16 l x) = 2" "length (ne_bytes32 l y) = 4"
  by (simp_all add: ne_bytes16_def ne_bytes32_def bytes_simps)

lemma of_ne_ne_bytes [bytes_simps]:
  "of_ne_bytes16 l (ne_bytes16 l x) = x" "of_ne_bytes32 l (ne_bytes32 l y) = y"
  by (simp_all add: of_ne_bytes16_def of_ne_bytes32_def ne_bytes16_def ne_bytes32_def bytes_simps)

lemma ne_of_ne_bytes32: "length bs = 4 \<Longrightarrow> ne_bytes32 l (of_ne_bytes32 l bs) = bs"
  by (simp add: of_ne_bytes32_def ne_bytes32_def be_of_be_bytes32 bytes_simps)

lemma ne_of_ne_bytes16: "length bs = 2 \<Longrightarrow> ne_bytes16 l (of_ne_bytes16 l bs) = bs"
  by (simp add: of_ne_bytes16_def ne_bytes16_def be_of_be_bytes16 bytes_simps)

text \<open>In memory, \<^verbatim>\<open>x.to_be()\<close> is the big-endian image of \<open>x\<close> on every target.\<close>

lemma ne_bytes16_to_be16 [bytes_simps]: "ne_bytes16 l (to_be16 l x) = be_bytes16 x"
  by (simp add: ne_bytes16_def to_be16_def of_ne_bytes16_def be_of_be_bytes16 bytes_simps)

lemma from_be16_to_be16 [bytes_simps]: "from_be16 l (to_be16 l x) = x"
  by (simp add: from_be16_def bytes_simps)

end
