(* ===== verification/Sys.thy ===== *)
theory Sys
  imports Prelude
begin

text \<open>
  The environment of the library, none of which is code of the repository: the C ABI of the
  target (constants and struct layouts of the \<^verbatim>\<open>libc\<close> crate), the system calls, the clock
  and Tokio's readiness futures. They are the parameters \<open>libc\<close> and \<open>kernel\<close> of every
  definition that uses them. What the code relies on is stated as named contracts
  (\<open>libc_ok\<close>, \<open>count_contract\<close>, \<open>recv_contract\<close>, \<open>log_contract\<close>), which are hypotheses of
  the properties. The part modelled from the standard library is \<^verbatim>\<open>io::Error\<close>.
\<close>

section \<open>The C ABI of the target\<close>

text \<open>
  Constants, the byte order, and for \<^verbatim>\<open>sockaddr_in\<close>, \<^verbatim>\<open>sockaddr_in6\<close> and
  \<^verbatim>\<open>sockaddr_storage\<close> the field offsets and sizes. \<open>family_u8\<close>: \<^verbatim>\<open>sa_family_t\<close> is one byte
  (macOS), otherwise two.
\<close>

record libc =
  EAGAIN :: int
  EWOULDBLOCK :: int
  EINTR :: int
  ENOSYS :: int
  AF_INET :: int
  AF_INET6 :: int
  SOL_SOCKET :: int
  SO_SNDBUF :: int
  SO_RCVBUF :: int
  IPPROTO_IP :: int
  IP_TTL :: int
  IPPROTO_UDP :: int
  UDP_SEGMENT :: int
  UDP_GRO :: int
  SCM_TIMESTAMPNS :: int
  SO_TIMESTAMPNS :: int
  IP_PKTINFO :: int
  IPPROTO_IPV6 :: int
  IPV6_PKTINFO :: int
  IPV6_RECVPKTINFO :: int
  little_endian :: bool
  family_u8 :: bool
  off_family :: nat
  off_sin_port :: nat
  off_sin_addr :: nat
  off_sin_zero :: nat
  size_sockaddr_in :: nat
  off_sin6_port :: nat
  off_sin6_flowinfo :: nat
  off_sin6_addr :: nat
  off_sin6_scope_id :: nat
  size_sockaddr_in6 :: nat
  size_storage :: nat
  size_cmsghdr :: nat

definition family_width :: "libc \<Rightarrow> nat" where
  "family_width c = (if family_u8 c then 1 else 2)"

text \<open>Two byte ranges, each an offset and a length, do not overlap.\<close>

definition apart :: "nat \<times> nat \<Rightarrow> nat \<times> nat \<Rightarrow> bool" where
  "apart a b \<longleftrightarrow> fst a + snd a \<le> fst b \<or> fst b + snd b \<le> fst a"

text \<open>
  What every C ABI gives: the fields of each struct lie inside it and do not overlap, both
  structs fit in \<^verbatim>\<open>sockaddr_storage\<close>, the two family numbers are different and fit in
  \<^verbatim>\<open>sa_family_t\<close>, the sizes fit in \<^verbatim>\<open>socklen_t\<close>.
\<close>

definition libc_ok :: "libc \<Rightarrow> bool" where
  "libc_ok c \<longleftrightarrow>
     sorted_wrt apart
       [(off_family c, family_width c), (off_sin_port c, 2), (off_sin_addr c, 4), (off_sin_zero c, 8)] \<and>
     sorted_wrt apart
       [(off_family c, family_width c), (off_sin6_port c, 2), (off_sin6_flowinfo c, 4),
        (off_sin6_addr c, 16), (off_sin6_scope_id c, 4)] \<and>
     off_family c + family_width c \<le> size_sockaddr_in c \<and>
     off_sin_port c + 2 \<le> size_sockaddr_in c \<and>
     off_sin_addr c + 4 \<le> size_sockaddr_in c \<and>
     off_sin_zero c + 8 \<le> size_sockaddr_in c \<and>
     off_family c + family_width c \<le> size_sockaddr_in6 c \<and>
     off_sin6_port c + 2 \<le> size_sockaddr_in6 c \<and>
     off_sin6_flowinfo c + 4 \<le> size_sockaddr_in6 c \<and>
     off_sin6_addr c + 16 \<le> size_sockaddr_in6 c \<and>
     off_sin6_scope_id c + 4 \<le> size_sockaddr_in6 c \<and>
     size_sockaddr_in c \<le> size_storage c \<and>
     size_sockaddr_in6 c \<le> size_storage c \<and>
     size_storage c < 2 ^ 32 \<and>
     0 \<le> AF_INET c \<and> AF_INET c < 2 ^ (8 * family_width c) \<and>
     0 \<le> AF_INET6 c \<and> AF_INET6 c < 2 ^ (8 * family_width c) \<and>
     AF_INET c \<noteq> AF_INET6 c"

text \<open>The x86-64 Linux ABI, an instance for the witnesses.\<close>

definition linux_libc :: libc where
  "linux_libc =
     \<lparr>EAGAIN = 11, EWOULDBLOCK = 11, EINTR = 4, ENOSYS = 38,
      AF_INET = 2, AF_INET6 = 10, SOL_SOCKET = 1, SO_SNDBUF = 7, SO_RCVBUF = 8,
      IPPROTO_IP = 0, IP_TTL = 2, IPPROTO_UDP = 17, UDP_SEGMENT = 103, UDP_GRO = 104,
      SCM_TIMESTAMPNS = 35, SO_TIMESTAMPNS = 35, IP_PKTINFO = 8, IPPROTO_IPV6 = 41,
      IPV6_PKTINFO = 50, IPV6_RECVPKTINFO = 49,
      little_endian = True, family_u8 = False,
      off_family = 0, off_sin_port = 2, off_sin_addr = 4, off_sin_zero = 8,
      size_sockaddr_in = 16,
      off_sin6_port = 2, off_sin6_flowinfo = 4, off_sin6_addr = 8, off_sin6_scope_id = 24,
      size_sockaddr_in6 = 28, size_storage = 128, size_cmsghdr = 16\<rparr>"

text \<open>The macOS ABI: one-byte family after a length byte, other numbers.\<close>

definition macos_libc :: libc where
  "macos_libc = linux_libc
     \<lparr>EAGAIN := 35, EWOULDBLOCK := 35, ENOSYS := 78, AF_INET6 := 30,
      family_u8 := True, off_family := 1, size_cmsghdr := 12\<rparr>"

lemma linux_libc_ok: "libc_ok linux_libc"
  by (simp add: libc_ok_def linux_libc_def apart_def family_width_def)

lemma macos_libc_ok: "libc_ok macos_libc"
  by (simp add: libc_ok_def macos_libc_def linux_libc_def apart_def family_width_def)

section \<open>io::Error\<close>

datatype error_kind = WouldBlock | Interrupted | OtherKind

text \<open>\<open>Os n\<close> is \<^verbatim>\<open>io::Error::last_os_error()\<close> with \<^verbatim>\<open>errno\<close> \<open>n\<close>; \<open>Custom\<close> is
  \<^verbatim>\<open>io::Error::other\<close> and \<^verbatim>\<open>io::Error::new(ErrorKind::Other, _)\<close>.\<close>

datatype io_error = Os int | Custom string

type_synonym 'a io_result = "io_error + 'a"

fun raw_os_error :: "io_error \<Rightarrow> int option" where
  "raw_os_error (Os n) = Some n"
| "raw_os_error (Custom _) = None"

fun kind :: "libc \<Rightarrow> io_error \<Rightarrow> error_kind" where
  "kind c (Os n) =
     (if n = EINTR c then Interrupted
      else if n = EAGAIN c \<or> n = EWOULDBLOCK c then WouldBlock
      else OtherKind)"
| "kind c (Custom _) = OtherKind"

text \<open>The error numbers the code tells apart are different.\<close>

definition errno_ok :: "libc \<Rightarrow> bool" where
  "errno_ok c \<longleftrightarrow> EAGAIN c \<noteq> EINTR c \<and> ENOSYS c \<noteq> EINTR c \<and> ENOSYS c \<noteq> EAGAIN c"

lemma errno_ok_targets: "errno_ok linux_libc" "errno_ok macos_libc"
  by (simp_all add: errno_ok_def linux_libc_def macos_libc_def)

lemma kind_EAGAIN: "errno_ok c \<Longrightarrow> kind c (Os (EAGAIN c)) = WouldBlock"
  by (simp add: errno_ok_def)

section \<open>System calls\<close>

type_synonym fd = int

text \<open>
  What the kernel reads of one outgoing message: the socket address its header points to
  (\<open>None\<close> for a null \<^verbatim>\<open>msg_name\<close>), as the storage and the length given with it, and the
  payload.
\<close>

record tx_msg =
  tx_name :: "(bytes \<times> u32) option"
  tx_data :: bytes

text \<open>
  A control message of a received packet: level, type, and what a load through
  \<^verbatim>\<open>CMSG_DATA\<close> yields at each of the C types the code casts it to (\<^verbatim>\<open>u16\<close>, \<^verbatim>\<open>timespec\<close>,
  the \<^verbatim>\<open>ipi_addr.s_addr\<close> of \<^verbatim>\<open>in_pktinfo\<close>, the \<^verbatim>\<open>ipi6_addr.s6_addr\<close> of \<^verbatim>\<open>in6_pktinfo\<close>).
\<close>

record cmsg =
  cmsg_level :: int
  cmsg_type :: int
  as_u16 :: u16
  as_tv_sec :: u64
  as_tv_nsec :: u64
  as_ipi_addr :: u32
  as_ipi6_addr :: bytes

text \<open>
  One entry of the message array of a batch receive: the slot buffer its \<^verbatim>\<open>iovec\<close> points
  to, the address storage, the in/out \<^verbatim>\<open>msg_namelen\<close>, the control messages
  (the ones \<^verbatim>\<open>CMSG_FIRSTHDR\<close> and \<^verbatim>\<open>CMSG_NXTHDR\<close> walk) and \<^verbatim>\<open>msg_len\<close>.
\<close>

record rx_msg =
  rx_buf :: bytes
  rx_name :: bytes
  rx_namelen :: u32
  rx_controllen :: nat
  rx_control :: "cmsg list"
  rx_len :: u32

text \<open>The single control message of a GSO send, and the \<^verbatim>\<open>msg_controllen\<close> given with it.\<close>

record gso_control =
  gso_controllen :: nat
  gso_level :: int
  gso_type :: int
  gso_size :: u16

text \<open>
  The system calls, as functions of the state \<open>'w\<close> of everything outside the process. A call
  returns C's value (negative for failure, with \<^verbatim>\<open>errno\<close> readable afterwards) and what it
  writes through the pointers it was given. Also here: the clock, in nanoseconds, and the
  runtime's readiness waits.
\<close>

record 'w kernel =
  k_libc :: libc
  k_errno :: "'w \<Rightarrow> int"
  k_sendmmsg :: "fd \<Rightarrow> tx_msg list \<Rightarrow> u32 \<Rightarrow> 'w \<Rightarrow> int \<times> 'w"
  k_recvmmsg :: "fd \<Rightarrow> rx_msg list \<Rightarrow> u32 \<Rightarrow> 'w \<Rightarrow> int \<times> rx_msg list \<times> 'w"
  k_sendmsg_gso :: "fd \<Rightarrow> gso_control \<Rightarrow> bytes \<Rightarrow> 'w \<Rightarrow> int \<times> 'w"
  k_sendto :: "fd \<Rightarrow> bytes \<Rightarrow> bytes \<Rightarrow> u32 \<Rightarrow> 'w \<Rightarrow> int \<times> 'w"
  k_send :: "fd \<Rightarrow> bytes \<Rightarrow> 'w \<Rightarrow> int \<times> 'w"
  k_recvfrom :: "fd \<Rightarrow> bytes \<Rightarrow> bytes \<Rightarrow> u32 \<Rightarrow> 'w \<Rightarrow> int \<times> bytes \<times> bytes \<times> u32 \<times> 'w"
  k_getpeername :: "fd \<Rightarrow> bytes \<Rightarrow> u32 \<Rightarrow> 'w \<Rightarrow> int \<times> bytes \<times> u32 \<times> 'w"
  k_getsockname :: "fd \<Rightarrow> bytes \<Rightarrow> u32 \<Rightarrow> 'w \<Rightarrow> int \<times> bytes \<times> u32 \<times> 'w"
  k_connect :: "fd \<Rightarrow> bytes \<Rightarrow> u32 \<Rightarrow> 'w \<Rightarrow> int \<times> 'w"
  k_setsockopt :: "fd \<Rightarrow> int \<Rightarrow> int \<Rightarrow> u32 \<Rightarrow> u32 \<Rightarrow> 'w \<Rightarrow> int \<times> 'w"
  k_getsockopt :: "fd \<Rightarrow> int \<Rightarrow> int \<Rightarrow> u32 \<Rightarrow> u32 \<Rightarrow> 'w \<Rightarrow> int \<times> u32 \<times> 'w"
  k_set_nonblocking :: "fd \<Rightarrow> 'w \<Rightarrow> unit io_result \<times> 'w"
  k_register :: "fd \<Rightarrow> 'w \<Rightarrow> unit io_result \<times> 'w"
  k_now :: "'w \<Rightarrow> nat \<times> 'w"
  k_writable :: "fd \<Rightarrow> 'w \<Rightarrow> unit io_result \<times> 'w"
  k_readable :: "fd \<Rightarrow> 'w \<Rightarrow> unit io_result \<times> 'w"
  k_close :: "fd \<Rightarrow> 'w \<Rightarrow> 'w"

definition last_os_error :: "'w kernel \<Rightarrow> 'w \<Rightarrow> io_error" where
  "last_os_error k w = Os (k_errno k w)"

section \<open>Contracts of the environment\<close>

text \<open>
  \<^verbatim>\<open>sendmmsg\<close> returns at most the number of messages it was given (sendmmsg(2)).
\<close>

definition count_contract :: "'w kernel \<Rightarrow> bool" where
  "count_contract k \<longleftrightarrow>
     (\<forall>fd msgs vlen w n w'. k_sendmmsg k fd msgs vlen w = (n, w') \<longrightarrow> n \<le> uint vlen)"

text \<open>
  Receives (recvmmsg(2), recv(2)): at most \<open>vlen\<close> messages, the array keeps its length and
  every buffer its size, no message is longer than its buffer.
\<close>

definition recv_contract :: "'w kernel \<Rightarrow> bool" where
  "recv_contract k \<longleftrightarrow>
     (\<forall>fd ms vlen w n ms' w'. k_recvmmsg k fd ms vlen w = (n, ms', w') \<longrightarrow>
        n \<le> uint vlen \<and> length ms' = length ms \<and>
        (\<forall>i < length ms. length (rx_buf (ms' ! i)) = length (rx_buf (ms ! i))) \<and>
        (\<forall>i < nat n. unat (rx_len (ms' ! i)) \<le> length (rx_buf (ms' ! i)))) \<and>
     (\<forall>fd buf st l w n buf' st' l' w'. k_recvfrom k fd buf st l w = (n, buf', st', l', w') \<longrightarrow>
        n \<le> int (length buf) \<and> length buf' = length buf)"

text \<open>
  Sends, against a log of the datagrams the socket has accepted: a call that reports \<open>n\<close>
  messages accepted exactly the first \<open>n\<close>, one that fails accepted none; \<^verbatim>\<open>send\<close> has no
  destination of its own, and \<^verbatim>\<open>getpeername\<close> sends nothing.
\<close>

definition log_contract :: "'w kernel \<Rightarrow> ('w \<Rightarrow> tx_msg list) \<Rightarrow> bool" where
  "log_contract k txlog \<longleftrightarrow>
     (\<forall>fd msgs vlen w n w'. k_sendmmsg k fd msgs vlen w = (n, w') \<longrightarrow>
        n \<le> uint vlen \<and> txlog w' = txlog w @ take (nat n) msgs) \<and>
     (\<forall>fd data st l w n w'. k_sendto k fd data st l w = (n, w') \<longrightarrow>
        txlog w' = txlog w @ (if 0 \<le> n then [\<lparr>tx_name = Some (st, l), tx_data = data\<rparr>] else [])) \<and>
     (\<forall>fd data w n w'. k_send k fd data w = (n, w') \<longrightarrow>
        txlog w' = txlog w @ (if 0 \<le> n then [\<lparr>tx_name = None, tx_data = data\<rparr>] else [])) \<and>
     (\<forall>fd st l w n st' l' w'. k_getpeername k fd st l w = (n, st', l', w') \<longrightarrow> txlog w' = txlog w)"

lemma count_contractD [contract_dests]:
  "count_contract k \<Longrightarrow> k_sendmmsg k fd msgs vlen w = (n, w') \<Longrightarrow> n \<le> uint vlen"
  unfolding count_contract_def by blast

lemma log_contract_count: "log_contract k txlog \<Longrightarrow> count_contract k"
  by (simp add: log_contract_def count_contract_def)

lemma log_contract_sendmmsg [contract_dests]:
  "log_contract k txlog \<Longrightarrow> k_sendmmsg k fd msgs vlen w = (n, w') \<Longrightarrow>
     txlog w' = txlog w @ take (nat n) msgs"
  by (simp add: log_contract_def)

lemma log_contract_sendto [contract_dests]:
  "log_contract k txlog \<Longrightarrow> k_sendto k fd data st l w = (n, w') \<Longrightarrow>
     txlog w' = txlog w @ (if 0 \<le> n then [\<lparr>tx_name = Some (st, l), tx_data = data\<rparr>] else [])"
  unfolding log_contract_def by blast

lemma log_contract_send [contract_dests]:
  "log_contract k txlog \<Longrightarrow> k_send k fd data w = (n, w') \<Longrightarrow>
     txlog w' = txlog w @ (if 0 \<le> n then [\<lparr>tx_name = None, tx_data = data\<rparr>] else [])"
  unfolding log_contract_def by blast

lemma log_contract_getpeername [contract_dests]:
  "log_contract k txlog \<Longrightarrow> k_getpeername k fd st l w = (n, st', l', w') \<Longrightarrow> txlog w' = txlog w"
  unfolding log_contract_def by blast

lemma recv_contract_recvmmsg [contract_dests]:
  assumes "recv_contract k" and "k_recvmmsg k fd ms vlen w = (n, ms', w')"
  shows "n \<le> uint vlen" and "length ms' = length ms"
    and "i < length ms \<Longrightarrow> length (rx_buf (ms' ! i)) = length (rx_buf (ms ! i))"
    and "i < nat n \<Longrightarrow> unat (rx_len (ms' ! i)) \<le> length (rx_buf (ms' ! i))"
  using assms unfolding recv_contract_def by blast+

lemma recv_contract_recvfrom [contract_dests]:
  assumes "recv_contract k" and "k_recvfrom k fd buf st l w = (n, buf', st', l', w')"
  shows "n \<le> int (length buf)" and "length buf' = length buf"
  using assms unfolding recv_contract_def by blast+

section \<open>sys/unix.rs\<close>

definition SO_BUSY_POLL :: int where
  "SO_BUSY_POLL = 75"

definition SO_MAX_PACING_RATE :: int where
  "SO_MAX_PACING_RATE = 79"

definition close_fd :: "'w kernel \<Rightarrow> fd \<Rightarrow> 'w \<Rightarrow> 'w" where
  "close_fd k fd w = k_close k fd w"

end
