(* ===== verification/Sockaddr.thy ===== *)
theory Sockaddr
  imports Sys
begin

text \<open>
  \<^verbatim>\<open>sockaddr/unix.rs\<close>: the encoding of a \<^verbatim>\<open>SocketAddr\<close> into the bytes of a
  \<^verbatim>\<open>sockaddr_storage\<close> and back, at the byte offsets of the target's ABI, and the
  single-packet system-call wrappers.
\<close>

section \<open>Socket addresses\<close>

datatype Ipv4Addr = Ipv4Addr u8 u8 u8 u8

text \<open>An \<^verbatim>\<open>Ipv6Addr\<close> is its 16 octets.\<close>

datatype Ipv6Addr = Ipv6Addr bytes

text \<open>\<open>V4 ip port\<close> and \<open>V6 ip port flowinfo scope_id\<close>.\<close>

datatype SocketAddr = V4 Ipv4Addr u16 | V6 Ipv6Addr u16 u32 u32

fun wf_addr :: "SocketAddr \<Rightarrow> bool" where
  "wf_addr (V4 _ _) = True"
| "wf_addr (V6 (Ipv6Addr os) _ _ _) = (length os = 16)"

fun v4_octets :: "Ipv4Addr \<Rightarrow> bytes" where
  "v4_octets (Ipv4Addr a b c d) = [a, b, c, d]"

fun v6_octets :: "Ipv6Addr \<Rightarrow> bytes" where
  "v6_octets (Ipv6Addr os) = os"

text \<open>\<^verbatim>\<open>Ipv4Addr::from(u32)\<close>: the most significant byte is the first octet.\<close>

fun v4_of_octets :: "bytes \<Rightarrow> Ipv4Addr" where
  "v4_of_octets [a, b, c, d] = Ipv4Addr a b c d"
| "v4_of_octets _ = Ipv4Addr 0 0 0 0"

definition v4_from_u32 :: "u32 \<Rightarrow> Ipv4Addr" where
  "v4_from_u32 x = v4_of_octets (be_bytes32 x)"

definition UNSPECIFIED_V4 :: SocketAddr where
  "UNSPECIFIED_V4 = V4 (Ipv4Addr 0 0 0 0) 0"

lemma length_v4_octets [bytes_simps]: "length (v4_octets ip) = 4"
  by (cases ip) simp

lemma v4_of_octets_octets [bytes_simps]: "v4_of_octets (v4_octets ip) = ip"
  by (cases ip) simp

section \<open>encode_sockaddr and decode_sockaddr\<close>

text \<open>The bytes of \<^verbatim>\<open>af as sa_family_t\<close> in memory.\<close>

definition family_bytes :: "libc \<Rightarrow> int \<Rightarrow> bytes" where
  "family_bytes c af =
     (if family_u8 c then [word_of_int af] else ne_bytes16 (little_endian c) (word_of_int af))"

fun of_bytes8 :: "bytes \<Rightarrow> u8" where
  "of_bytes8 [b] = b"
| "of_bytes8 _ = 0"

text \<open>\<^verbatim>\<open>storage.ss_family as i32\<close>.\<close>

definition ss_family :: "libc \<Rightarrow> bytes \<Rightarrow> int" where
  "ss_family c st =
     (let bs = get_bytes st (off_family c) (family_width c)
      in if family_u8 c then uint (of_bytes8 bs)
         else uint (of_ne_bytes16 (little_endian c) bs))"

text \<open>
  \<^verbatim>\<open>mem::zeroed()\<close> for a \<^verbatim>\<open>sockaddr_storage\<close>, and the write of a whole struct: a zeroed
  struct of the given size with the fields set (the length byte of macOS stays 0, as
  \<^verbatim>\<open>sin_len: 0\<close> says) over the start of the storage.
\<close>

definition zeroed_storage :: "libc \<Rightarrow> bytes" where
  "zeroed_storage c = replicate (size_storage c) 0"

lemma length_zeroed_storage [simp]: "length (zeroed_storage c) = size_storage c"
  by (simp add: zeroed_storage_def)

definition write_struct :: "bytes \<Rightarrow> nat \<Rightarrow> (nat \<times> bytes) list \<Rightarrow> bytes" where
  "write_struct st sz fs =
     put_bytes st 0 (fold (\<lambda>(off, bs) acc. put_bytes acc off bs) fs (replicate sz 0))"

fun encode_sockaddr :: "libc \<Rightarrow> SocketAddr \<Rightarrow> bytes \<Rightarrow> bytes \<times> u32" where
  "encode_sockaddr c (V4 ip port) st =
     (let s_addr = of_ne_bytes32 (little_endian c) (v4_octets ip)
      in (write_struct st (size_sockaddr_in c)
            [(off_family c, family_bytes c (AF_INET c)),
             (off_sin_port c, ne_bytes16 (little_endian c) (to_be16 (little_endian c) port)),
             (off_sin_addr c, ne_bytes32 (little_endian c) s_addr),
             (off_sin_zero c, replicate 8 0)],
          of_nat (size_sockaddr_in c)))"
| "encode_sockaddr c (V6 ip port flowinfo scope_id) st =
     (write_struct st (size_sockaddr_in6 c)
        [(off_family c, family_bytes c (AF_INET6 c)),
         (off_sin6_port c, ne_bytes16 (little_endian c) (to_be16 (little_endian c) port)),
         (off_sin6_flowinfo c, ne_bytes32 (little_endian c) flowinfo),
         (off_sin6_addr c, v6_octets ip),
         (off_sin6_scope_id c, ne_bytes32 (little_endian c) scope_id)],
      of_nat (size_sockaddr_in6 c))"

definition decode_sockaddr :: "libc \<Rightarrow> bytes \<Rightarrow> u32 \<Rightarrow> SocketAddr" where
  "decode_sockaddr c st len =
     (let le = little_endian c in
      if len = 0 then UNSPECIFIED_V4
      else if ss_family c st = AF_INET c then
        (let s_addr = of_ne_bytes32 le (get_bytes st (off_sin_addr c) 4);
             sin_port = of_ne_bytes16 le (get_bytes st (off_sin_port c) 2)
         in V4 (v4_from_u32 (from_be32 le s_addr)) (from_be16 le sin_port))
      else if ss_family c st = AF_INET6 c then
        (let sin6_port = of_ne_bytes16 le (get_bytes st (off_sin6_port c) 2)
         in V6 (Ipv6Addr (get_bytes st (off_sin6_addr c) 16))
               (from_be16 le sin6_port)
               (of_ne_bytes32 le (get_bytes st (off_sin6_flowinfo c) 4))
               (of_ne_bytes32 le (get_bytes st (off_sin6_scope_id c) 4)))
      else UNSPECIFIED_V4)"


section \<open>Encoding and decoding are inverse\<close>

lemma length_family_bytes [bytes_simps]: "length (family_bytes c af) = family_width c"
  by (simp add: family_bytes_def family_width_def bytes_simps)

lemma get_put_prefix [bytes_simps]:
  assumes "off + n \<le> length ys" and "length ys \<le> length st"
  shows "get_bytes (put_bytes st 0 ys) off n = get_bytes ys off n"
  using assms by (simp add: put_bytes_def get_bytes_def)

lemma ss_family_of_bytes:
  assumes "get_bytes st (off_family c) (family_width c) = family_bytes c af"
    and "0 \<le> af" and "af < 2 ^ (8 * family_width c)"
  shows "ss_family c st = af"
proof (cases "family_u8 c")
  case True
  with assms show ?thesis
    by (simp add: ss_family_def family_bytes_def family_width_def uint_word_of_int)
next
  case False
  with assms show ?thesis
    by (simp add: ss_family_def family_bytes_def family_width_def uint_word_of_int bytes_simps)
qed

lemma of_nat_size_nonzero:
  assumes "0 < n" and "n < 2 ^ 32"
  shows "(of_nat n :: u32) \<noteq> 0"
proof -
  have "unat (of_nat n :: u32) = n"
    using assms(2) by (simp add: unsigned_of_nat take_bit_nat_eq_self)
  with assms(1) show ?thesis by auto
qed

text \<open>
  Fields that lie inside the struct and do not overlap read back as they were written: once
  for any list of fields, then for the fields of the two address structs.
\<close>

abbreviation put_fields :: "(nat \<times> bytes) list \<Rightarrow> bytes \<Rightarrow> bytes" where
  "put_fields fs acc \<equiv> fold (\<lambda>(off, bs) acc. put_bytes acc off bs) fs acc"

abbreviation extents :: "(nat \<times> bytes) list \<Rightarrow> (nat \<times> nat) list" where
  "extents fs \<equiv> map (\<lambda>(off, bs). (off, length bs)) fs"

abbreviation fit_in :: "nat \<Rightarrow> (nat \<times> bytes) list \<Rightarrow> bool" where
  "fit_in n fs \<equiv> list_all (\<lambda>(off, bs). off + length bs \<le> n) fs"

lemma length_put_fields: "fit_in (length acc) fs \<Longrightarrow> length (put_fields fs acc) = length acc"
  by (induction fs arbitrary: acc) (auto simp: bytes_simps)

lemma get_put_fields_frame:
  "fit_in (length acc) fs \<Longrightarrow> list_all (apart (off, n)) (extents fs) \<Longrightarrow>
     get_bytes (put_fields fs acc) off n = get_bytes acc off n"
  by (induction fs arbitrary: acc) (auto simp: bytes_simps apart_def)

lemma get_put_fields:
  "fit_in (length acc) fs \<Longrightarrow> sorted_wrt apart (extents fs) \<Longrightarrow> (off, bs) \<in> set fs \<Longrightarrow>
     get_bytes (put_fields fs acc) off (length bs) = bs"
proof (induction fs arbitrary: acc)
  case Nil
  then show ?case by simp
next
  case (Cons f fs)
  obtain o' b' where f: "f = (o', b')" by (cases f)
  show ?case
  proof (cases "(off, bs) \<in> set fs")
    case True
    with Cons f show ?thesis by (simp add: bytes_simps)
  next
    case False
    with Cons.prems f have "list_all (apart (off, length bs)) (extents fs)"
      and "off + length bs \<le> length acc" and "o' = off" and "b' = bs"
      by (auto simp: list_all_iff)
    with Cons.prems f show ?thesis
      by (simp add: get_put_fields_frame bytes_simps)
  qed
qed

lemma get_write_struct:
  assumes "fit_in sz fs" and "sz \<le> length st" and "sorted_wrt apart (extents fs)"
    and "(off, bs) \<in> set fs" and "n = length bs"
  shows "get_bytes (write_struct st sz fs) off n = bs"
proof -
  have "off + length bs \<le> sz"
    using assms(1,4) by (auto simp: list_all_iff)
  with assms show ?thesis
    by (simp add: write_struct_def get_put_prefix length_put_fields get_put_fields)
qed

lemma length_write_struct:
  "fit_in sz fs \<Longrightarrow> sz \<le> length st \<Longrightarrow> length (write_struct st sz fs) = length st"
  by (simp add: write_struct_def length_put_fields bytes_simps)

lemmas encode_simps = encode_sockaddr.simps Let_def libc_ok_def bytes_simps ne_of_ne_bytes32

lemma encode_v4_fields:
  assumes "libc_ok c" and "length st = size_storage c"
    and "encode_sockaddr c (V4 ip port) st = (st', len)"
  shows "get_bytes st' (off_family c) (family_width c) = family_bytes c (AF_INET c)"
    and "get_bytes st' (off_sin_port c) 2 = be_bytes16 port"
    and "get_bytes st' (off_sin_addr c) 4 = v4_octets ip"
    and "len = of_nat (size_sockaddr_in c)" and "length st' = size_storage c"
proof -
  define fs where "fs = [(off_family c, family_bytes c (AF_INET c)),
    (off_sin_port c, be_bytes16 port), (off_sin_addr c, v4_octets ip),
    (off_sin_zero c, replicate 8 0)]"
  have st': "st' = write_struct st (size_sockaddr_in c) fs" "len = of_nat (size_sockaddr_in c)"
    using assms(3) by (auto simp: fs_def encode_simps)
  have fit: "fit_in (size_sockaddr_in c) fs" "size_sockaddr_in c \<le> length st"
    and ap: "sorted_wrt apart (extents fs)"
    using assms(1,2) by (simp_all add: fs_def encode_simps)
  note get = get_write_struct [OF fit ap, folded st'(1)]
  show "get_bytes st' (off_family c) (family_width c) = family_bytes c (AF_INET c)"
    and "get_bytes st' (off_sin_port c) 2 = be_bytes16 port"
    and "get_bytes st' (off_sin_addr c) 4 = v4_octets ip"
    by (rule get; simp add: fs_def bytes_simps)+
  show "len = of_nat (size_sockaddr_in c)" and "length st' = size_storage c"
    using st' assms(2) length_write_struct [OF fit] by simp_all
qed

lemma encode_v6_fields:
  assumes "libc_ok c" and "length st = size_storage c" and "length (v6_octets ip) = 16"
    and "encode_sockaddr c (V6 ip port flow scope) st = (st', len)"
  shows "get_bytes st' (off_family c) (family_width c) = family_bytes c (AF_INET6 c)"
    and "get_bytes st' (off_sin6_port c) 2 = be_bytes16 port"
    and "get_bytes st' (off_sin6_flowinfo c) 4 = ne_bytes32 (little_endian c) flow"
    and "get_bytes st' (off_sin6_addr c) 16 = v6_octets ip"
    and "get_bytes st' (off_sin6_scope_id c) 4 = ne_bytes32 (little_endian c) scope"
    and "len = of_nat (size_sockaddr_in6 c)" and "length st' = size_storage c"
proof -
  define fs where "fs = [(off_family c, family_bytes c (AF_INET6 c)),
    (off_sin6_port c, be_bytes16 port), (off_sin6_flowinfo c, ne_bytes32 (little_endian c) flow),
    (off_sin6_addr c, v6_octets ip), (off_sin6_scope_id c, ne_bytes32 (little_endian c) scope)]"
  have st': "st' = write_struct st (size_sockaddr_in6 c) fs" "len = of_nat (size_sockaddr_in6 c)"
    using assms(4) by (auto simp: fs_def encode_simps)
  have fit: "fit_in (size_sockaddr_in6 c) fs" "size_sockaddr_in6 c \<le> length st"
    and ap: "sorted_wrt apart (extents fs)"
    using assms(1-3) by (simp_all add: fs_def encode_simps)
  note get = get_write_struct [OF fit ap, folded st'(1)]
  show "get_bytes st' (off_family c) (family_width c) = family_bytes c (AF_INET6 c)"
    and "get_bytes st' (off_sin6_port c) 2 = be_bytes16 port"
    and "get_bytes st' (off_sin6_flowinfo c) 4 = ne_bytes32 (little_endian c) flow"
    and "get_bytes st' (off_sin6_addr c) 16 = v6_octets ip"
    and "get_bytes st' (off_sin6_scope_id c) 4 = ne_bytes32 (little_endian c) scope"
    using assms(3) by - (rule get; simp add: fs_def bytes_simps)+
  show "len = of_nat (size_sockaddr_in6 c)" and "length st' = size_storage c"
    using st' assms(2) length_write_struct [OF fit] by simp_all
qed

lemma libc_ok_families [dest]:
  assumes "libc_ok c"
  shows "0 \<le> AF_INET c" "AF_INET c < 2 ^ (8 * family_width c)"
    "0 \<le> AF_INET6 c" "AF_INET6 c < 2 ^ (8 * family_width c)" "AF_INET c \<noteq> AF_INET6 c"
  using assms by (simp_all add: libc_ok_def)

lemma libc_ok_sizes:
  assumes "libc_ok c"
  shows "(of_nat (size_sockaddr_in c) :: u32) \<noteq> 0" "(of_nat (size_sockaddr_in6 c) :: u32) \<noteq> 0"
proof -
  have "0 < size_sockaddr_in c" "size_sockaddr_in c < 2 ^ 32"
    "0 < size_sockaddr_in6 c" "size_sockaddr_in6 c < 2 ^ 32"
    using assms by (simp_all add: libc_ok_def)
  then show "(of_nat (size_sockaddr_in c) :: u32) \<noteq> 0" "(of_nat (size_sockaddr_in6 c) :: u32) \<noteq> 0"
    by (simp_all only: of_nat_size_nonzero not_False_eq_True)
qed

text \<open>Any address survives the round trip through any storage, whatever the storage held.\<close>

lemma decode_encode:
  assumes "libc_ok c" and "wf_addr a" and "length st = size_storage c"
    and enc: "encode_sockaddr c a st = (st', len)"
  shows "decode_sockaddr c st' len = a"
proof (cases a)
  case (V4 ip port)
  note f = encode_v4_fields [OF assms(1,3) enc [unfolded V4]]
  have "ss_family c st' = AF_INET c"
    using libc_ok_families(1,2) [OF assms(1)] f(1) by (intro ss_family_of_bytes)
  with f libc_ok_sizes [OF assms(1)] V4 show ?thesis
    by (simp add: decode_sockaddr_def Let_def v4_from_u32_def from_be16_def from_be32_def
        ne_of_ne_bytes16 ne_of_ne_bytes32 be_of_be_bytes32 bytes_simps)
next
  case (V6 ip port flow scope)
  obtain os where ip: "ip = Ipv6Addr os" by (cases ip)
  have len: "length (v6_octets ip) = 16"
    using assms(2) V6 ip by simp
  note f = encode_v6_fields [OF assms(1,3) len enc [unfolded V6]]
  have "ss_family c st' = AF_INET6 c"
    using libc_ok_families(3,4) [OF assms(1)] f(1) by (intro ss_family_of_bytes)
  with f libc_ok_sizes [OF assms(1)] libc_ok_families(5) [OF assms(1)] V6 ip show ?thesis
    by (simp add: decode_sockaddr_def Let_def from_be16_def ne_of_ne_bytes16 bytes_simps)
qed

section \<open>Raw system-call wrappers\<close>

definition raw_sendto :: "'w kernel \<Rightarrow> fd \<Rightarrow> bytes \<Rightarrow> SocketAddr \<Rightarrow> 'w \<Rightarrow> nat io_result \<times> 'w" where
  "raw_sendto k fd data addr w =
     (let (st, addr_len) = encode_sockaddr (k_libc k) addr (zeroed_storage (k_libc k));
          (ret, w') = k_sendto k fd data st addr_len w
      in (if 0 \<le> ret then Inr (nat ret) else Inl (last_os_error k w'), w'))"

definition raw_send :: "'w kernel \<Rightarrow> fd \<Rightarrow> bytes \<Rightarrow> 'w \<Rightarrow> nat io_result \<times> 'w" where
  "raw_send k fd data w =
     (let (ret, w') = k_send k fd data w
      in (if 0 \<le> ret then Inr (nat ret) else Inl (last_os_error k w'), w'))"

text \<open>The buffer is an in/out argument: its bytes after the call are returned.\<close>

definition raw_recvfrom ::
    "'w kernel \<Rightarrow> fd \<Rightarrow> bytes \<Rightarrow> 'w \<Rightarrow> (nat \<times> SocketAddr) io_result \<times> bytes \<times> 'w" where
  "raw_recvfrom k fd buf w =
     (let c = k_libc k;
          (ret, buf', st, addr_len, w') =
            k_recvfrom k fd buf (zeroed_storage c) (of_nat (size_storage c)) w
      in (if 0 \<le> ret then Inr (nat ret, decode_sockaddr c st addr_len)
          else Inl (last_os_error k w'), buf', w'))"

definition is_connected :: "'w kernel \<Rightarrow> fd \<Rightarrow> 'w \<Rightarrow> bool \<times> 'w" where
  "is_connected k fd w =
     (let c = k_libc k;
          (ret, _, _, w') = k_getpeername k fd (zeroed_storage c) (of_nat (size_storage c)) w
      in (ret = 0, w'))"

definition raw_getsockname :: "'w kernel \<Rightarrow> fd \<Rightarrow> 'w \<Rightarrow> SocketAddr io_result \<times> 'w" where
  "raw_getsockname k fd w =
     (let c = k_libc k;
          (ret, st, len, w') = k_getsockname k fd (zeroed_storage c) (of_nat (size_storage c)) w
      in (if ret < 0 then Inl (last_os_error k w') else Inr (decode_sockaddr c st len), w'))"

definition raw_connect :: "'w kernel \<Rightarrow> fd \<Rightarrow> SocketAddr \<Rightarrow> 'w \<Rightarrow> unit io_result \<times> 'w" where
  "raw_connect k fd addr w =
     (let (st, addr_len) = encode_sockaddr (k_libc k) addr (zeroed_storage (k_libc k));
          (ret, w') = k_connect k fd st addr_len w
      in (if ret < 0 then Inl (last_os_error k w') else Inr (), w'))"

text \<open>The \<^verbatim>\<open>c_int\<close> value is passed as its 32 bits; \<^verbatim>\<open>size_of_val(&val)\<close> is 4.\<close>

definition raw_setsockopt :: "'w kernel \<Rightarrow> fd \<Rightarrow> int \<Rightarrow> int \<Rightarrow> u32 \<Rightarrow> 'w \<Rightarrow> unit io_result \<times> 'w" where
  "raw_setsockopt k fd level optname val w =
     (let (ret, w') = k_setsockopt k fd level optname val 4 w
      in (if ret < 0 then Inl (last_os_error k w') else Inr (), w'))"

definition raw_setsockopt_u32 :: "'w kernel \<Rightarrow> fd \<Rightarrow> int \<Rightarrow> int \<Rightarrow> u32 \<Rightarrow> 'w \<Rightarrow> unit io_result \<times> 'w" where
  "raw_setsockopt_u32 k fd level optname val w =
     (let (ret, w') = k_setsockopt k fd level optname val 4 w
      in (if ret < 0 then Inl (last_os_error k w') else Inr (), w'))"

definition raw_getsockopt :: "'w kernel \<Rightarrow> fd \<Rightarrow> int \<Rightarrow> int \<Rightarrow> 'w \<Rightarrow> u32 io_result \<times> 'w" where
  "raw_getsockopt k fd level optname w =
     (let (ret, val, w') = k_getsockopt k fd level optname 0 4 w
      in (if ret < 0 then Inl (last_os_error k w') else Inr val, w'))"

section \<open>The codec contract\<close>

text \<open>
  What the platform code relies on when it hands the kernel an encoded address or reads one
  back: decoding inverts encoding on every well-formed address, whatever storage was
  written over.
\<close>

locale addr_codec =
  fixes encode :: "SocketAddr \<Rightarrow> bytes \<Rightarrow> bytes \<times> u32"
    and decode :: "bytes \<Rightarrow> u32 \<Rightarrow> SocketAddr"
    and storage :: "bytes \<Rightarrow> bool"
  assumes inverse: "wf_addr a \<Longrightarrow> storage st \<Longrightarrow> encode a st = (st', len) \<Longrightarrow> decode st' len = a"
    and keeps_storage: "wf_addr a \<Longrightarrow> storage st \<Longrightarrow> encode a st = (st', len) \<Longrightarrow> storage st'"
begin

lemma encode_injective:
  assumes "wf_addr a" and "wf_addr b" and "storage st" and "storage st2"
    and "encode a st = encode b st2"
  shows "a = b"
  using inverse [OF assms(1,3)] inverse [OF assms(2,4)] assms(5)
  by (metis surj_pair)

lemma reencode:
  assumes "wf_addr a" and "wf_addr b" and "storage st"
    and "encode a st = (st1, l1)" and "encode b st1 = (st2, l2)"
  shows "decode st2 l2 = b"
  using assms keeps_storage inverse by blast

end

lemma length_encode:
  assumes "libc_ok c" and "wf_addr a" and "length st = size_storage c"
    and "encode_sockaddr c a st = (st', len)"
  shows "length st' = size_storage c"
proof (cases a)
  case (V4 ip port)
  show ?thesis by (rule encode_v4_fields(5) [OF assms(1,3) assms(4) [unfolded V4]])
next
  case (V6 ip port flow scope)
  with assms(2) have len: "length (v6_octets ip) = 16" by (cases ip) simp
  show ?thesis by (rule encode_v6_fields(7) [OF assms(1,3) len assms(4) [unfolded V6]])
qed

lemma unix_addr_codec:
  "libc_ok c \<Longrightarrow> addr_codec (encode_sockaddr c) (decode_sockaddr c) (\<lambda>st. length st = size_storage c)"
  by unfold_locales (blast intro: decode_encode, blast intro: length_encode)

interpretation linux_codec: addr_codec
  "encode_sockaddr linux_libc" "decode_sockaddr linux_libc" "\<lambda>st. length st = size_storage linux_libc"
  by (rule unix_addr_codec [OF linux_libc_ok])

interpretation macos_codec: addr_codec
  "encode_sockaddr macos_libc" "decode_sockaddr macos_libc" "\<lambda>st. length st = size_storage macos_libc"
  by (rule unix_addr_codec [OF macos_libc_ok])

section \<open>Properties\<close>

text \<open>C10. Encoding any IPv4 or IPv6 socket address into a \<^verbatim>\<open>sockaddr_storage\<close> and decoding the
  result gives the address back: port, octets, flow information and scope id, on little- and
  big-endian targets, for every ABI whose struct fields do not overlap, whatever bytes the
  storage held before.\<close>

theorem sockaddr_roundtrip:
  assumes "libc_ok c" and "wf_addr a" and "length st = size_storage c"
  shows "case encode_sockaddr c a st of (st', len) \<Rightarrow> decode_sockaddr c st' len = a"
  using decode_encode [OF assms] by (simp split: prod.splits)

theorem sockaddr_roundtrip_witness:
  "case encode_sockaddr linux_libc (V6 (Ipv6Addr (replicate 15 0 @ [1])) 8080 7 42) (replicate 128 255) of
     (st', len) \<Rightarrow> decode_sockaddr linux_libc st' len = V6 (Ipv6Addr (replicate 15 0 @ [1])) 8080 7 42"
proof (rule sockaddr_roundtrip [OF linux_libc_ok])
  show "wf_addr (V6 (Ipv6Addr (replicate 15 0 @ [1])) 8080 7 42)" by simp
  show "length (replicate 128 (255 :: u8)) = size_storage linux_libc" by (simp add: linux_libc_def)
qed



text \<open>Different addresses never share an encoding: the kernel can tell apart any two
  destinations of a batch.\<close>

lemma sockaddr_encoding_injective:
  assumes "libc_ok c" and "wf_addr a" and "wf_addr b"
    and "length st = size_storage c" and "length st2 = size_storage c"
    and "encode_sockaddr c a st = encode_sockaddr c b st2"
  shows "a = b"
  using addr_codec.encode_injective [OF unix_addr_codec [OF assms(1)]] assms(2-6) by blast

text \<open>What decodes to the unspecified IPv4 address: a zero length, and a storage of any
  family other than the two Internet ones, among them the zeroed storage when no family is
  numbered 0.\<close>

lemma decode_unknown_unspecified:
  assumes "len = 0 \<or> (ss_family c st \<noteq> AF_INET c \<and> ss_family c st \<noteq> AF_INET6 c)"
  shows "decode_sockaddr c st len = V4 (Ipv4Addr 0 0 0 0) 0"
  using assms by (auto simp: decode_sockaddr_def UNSPECIFIED_V4_def Let_def)

end
