(* ===== verification/Batch.thy ===== *)
theory Batch
  imports Sockaddr
begin

text \<open>
  \<^verbatim>\<open>batch.rs\<close> and \<^verbatim>\<open>error.rs\<close>: the send and receive batches and the receive timestamp. A
  send slot keeps a raw pointer into the caller's memory, so the operations that read a
  slot take the memory of that moment. The container laws are the locale
  \<open>batch_container\<close>, interpreted on \<^verbatim>\<open>SendBatchRaw\<close> and on \<^verbatim>\<open>SendBatch<N>\<close>.
\<close>

section \<open>Errors and timestamps\<close>

datatype BingerError = BatchFull nat | Io io_error

text \<open>The fields are \<^verbatim>\<open>i64\<close>, kept as their 64 bits (\<open>sint\<close> reads them).\<close>

record Timestamp =
  tv_sec :: u64
  tv_nsec :: u64

record Duration =
  dur_secs :: u64
  dur_nanos :: u32

text \<open>\<^verbatim>\<open>std::time::Duration::new\<close>: nanoseconds carry into seconds, overflow panics.\<close>

definition Duration_new :: "u64 \<Rightarrow> u32 \<Rightarrow> Duration outcome" where
  "Duration_new secs nanos =
     (if nanos < 1000000000 then Returns \<lparr>dur_secs = secs, dur_nanos = nanos\<rparr>
      else let carry = ucast (nanos div 1000000000) :: u64
        in if unat secs + unat carry < 2 ^ 64
           then Returns \<lparr>dur_secs = secs + carry, dur_nanos = nanos mod 1000000000\<rparr>
           else Panics)"

definition Timestamp_as_duration :: "Timestamp \<Rightarrow> Duration outcome" where
  "Timestamp_as_duration ts = Duration_new (tv_sec ts) (ucast (tv_nsec ts))"

section \<open>SendBatchRaw\<close>

record SendSlot =
  data_ptr :: nat
  data_len :: nat
  slot_addr :: "SocketAddr option"

text \<open>\<open>sb_cap\<close> is \<^verbatim>\<open>slots.capacity()\<close>, the allocated capacity of the vector.\<close>

record SendBatchRaw =
  sb_slots :: "SendSlot list"
  sb_cap :: nat
  sb_len :: nat

text \<open>
  \<open>vec_alloc\<close> is the capacity \<^verbatim>\<open>Vec::with_capacity\<close> allocates for a requested one: the
  standard library promises at least as much.
\<close>

definition SendBatchRaw_with_capacity :: "(nat \<Rightarrow> nat) \<Rightarrow> nat \<Rightarrow> SendBatchRaw" where
  "SendBatchRaw_with_capacity vec_alloc capacity =
     \<lparr>sb_slots = [], sb_cap = vec_alloc capacity, sb_len = 0\<rparr>"

definition SendBatchRaw_push ::
    "SendBatchRaw \<Rightarrow> slice \<Rightarrow> SocketAddr option \<Rightarrow> (BingerError + unit) \<times> SendBatchRaw" where
  "SendBatchRaw_push b data addr =
     (if sb_len b \<ge> sb_cap b then (Inl (BatchFull (sb_cap b)), b)
      else
        let slot = \<lparr>data_ptr = slice_ptr data, data_len = slice_len data, slot_addr = addr\<rparr>;
            b' = (if length (sb_slots b) \<le> sb_len b
                  then b\<lparr>sb_slots := sb_slots b @ [slot]\<rparr>
                  else b\<lparr>sb_slots := (sb_slots b)[sb_len b := slot]\<rparr>)
        in (Inr (), b'\<lparr>sb_len := sb_len b' + 1\<rparr>))"

definition SendBatchRaw_len :: "SendBatchRaw \<Rightarrow> nat" where
  "SendBatchRaw_len b = sb_len b"

definition SendBatchRaw_is_empty :: "SendBatchRaw \<Rightarrow> bool" where
  "SendBatchRaw_is_empty b \<longleftrightarrow> sb_len b = 0"

text \<open>
  The index is checked against the slots of the vector; \<^verbatim>\<open>slice::from_raw_parts\<close> is
  undefined behaviour unless the bytes are still allocated. The slice is not copied.
\<close>

definition slot_slice :: "SendSlot \<Rightarrow> slice" where
  "slot_slice s = \<lparr>slice_ptr = data_ptr s, slice_len = data_len s\<rparr>"

definition SendBatchRaw_entry ::
    "memory \<Rightarrow> SendBatchRaw \<Rightarrow> nat \<Rightarrow> (slice \<times> SocketAddr option) outcome" where
  "SendBatchRaw_entry m b idx =
     outcome_bind (index_or_panic (sb_slots b) idx) (\<lambda>slot.
       if read_mem m (slot_slice slot) = None then Undefined
       else Returns (slot_slice slot, slot_addr slot))"

definition SendBatchRaw_clear :: "SendBatchRaw \<Rightarrow> SendBatchRaw" where
  "SendBatchRaw_clear b = b\<lparr>sb_len := 0\<rparr>"

section \<open>SendBatch<N>\<close>

text \<open>The const parameter \<^verbatim>\<open>N\<close> and the wrapped raw batch.\<close>

record SendBatch =
  send_N :: nat
  send_raw :: SendBatchRaw

definition SendBatch_new :: "(nat \<Rightarrow> nat) \<Rightarrow> nat \<Rightarrow> SendBatch" where
  "SendBatch_new vec_alloc N =
     \<lparr>send_N = N, send_raw = SendBatchRaw_with_capacity vec_alloc N\<rparr>"

definition SendBatch_default :: "(nat \<Rightarrow> nat) \<Rightarrow> nat \<Rightarrow> SendBatch" where
  "SendBatch_default vec_alloc N = SendBatch_new vec_alloc N"

text \<open>\<^verbatim>\<open>Deref\<close> gives access to the raw batch; through \<^verbatim>\<open>DerefMut\<close> an operation of the raw batch
  runs on it in place.\<close>

definition SendBatch_deref :: "SendBatch \<Rightarrow> SendBatchRaw" where
  "SendBatch_deref b = send_raw b"

definition SendBatch_deref_mut :: "(SendBatchRaw \<Rightarrow> 'r \<times> SendBatchRaw) \<Rightarrow> SendBatch \<Rightarrow> 'r \<times> SendBatch" where
  "SendBatch_deref_mut f b = (let (r, raw) = f (send_raw b) in (r, b\<lparr>send_raw := raw\<rparr>))"

definition SendBatch_push ::
    "SendBatch \<Rightarrow> slice \<Rightarrow> SocketAddr \<Rightarrow> (BingerError + unit) \<times> SendBatch" where
  "SendBatch_push b buf addr =
     (let (r, raw) = SendBatchRaw_push (send_raw b) buf (Some addr) in (r, b\<lparr>send_raw := raw\<rparr>))"

definition SendBatch_push_connected ::
    "SendBatch \<Rightarrow> slice \<Rightarrow> (BingerError + unit) \<times> SendBatch" where
  "SendBatch_push_connected b buf =
     (let (r, raw) = SendBatchRaw_push (send_raw b) buf None in (r, b\<lparr>send_raw := raw\<rparr>))"

definition SendBatch_len :: "SendBatch \<Rightarrow> nat" where
  "SendBatch_len b = SendBatchRaw_len (send_raw b)"

definition SendBatch_is_empty :: "SendBatch \<Rightarrow> bool" where
  "SendBatch_is_empty b \<longleftrightarrow> SendBatch_len b = 0"

definition SendBatch_capacity :: "SendBatch \<Rightarrow> nat" where
  "SendBatch_capacity b = send_N b"

definition SendBatch_clear :: "SendBatch \<Rightarrow> SendBatch" where
  "SendBatch_clear b = b\<lparr>send_raw := SendBatchRaw_clear (send_raw b)\<rparr>"

lemma SendBatch_delegates:
  "SendBatch_push b buf addr = SendBatch_deref_mut (\<lambda>raw. SendBatchRaw_push raw buf (Some addr)) b"
  "SendBatch_push_connected b buf = SendBatch_deref_mut (\<lambda>raw. SendBatchRaw_push raw buf None) b"
  "SendBatch_len b = SendBatchRaw_len (SendBatch_deref b)"
  by (simp_all add: SendBatch_push_def SendBatch_push_connected_def SendBatch_deref_mut_def SendBatch_len_def
      SendBatch_deref_def)

section \<open>RecvBatchRaw\<close>

record RecvSlot =
  rs_buf :: bytes
  rs_addr :: SocketAddr
  rs_recv_len :: u16
  rs_timestamp :: "Timestamp option"
  rs_dst_addr :: "SocketAddr option"

record RecvBatchRaw =
  rb_slots :: "RecvSlot list"
  rb_len :: nat

definition fresh_slot :: "nat \<Rightarrow> RecvSlot" where
  "fresh_slot buf_size =
     \<lparr>rs_buf = replicate buf_size 0, rs_addr = V4 (Ipv4Addr 0 0 0 0) 0, rs_recv_len = 0,
      rs_timestamp = None, rs_dst_addr = None\<rparr>"

definition RecvBatchRaw_with_capacity :: "nat \<Rightarrow> nat \<Rightarrow> RecvBatchRaw" where
  "RecvBatchRaw_with_capacity capacity buf_size =
     \<lparr>rb_slots = map (\<lambda>_. fresh_slot buf_size) [0 ..< capacity], rb_len = 0\<rparr>"

definition RecvBatchRaw_capacity :: "RecvBatchRaw \<Rightarrow> nat" where
  "RecvBatchRaw_capacity b = length (rb_slots b)"

definition RecvBatchRaw_len :: "RecvBatchRaw \<Rightarrow> nat" where
  "RecvBatchRaw_len b = rb_len b"

definition RecvBatchRaw_is_empty :: "RecvBatchRaw \<Rightarrow> bool" where
  "RecvBatchRaw_is_empty b \<longleftrightarrow> rb_len b = 0"

definition RecvBatchRaw_set_len :: "RecvBatchRaw \<Rightarrow> nat \<Rightarrow> RecvBatchRaw" where
  "RecvBatchRaw_set_len b n = b\<lparr>rb_len := n\<rparr>"

text \<open>\<^verbatim>\<open>self.slots[idx].field = v\<close>.\<close>

definition on_slot :: "RecvBatchRaw \<Rightarrow> nat \<Rightarrow> (RecvSlot \<Rightarrow> RecvSlot) \<Rightarrow> RecvBatchRaw outcome" where
  "on_slot b idx f =
     outcome_bind (update_or_panic (rb_slots b) idx f) (\<lambda>ss. Returns (b\<lparr>rb_slots := ss\<rparr>))"

text \<open>\<^verbatim>\<open>n as u16\<close> keeps the low 16 bits.\<close>

definition RecvBatchRaw_set_recv_len :: "RecvBatchRaw \<Rightarrow> nat \<Rightarrow> nat \<Rightarrow> RecvBatchRaw outcome" where
  "RecvBatchRaw_set_recv_len b idx n = on_slot b idx (\<lambda>s. s\<lparr>rs_recv_len := of_nat n\<rparr>)"

text \<open>
  \<^verbatim>\<open>buffer_mut\<close> hands out two mutable references: reading them is \<open>buffer_mut\<close>, writing
  through the first is \<open>write_buffer\<close>, through the second \<open>write_addr\<close>.
\<close>

definition RecvBatchRaw_buffer_mut :: "RecvBatchRaw \<Rightarrow> nat \<Rightarrow> (bytes \<times> SocketAddr) outcome" where
  "RecvBatchRaw_buffer_mut b idx =
     outcome_bind (index_or_panic (rb_slots b) idx) (\<lambda>slot. Returns (rs_buf slot, rs_addr slot))"

definition write_buffer :: "RecvBatchRaw \<Rightarrow> nat \<Rightarrow> bytes \<Rightarrow> RecvBatchRaw outcome" where
  "write_buffer b idx bs = on_slot b idx (\<lambda>s. s\<lparr>rs_buf := bs\<rparr>)"

definition write_addr :: "RecvBatchRaw \<Rightarrow> nat \<Rightarrow> SocketAddr \<Rightarrow> RecvBatchRaw outcome" where
  "write_addr b idx a = on_slot b idx (\<lambda>s. s\<lparr>rs_addr := a\<rparr>)"

definition RecvBatchRaw_data :: "RecvBatchRaw \<Rightarrow> nat \<Rightarrow> bytes outcome" where
  "RecvBatchRaw_data b idx =
     outcome_bind (index_or_panic (rb_slots b) idx) (\<lambda>slot.
       prefix_or_panic (rs_buf slot) (unat (rs_recv_len slot)))"

definition RecvBatchRaw_addr :: "RecvBatchRaw \<Rightarrow> nat \<Rightarrow> SocketAddr outcome" where
  "RecvBatchRaw_addr b idx =
     outcome_bind (index_or_panic (rb_slots b) idx) (\<lambda>slot. Returns (rs_addr slot))"

definition RecvBatchRaw_clear :: "RecvBatchRaw \<Rightarrow> RecvBatchRaw" where
  "RecvBatchRaw_clear b =
     \<lparr>rb_slots = map (\<lambda>s. s\<lparr>rs_recv_len := 0, rs_timestamp := None, rs_dst_addr := None\<rparr>) (rb_slots b),
      rb_len = 0\<rparr>"

definition RecvBatchRaw_timestamp :: "RecvBatchRaw \<Rightarrow> nat \<Rightarrow> Timestamp option outcome" where
  "RecvBatchRaw_timestamp b idx =
     outcome_bind (index_or_panic (rb_slots b) idx) (\<lambda>slot. Returns (rs_timestamp slot))"

definition RecvBatchRaw_set_timestamp ::
    "RecvBatchRaw \<Rightarrow> nat \<Rightarrow> Timestamp option \<Rightarrow> RecvBatchRaw outcome" where
  "RecvBatchRaw_set_timestamp b idx ts = on_slot b idx (\<lambda>s. s\<lparr>rs_timestamp := ts\<rparr>)"

definition RecvBatchRaw_dst_addr :: "RecvBatchRaw \<Rightarrow> nat \<Rightarrow> SocketAddr option outcome" where
  "RecvBatchRaw_dst_addr b idx =
     outcome_bind (index_or_panic (rb_slots b) idx) (\<lambda>slot. Returns (rs_dst_addr slot))"

definition RecvBatchRaw_set_dst_addr ::
    "RecvBatchRaw \<Rightarrow> nat \<Rightarrow> SocketAddr option \<Rightarrow> RecvBatchRaw outcome" where
  "RecvBatchRaw_set_dst_addr b idx a = on_slot b idx (\<lambda>s. s\<lparr>rs_dst_addr := a\<rparr>)"

section \<open>RecvBatch<N>\<close>

record RecvBatch =
  recv_N :: nat
  recv_raw :: RecvBatchRaw

definition RecvBatch_new :: "nat \<Rightarrow> nat \<Rightarrow> RecvBatch" where
  "RecvBatch_new N buf_size =
     \<lparr>recv_N = N, recv_raw = RecvBatchRaw_with_capacity N buf_size\<rparr>"

definition RecvBatch_deref :: "RecvBatch \<Rightarrow> RecvBatchRaw" where
  "RecvBatch_deref b = recv_raw b"

definition RecvBatch_deref_mut :: "(RecvBatchRaw \<Rightarrow> 'r \<times> RecvBatchRaw) \<Rightarrow> RecvBatch \<Rightarrow> 'r \<times> RecvBatch" where
  "RecvBatch_deref_mut f b = (let (r, raw) = f (recv_raw b) in (r, b\<lparr>recv_raw := raw\<rparr>))"

definition RecvBatch_len :: "RecvBatch \<Rightarrow> nat" where
  "RecvBatch_len b = RecvBatchRaw_len (recv_raw b)"

definition RecvBatch_is_empty :: "RecvBatch \<Rightarrow> bool" where
  "RecvBatch_is_empty b \<longleftrightarrow> RecvBatch_len b = 0"

definition RecvBatch_capacity :: "RecvBatch \<Rightarrow> nat" where
  "RecvBatch_capacity b = recv_N b"

definition RecvBatch_data :: "RecvBatch \<Rightarrow> nat \<Rightarrow> bytes outcome" where
  "RecvBatch_data b idx = RecvBatchRaw_data (recv_raw b) idx"

definition RecvBatch_addr :: "RecvBatch \<Rightarrow> nat \<Rightarrow> SocketAddr outcome" where
  "RecvBatch_addr b idx = RecvBatchRaw_addr (recv_raw b) idx"

definition RecvBatch_clear :: "RecvBatch \<Rightarrow> RecvBatch" where
  "RecvBatch_clear b = b\<lparr>recv_raw := RecvBatchRaw_clear (recv_raw b)\<rparr>"

definition RecvBatch_timestamp :: "RecvBatch \<Rightarrow> nat \<Rightarrow> Timestamp option outcome" where
  "RecvBatch_timestamp b idx = RecvBatchRaw_timestamp (recv_raw b) idx"

definition RecvBatch_dst_addr :: "RecvBatch \<Rightarrow> nat \<Rightarrow> SocketAddr option outcome" where
  "RecvBatch_dst_addr b idx = RecvBatchRaw_dst_addr (recv_raw b) idx"

text \<open>The iterator, run to its end.\<close>

definition RecvBatch_iter :: "RecvBatch \<Rightarrow> (bytes \<times> SocketAddr) list outcome" where
  "RecvBatch_iter b =
     outcome_map (\<lambda>i. outcome_bind (RecvBatch_data b i) (\<lambda>d.
         outcome_bind (RecvBatch_addr b i) (\<lambda>a. Returns (d, a))))
       [0 ..< RecvBatch_len b]"

section \<open>The container contract\<close>

text \<open>Pushing the elements of a list one after the other, with the result of each push.\<close>

fun push_list :: "('b \<Rightarrow> 'e \<Rightarrow> 'r \<times> 'b) \<Rightarrow> 'b \<Rightarrow> 'e list \<Rightarrow> 'r list \<times> 'b" where
  "push_list push b [] = ([], b)"
| "push_list push b (e # es) =
     (let (r, b') = push b e; (rs, b'') = push_list push b' es in (r # rs, b''))"

text \<open>
  What a fixed-capacity batch promises its users, against the list of its entries: a push
  appends while there is room and is refused, without effect, when there is none; \<open>clear\<close>
  empties the batch and keeps its capacity.
\<close>

locale batch_container =
  fixes push :: "'b \<Rightarrow> 'e \<Rightarrow> (BingerError + unit) \<times> 'b"
    and clear :: "'b \<Rightarrow> 'b"
    and count :: "'b \<Rightarrow> nat"
    and cap :: "'b \<Rightarrow> nat"
    and entries :: "'b \<Rightarrow> 'e list"
    and inv :: "'b \<Rightarrow> bool"
  assumes push_room: "inv b \<Longrightarrow> length (entries b) < cap b \<Longrightarrow> push b e = (r, b') \<Longrightarrow>
      r = Inr () \<and> entries b' = entries b @ [e] \<and> cap b' = cap b \<and> inv b'"
    and push_full: "inv b \<Longrightarrow> cap b \<le> length (entries b) \<Longrightarrow> push b e = (Inl (BatchFull (cap b)), b)"
    and count: "inv b \<Longrightarrow> count b = length (entries b)"
    and bounded: "inv b \<Longrightarrow> length (entries b) \<le> cap b"
    and clear: "inv b \<Longrightarrow> inv (clear b) \<and> entries (clear b) = [] \<and> cap (clear b) = cap b"
begin

lemma push_list_full:
  "inv b \<Longrightarrow> cap b \<le> length (entries b) \<Longrightarrow>
     push_list push b es = (replicate (length es) (Inl (BatchFull (cap b))), b)"
  by (induction es) (simp_all add: push_full)

lemma push_list_entries:
  assumes "inv b" and "push_list push b es = (rs, b')"
  shows "inv b' \<and> cap b' = cap b \<and>
     entries b' = entries b @ take (cap b - length (entries b)) es \<and>
     rs = replicate (min (length es) (cap b - length (entries b))) (Inr ()) @
          replicate (length es - (cap b - length (entries b))) (Inl (BatchFull (cap b)))"
  using assms
proof (induction es arbitrary: b rs)
  case Nil
  then show ?case by simp
next
  case (Cons e es)
  show ?case
  proof (cases "length (entries b) < cap b")
    case False
    with Cons.prems push_list_full [of b "e # es"] show ?thesis by auto
  next
    case True
    obtain r b1 where p: "push b e = (r, b1)" by (cases "push b e")
    obtain rs1 where q: "push_list push b1 es = (rs1, b')" and rs: "rs = r # rs1"
      using Cons.prems(2) p by (auto split: prod.splits)
    note p1 = push_room [OF Cons.prems(1) True p]
    then have "inv b1" by simp
    note ih = Cons.IH [OF this q]
    obtain k where k: "cap b - length (entries b) = Suc k"
      using True by (metis Suc_diff_Suc)
    with p1 have "cap b1 - length (entries b1) = k" by simp
    with p1 ih k rs show ?thesis by simp
  qed
qed

lemma refill:
  assumes "inv b" and "length es \<le> cap b" and "push_list push (clear b) es = (rs, b')"
  shows "entries b' = es \<and> rs = replicate (length es) (Inr ()) \<and> count b' = length es"
  using push_list_entries [of "clear b" es rs b'] clear [OF assms(1)] assms(2,3) count
  by (simp add: min_def)

end

text \<open>\<^verbatim>\<open>SendBatchRaw\<close> is such a container: its entries are the first \<open>len\<close> slots.\<close>

definition sb_entries :: "SendBatchRaw \<Rightarrow> (slice \<times> SocketAddr option) list" where
  "sb_entries b = map (\<lambda>s. (slot_slice s, slot_addr s)) (take (sb_len b) (sb_slots b))"

definition sb_inv :: "SendBatchRaw \<Rightarrow> bool" where
  "sb_inv b \<longleftrightarrow> sb_len b \<le> length (sb_slots b) \<and> length (sb_slots b) \<le> sb_cap b"

lemma length_sb_entries: "sb_inv b \<Longrightarrow> length (sb_entries b) = sb_len b"
  by (simp add: sb_entries_def sb_inv_def)

lemma nth_sb_entries:
  "i < sb_len b \<Longrightarrow> sb_inv b \<Longrightarrow>
     sb_entries b ! i = (slot_slice (sb_slots b ! i), slot_addr (sb_slots b ! i))"
  by (simp add: sb_entries_def sb_inv_def)

lemma sb_inv_with_capacity: "sb_inv (SendBatchRaw_with_capacity alloc n)"
  by (simp add: sb_inv_def SendBatchRaw_with_capacity_def)

lemma sb_entries_with_capacity: "sb_entries (SendBatchRaw_with_capacity alloc n) = []"
  by (simp add: sb_entries_def SendBatchRaw_with_capacity_def)

lemma sb_push_room:
  assumes "sb_inv b" and "length (sb_entries b) < sb_cap b" and "SendBatchRaw_push b d a = (r, b')"
  shows "r = Inr () \<and> sb_entries b' = sb_entries b @ [(d, a)] \<and> sb_cap b' = sb_cap b \<and> sb_inv b'"
  using assms unfolding length_sb_entries [OF assms(1)]
  by (auto simp: SendBatchRaw_push_def sb_inv_def sb_entries_def slot_slice_def Let_def
      take_Suc_conv_app_nth split: if_splits)

interpretation raw_batch: batch_container
  "\<lambda>b (d, a). SendBatchRaw_push b d a" SendBatchRaw_clear SendBatchRaw_len sb_cap sb_entries sb_inv
proof unfold_locales
  fix b :: SendBatchRaw and e r b'
  assume b: "sb_inv b" "length (sb_entries b) < sb_cap b"
    and "(case e of (d, a) \<Rightarrow> SendBatchRaw_push b d a) = (r, b')"
  then have "SendBatchRaw_push b (fst e) (snd e) = (r, b')"
    by (simp split: prod.splits)
  from sb_push_room [OF b this]
  show "r = Inr () \<and> sb_entries b' = sb_entries b @ [e] \<and> sb_cap b' = sb_cap b \<and> sb_inv b'"
    by simp
next
  fix b :: SendBatchRaw and e :: "slice \<times> SocketAddr option"
  assume "sb_inv b" and "sb_cap b \<le> length (sb_entries b)"
  then show "(case e of (d, a) \<Rightarrow> SendBatchRaw_push b d a) = (Inl (BatchFull (sb_cap b)), b)"
    by (simp add: length_sb_entries SendBatchRaw_push_def split: prod.splits)
qed (auto simp: length_sb_entries SendBatchRaw_len_def SendBatchRaw_clear_def sb_inv_def sb_entries_def)

text \<open>\<^verbatim>\<open>SendBatch<N>\<close> inherits the contract from the batch it wraps.\<close>

fun SendBatch_push_any ::
    "SendBatch \<Rightarrow> slice \<times> SocketAddr option \<Rightarrow> (BingerError + unit) \<times> SendBatch" where
  "SendBatch_push_any b (d, Some a) = SendBatch_push b d a"
| "SendBatch_push_any b (d, None) = SendBatch_push_connected b d"

lemma SendBatch_push_any_raw:
  "SendBatch_push_any b (d, a) =
     (let (r, raw) = SendBatchRaw_push (send_raw b) d a in (r, b\<lparr>send_raw := raw\<rparr>))"
  by (cases a) (simp_all add: SendBatch_push_def SendBatch_push_connected_def)

interpretation send_batch: batch_container
  SendBatch_push_any SendBatch_clear SendBatch_len "\<lambda>b. sb_cap (send_raw b)"
  "\<lambda>b. sb_entries (send_raw b)" "\<lambda>b. sb_inv (send_raw b)"
proof unfold_locales
  fix b :: SendBatch and e r b'
  assume "sb_inv (send_raw b)" and "length (sb_entries (send_raw b)) < sb_cap (send_raw b)"
    and "SendBatch_push_any b e = (r, b')"
  then show "r = Inr () \<and> sb_entries (send_raw b') = sb_entries (send_raw b) @ [e] \<and>
      sb_cap (send_raw b') = sb_cap (send_raw b) \<and> sb_inv (send_raw b')"
    by (cases e) (auto simp: SendBatch_push_any_raw split: prod.splits dest: sb_push_room)
next
  fix b :: SendBatch and e
  assume "sb_inv (send_raw b)" and "sb_cap (send_raw b) \<le> length (sb_entries (send_raw b))"
  then show "SendBatch_push_any b e = (Inl (BatchFull (sb_cap (send_raw b))), b)"
    by (cases e) (simp add: SendBatch_push_any_raw SendBatchRaw_push_def length_sb_entries)
qed (auto simp: SendBatch_len_def SendBatch_clear_def raw_batch.count raw_batch.bounded raw_batch.clear)

section \<open>Entries of a send batch\<close>

lemma entry_Returns:
  assumes "sb_inv b" and "i < sb_len b" and "read_mem m (fst (sb_entries b ! i)) = Some bs"
  shows "SendBatchRaw_entry m b i = Returns (sb_entries b ! i)"
  using assms by (simp add: SendBatchRaw_entry_def index_or_panic_def nth_sb_entries sb_inv_def)

text \<open>Every slice of the batch is still allocated: what the caller owes the batch.\<close>

definition sb_readable :: "memory \<Rightarrow> SendBatchRaw \<Rightarrow> bool" where
  "sb_readable m b \<longleftrightarrow> list_all (\<lambda>(d, _). read_mem m d \<noteq> None) (sb_entries b)"

definition payload :: "memory \<Rightarrow> slice \<Rightarrow> bytes" where
  "payload m d = (case read_mem m d of Some bs \<Rightarrow> bs | None \<Rightarrow> [])"

lemma entry_readable:
  assumes "sb_inv b" and "sb_readable m b" and "i < sb_len b"
  shows "SendBatchRaw_entry m b i = Returns (sb_entries b ! i)"
proof -
  have "sb_entries b ! i \<in> set (sb_entries b)"
    using assms by (simp add: length_sb_entries)
  with assms(2) have "read_mem m (fst (sb_entries b ! i)) \<noteq> None"
    by (auto simp: sb_readable_def list_all_iff)
  with assms show ?thesis by (auto intro: entry_Returns)
qed

lemma push_entry_last:
  assumes "sb_inv b" and "sb_len b < sb_cap b" and "SendBatchRaw_push b d a = (r, b')"
  shows "sb_inv b'" and "sb_len b' = Suc (sb_len b)" and "sb_entries b' ! sb_len b = (d, a)"
proof -
  have "length (sb_entries b) < sb_cap b"
    using assms(1,2) by (simp add: length_sb_entries)
  note p = sb_push_room [OF assms(1) this assms(3)]
  then show "sb_inv b'" by simp
  from p have "length (sb_entries b') = Suc (length (sb_entries b))" by simp
  then show "sb_len b' = Suc (sb_len b)"
    using length_sb_entries [OF assms(1)] length_sb_entries [of b'] p by simp
  from p assms(1) show "sb_entries b' ! sb_len b = (d, a)"
    by (simp add: nth_append length_sb_entries)
qed

lemma sint_u64: "sint (x :: u64) = uint x - 2 ^ 64 * of_bool (bit (uint x) 63)"
  using uint_bounded [of x]
  by (simp add: sint_uint signed_take_bit_eq_take_bit_minus take_bit_int_eq_self)

section \<open>Slots of a receive batch\<close>

text \<open>
  What every receive keeps: the batch does not claim more packets than it has slots, all
  buffers have the size they were allocated with, and no recorded length exceeds it.
\<close>

definition rb_inv :: "nat \<Rightarrow> RecvBatchRaw \<Rightarrow> bool" where
  "rb_inv buf_size b \<longleftrightarrow>
     rb_len b \<le> length (rb_slots b) \<and>
     list_all (\<lambda>s. length (rs_buf s) = buf_size \<and> unat (rs_recv_len s) \<le> buf_size) (rb_slots b)"

lemma on_slot_Returns_iff [outcome_simps]:
  "on_slot b i f = Returns b' \<longleftrightarrow>
     i < length (rb_slots b) \<and> b' = b\<lparr>rb_slots := (rb_slots b)[i := f (rb_slots b ! i)]\<rparr>"
  by (auto simp: on_slot_def outcome_simps)

lemma on_slot_in_range:
  "i < length (rb_slots b) \<Longrightarrow>
     on_slot b i f = Returns (b\<lparr>rb_slots := (rb_slots b)[i := f (rb_slots b ! i)]\<rparr>)"
  by (simp add: outcome_simps)

lemmas slot_ops = RecvBatchRaw_set_recv_len_def write_buffer_def write_addr_def
  RecvBatchRaw_set_timestamp_def RecvBatchRaw_set_dst_addr_def

lemmas slot_reads = RecvBatchRaw_buffer_mut_def RecvBatchRaw_data_def RecvBatchRaw_addr_def
  RecvBatchRaw_timestamp_def RecvBatchRaw_dst_addr_def index_or_panic_def prefix_or_panic_def

lemma rb_inv_on_slot:
  assumes "rb_inv n b" and "on_slot b i f = Returns b'"
    and "\<And>s. length (rs_buf s) = n \<Longrightarrow> unat (rs_recv_len s) \<le> n \<Longrightarrow>
      length (rs_buf (f s)) = n \<and> unat (rs_recv_len (f s)) \<le> n"
  shows "rb_inv n b'"
  using assms by (auto simp: rb_inv_def outcome_simps list_all_length nth_list_update)

lemma unat_of_nat_u16: "unat (of_nat n :: u16) = n mod 65536"
  by (simp add: unsigned_of_nat take_bit_eq_mod)

lemma set_recv_len_inv:
  "rb_inv n b \<Longrightarrow> RecvBatchRaw_set_recv_len b i l = Returns b' \<Longrightarrow> l \<le> n \<Longrightarrow> rb_inv n b'"
  unfolding RecvBatchRaw_set_recv_len_def
  by (erule (1) rb_inv_on_slot)
     (auto simp: unat_of_nat_u16 intro: order_trans [OF mod_less_eq_dividend])

lemma rb_inv_with_capacity: "rb_inv n (RecvBatchRaw_with_capacity c n)"
  by (simp add: rb_inv_def RecvBatchRaw_with_capacity_def fresh_slot_def list_all_iff)

lemma rb_inv_clear: "rb_inv n b \<Longrightarrow> rb_inv n (RecvBatchRaw_clear b)"
  by (auto simp: rb_inv_def RecvBatchRaw_clear_def list_all_iff)

lemma data_in_range:
  "rb_inv n b \<Longrightarrow> i < length (rb_slots b) \<Longrightarrow>
     RecvBatchRaw_data b i =
       Returns (take (unat (rs_recv_len (rb_slots b ! i))) (rs_buf (rb_slots b ! i)))"
  by (auto simp: slot_reads rb_inv_def list_all_length)

section \<open>Properties\<close>


text \<open>Reuse: after \<^verbatim>\<open>clear\<close>, a raw send batch can be refilled with any list of entries
  within its capacity, every push succeeds and the old entries are gone from it.\<close>

lemma raw_batch_refill:
  assumes "sb_inv b" and "length es \<le> sb_cap b"
    and "push_list (\<lambda>b (d, a). SendBatchRaw_push b d a) (SendBatchRaw_clear b) es = (rs, b')"
  shows "sb_entries b' = es \<and> rs = replicate (length es) (Inr ()) \<and>
     SendBatchRaw_len b' = length es"
  using assms by (rule raw_batch.refill)

text \<open>A batch does not copy what is pushed: \<^verbatim>\<open>entry\<close> gives back the pushed slice, and the
  bytes behind it are those of the moment of the call, whatever they were at the push. If the
  buffer is overwritten in between, the new bytes are what would be sent.\<close>

lemma entry_reads_current_memory:
  assumes "sb_inv b" and "sb_len b < sb_cap b" and "length now = n"
    and "SendBatchRaw_push b \<lparr>slice_ptr = p, slice_len = n\<rparr> a = (r, b')"
  shows "SendBatchRaw_entry (store_bytes m p now) b' (sb_len b) =
       Returns (\<lparr>slice_ptr = p, slice_len = n\<rparr>, a) \<and>
     read_mem (store_bytes m p now) \<lparr>slice_ptr = p, slice_len = n\<rparr> = Some now"
proof -
  note q = push_entry_last [OF assms(1,2,4)]
  have rd: "read_mem (store_bytes m p now) \<lparr>slice_ptr = p, slice_len = n\<rparr> = Some now"
    using assms(3) read_store_bytes [of m p now] by simp
  with q entry_Returns [of b' "sb_len b" "store_bytes m p now" now] show ?thesis by simp
qed

text \<open>\<^verbatim>\<open>push\<close> ties no lifetime to the slice: if the buffer is dropped after a successful push
  of a non-empty slice, reading the entry is undefined behaviour.\<close>

lemma entry_after_free_undefined:
  assumes "sb_inv b" and "sb_len b < sb_cap b" and "0 < slice_len d"
    and "SendBatchRaw_push b d a = (r, b')"
  shows "r = Inr () \<and> SendBatchRaw_entry (free_slice m d) b' (sb_len b) = Undefined"
proof -
  have "length (sb_entries b) < sb_cap b"
    using assms(1,2) by (simp add: length_sb_entries)
  note r = sb_push_room [OF assms(1) this assms(4)]
  note q = push_entry_last [OF assms(1,2,4)]
  have "slot_slice (sb_slots b' ! sb_len b) = d"
    using q nth_sb_entries [of "sb_len b" b'] by simp
  with q assms(3) have "SendBatchRaw_entry (free_slice m d) b' (sb_len b) = Undefined"
    by (simp add: SendBatchRaw_entry_def index_or_panic_def sb_inv_def read_free_slice)
  with r show ?thesis by simp
qed

text \<open>\<^verbatim>\<open>clear\<close> resets the length only: an entry of the cleared batch is still returned by
  \<^verbatim>\<open>entry\<close>, where an index past the length is documented to panic.\<close>

lemma entry_survives_clear:
  assumes "sb_inv b" and "sb_readable m b" and "i < sb_len b"
  shows "SendBatchRaw_len (SendBatchRaw_clear b) = 0 \<and>
     SendBatchRaw_entry m (SendBatchRaw_clear b) i = Returns (sb_entries b ! i)"
proof -
  have "SendBatchRaw_entry m (SendBatchRaw_clear b) i = SendBatchRaw_entry m b i"
    by (simp add: SendBatchRaw_entry_def SendBatchRaw_clear_def)
  with entry_readable [OF assms] show ?thesis
    by (simp add: SendBatchRaw_len_def SendBatchRaw_clear_def)
qed

text \<open>What the platform code stores in a slot is what the user reads: after the received
  bytes are written to the buffer and their number and source are recorded, \<^verbatim>\<open>data\<close> and
  \<^verbatim>\<open>addr\<close> return them, for every datagram of at most 65535 bytes; the other slots and the
  length of the batch do not change.\<close>

lemma recv_slot_roundtrip:
  assumes "i < RecvBatchRaw_capacity b" and "n \<le> length buf" and "n < 65536"
  shows "\<exists>b1 b2 b3. write_buffer b i buf = Returns b1 \<and>
     RecvBatchRaw_set_recv_len b1 i n = Returns b2 \<and> write_addr b2 i a = Returns b3 \<and>
     RecvBatchRaw_data b3 i = Returns (take n buf) \<and> RecvBatchRaw_addr b3 i = Returns a \<and>
     rb_len b3 = rb_len b \<and> (\<forall>j. j \<noteq> i \<longrightarrow> RecvBatchRaw_data b3 j = RecvBatchRaw_data b j)"
  using assms
  by (simp add: slot_ops slot_reads on_slot_in_range RecvBatchRaw_capacity_def unat_of_nat_u16)

text \<open>The recorded length is a \<^verbatim>\<open>u16\<close>: for a length that respects the documented safety
  condition (it does not exceed the buffer), \<^verbatim>\<open>data\<close> returns the first \<^verbatim>\<open>n mod 65536\<close> bytes.
  A 65536-byte packet in a large buffer reads as empty.\<close>

lemma recv_len_wraps:
  assumes "i < RecvBatchRaw_capacity b" and "n \<le> length (rs_buf (rb_slots b ! i))"
  shows "\<exists>b'. RecvBatchRaw_set_recv_len b i n = Returns b' \<and>
     RecvBatchRaw_data b' i = Returns (take (n mod 65536) (rs_buf (rb_slots b ! i)))"
  using assms
  by (auto simp: slot_ops slot_reads on_slot_in_range RecvBatchRaw_capacity_def unat_of_nat_u16
      intro: order_trans [OF mod_less_eq_dividend])

text \<open>Reading a receive batch: the iterator yields the stored packets.\<close>

lemma recv_iter_slots:
  assumes "rb_inv buf_size (recv_raw b)"
  shows "RecvBatch_iter b = Returns (map (\<lambda>s. (take (unat (rs_recv_len s)) (rs_buf s), rs_addr s))
     (take (RecvBatch_len b) (rb_slots (recv_raw b))))"
proof -
  let ?ss = "rb_slots (recv_raw b)"
  let ?item = "\<lambda>s. (take (unat (rs_recv_len s)) (rs_buf s), rs_addr s)"
  have len: "RecvBatch_len b \<le> length ?ss"
    using assms by (simp add: rb_inv_def RecvBatch_len_def RecvBatchRaw_len_def)
  have "RecvBatch_iter b = Returns (map (\<lambda>i. ?item (?ss ! i)) [0 ..< RecvBatch_len b])"
    unfolding RecvBatch_iter_def
    using assms len
    by (intro outcome_map_Returns)
       (auto simp: RecvBatch_data_def RecvBatch_addr_def data_in_range RecvBatchRaw_addr_def
          index_or_panic_def)
  also have "map (\<lambda>i. ?item (?ss ! i)) [0 ..< RecvBatch_len b] = map ?item (take (RecvBatch_len b) ?ss)"
    using len by (intro nth_equalityI) auto
  finally show ?thesis .
qed

text \<open>C31. Under the invariant that every receive keeps, iterating over a receive batch never
  panics and yields exactly \<^verbatim>\<open>len\<close> packets, each the recorded prefix of its slot's buffer
  with the source address of that slot.\<close>

theorem recv_iter_total:
  assumes "rb_inv buf_size (recv_raw b)"
  shows "RecvBatch_iter b = Returns (map (\<lambda>s. (take (unat (rs_recv_len s)) (rs_buf s), rs_addr s))
     (take (RecvBatch_len b) (rb_slots (recv_raw b))))"
  using assms by (rule recv_iter_slots)

theorem recv_iter_total_witness: "RecvBatch_iter (RecvBatch_new 4 64) = Returns []"
  using recv_iter_total [of 64 "RecvBatch_new 4 64"]
  by (simp add: RecvBatch_new_def RecvBatch_len_def RecvBatchRaw_len_def rb_inv_with_capacity)
     (simp add: RecvBatchRaw_with_capacity_def)

text \<open>\<^verbatim>\<open>clear\<close> on a receive batch forgets every packet: length 0, no data in any slot, no
  timestamp and no destination address, with all buffers and source addresses kept.\<close>

lemma recv_clear_resets:
  "RecvBatchRaw_len (RecvBatchRaw_clear b) = 0 \<and>
   RecvBatchRaw_capacity (RecvBatchRaw_clear b) = RecvBatchRaw_capacity b \<and>
   map rs_buf (rb_slots (RecvBatchRaw_clear b)) = map rs_buf (rb_slots b) \<and>
   list_all (\<lambda>i. RecvBatchRaw_data (RecvBatchRaw_clear b) i = Returns [] \<and>
       RecvBatchRaw_timestamp (RecvBatchRaw_clear b) i = Returns None \<and>
       RecvBatchRaw_dst_addr (RecvBatchRaw_clear b) i = Returns None)
     [0 ..< RecvBatchRaw_capacity b]"
  by (simp add: RecvBatchRaw_clear_def RecvBatchRaw_len_def RecvBatchRaw_capacity_def slot_reads
      list_all_iff)

text \<open>A kernel timestamp with a non-negative second count and nanoseconds below one billion
  converts to the \<^verbatim>\<open>Duration\<close> with the same two numbers; one before the epoch converts to
  seconds taken modulo \<open>2 ^ 64\<close>.\<close>

lemma timestamp_as_duration:
  assumes "unat (tv_nsec ts) < 1000000000"
  shows "\<exists>d. Timestamp_as_duration ts = Returns d \<and>
     int (unat (dur_nanos d)) = sint (tv_nsec ts) \<and>
     int (unat (dur_secs d)) = (if 0 \<le> sint (tv_sec ts) then sint (tv_sec ts) else 2 ^ 64 + sint (tv_sec ts))"
proof -
  let ?n = "ucast (tv_nsec ts) :: u32"
  have n: "unat ?n = unat (tv_nsec ts)"
    using assms by (simp add: unsigned_ucast_eq take_bit_nat_eq_self)
  have "?n < 1000000000"
    using assms n by (simp add: word_less_nat_alt)
  then have d: "Timestamp_as_duration ts = Returns \<lparr>dur_secs = tv_sec ts, dur_nanos = ?n\<rparr>"
    by (simp add: Timestamp_as_duration_def Duration_new_def)
  have "unat (tv_nsec ts) < 2 ^ 63"
    using assms by simp
  then have "int (unat (tv_nsec ts)) < int (2 ^ 63)"
    by (simp only: of_nat_less_iff)
  then have small: "uint (tv_nsec ts) < 2 ^ 63" by simp
  then have "\<not> bit (uint (tv_nsec ts)) 63"
    by (simp add: bit_iff_odd)
  moreover have "uint ?n = uint (tv_nsec ts)"
    using arg_cong [OF n, of int] by simp
  ultimately show ?thesis
    using d sint_u64 [of "tv_nsec ts"] sint_u64 [of "tv_sec ts"] uint_bounded [of "tv_sec ts"]
    by auto
qed

end
