(* ===== verification/Delivery.thy ===== *)
theory Delivery
  imports Batch
begin

text \<open>
  What backends are measured against. A send batch stands for a list of datagrams, compared
  with the log of what the socket accepted. A receive is compared with the queue of datagrams
  that have arrived at the socket (\<open>queue_contract\<close>). The theory ends with a small concrete
  kernel, a loopback with a queue, a log and a send budget, that satisfies every contract and
  on which witnesses run.
\<close>

section \<open>What a send batch stands for\<close>

text \<open>
  The datagram an entry asks for: its payload, and the encoding of its destination in a
  fresh storage (none for an entry without one).
\<close>

definition datagram :: "libc \<Rightarrow> memory \<Rightarrow> slice \<times> SocketAddr option \<Rightarrow> tx_msg" where
  "datagram c m e =
     \<lparr>tx_name = map_option (\<lambda>a. encode_sockaddr c a (zeroed_storage c)) (snd e),
      tx_data = payload m (fst e)\<rparr>"

definition datagrams :: "libc \<Rightarrow> memory \<Rightarrow> SendBatchRaw \<Rightarrow> tx_msg list" where
  "datagrams c m b = map (datagram c m) (sb_entries b)"

lemma length_datagrams: "sb_inv b \<Longrightarrow> length (datagrams c m b) = sb_len b"
  by (simp add: datagrams_def length_sb_entries)

lemma nth_datagrams:
  "sb_inv b \<Longrightarrow> i < sb_len b \<Longrightarrow> datagrams c m b ! i = datagram c m (sb_entries b ! i)"
  by (simp add: datagrams_def length_sb_entries)

text \<open>On a connected socket the per-packet loops drop the destination.\<close>

definition strip_name :: "bool \<Rightarrow> tx_msg \<Rightarrow> tx_msg" where
  "strip_name is_conn t = (if is_conn then t\<lparr>tx_name := None\<rparr> else t)"

section \<open>What a receive gets from\<close>

text \<open>A datagram lands at the start of the buffer; what does not fit is lost.\<close>

definition deposit :: "bytes \<Rightarrow> bytes \<Rightarrow> bytes" where
  "deposit buf d = put_bytes buf 0 (take (length buf) d)"

lemma length_deposit [simp]: "length (deposit buf d) = length buf"
  by (simp add: deposit_def put_bytes_def)

lemma take_deposit [simp]:
  "n = min (length d) (length buf) \<Longrightarrow> take n (deposit buf d) = take (length buf) d"
  by (simp add: deposit_def put_bytes_def min_def)

text \<open>One entry of the message array after the kernel has put a datagram in it.\<close>

definition filled :: "libc \<Rightarrow> bytes \<times> SocketAddr \<Rightarrow> rx_msg \<Rightarrow> rx_msg \<Rightarrow> bool" where
  "filled c p r r' \<longleftrightarrow>
     rx_buf r' = deposit (rx_buf r) (fst p) \<and>
     encode_sockaddr c (snd p) (rx_name r) = (rx_name r', rx_namelen r') \<and>
     rx_len r' = of_nat (min (length (fst p)) (length (rx_buf r)))"

text \<open>
  recv(2) and recvmmsg(2) on a non-blocking UDP socket whose queue of arrived datagrams is
  \<open>rxq\<close>, while no signal arrives: datagrams are taken in order, one per call or per message,
  each with its source address in the ABI's layout; an empty queue is \<^verbatim>\<open>EAGAIN\<close>. A UDP
  payload is shorter than 65536 bytes.
\<close>

definition queue_contract :: "'w kernel \<Rightarrow> ('w \<Rightarrow> (bytes \<times> SocketAddr) list) \<Rightarrow> bool" where
  "queue_contract k rxq \<longleftrightarrow>
     libc_ok (k_libc k) \<and> errno_ok (k_libc k) \<and>
     (\<forall>w. \<forall>p \<in> set (rxq w). length (fst p) < 65536 \<and> wf_addr (snd p)) \<and>
     (\<forall>fd buf st l w n buf' st' l' w'. k_recvfrom k fd buf st l w = (n, buf', st', l', w') \<longrightarrow>
        (case rxq w of
           [] \<Rightarrow> n < 0 \<and> k_errno k w' = EAGAIN (k_libc k) \<and> rxq w' = [] \<and> buf' = buf
         | p # q \<Rightarrow> n = int (min (length (fst p)) (length buf)) \<and> buf' = deposit buf (fst p) \<and>
             encode_sockaddr (k_libc k) (snd p) st = (st', l') \<and> rxq w' = q)) \<and>
     (\<forall>fd ms vlen w n ms' w'. k_recvmmsg k fd ms vlen w = (n, ms', w') \<longrightarrow>
        0 < unat vlen \<and> unat vlen \<le> length ms \<longrightarrow>
        length ms' = length ms \<and>
        (if rxq w = [] then n < 0 \<and> k_errno k w' = EAGAIN (k_libc k) \<and> rxq w' = [] \<and> ms' = ms
         else n = int (min (unat vlen) (length (rxq w))) \<and> rxq w' = drop (nat n) (rxq w) \<and>
           (\<forall>i < nat n. filled (k_libc k) (rxq w ! i) (ms ! i) (ms' ! i)) \<and>
           (\<forall>i < length ms. nat n \<le> i \<longrightarrow> ms' ! i = ms ! i)))"

lemma queue_contract_libc:
  assumes "queue_contract k rxq"
  shows "libc_ok (k_libc k)" and "errno_ok (k_libc k)"
    and "p \<in> set (rxq w) \<Longrightarrow> length (fst p) < 65536" and "p \<in> set (rxq w) \<Longrightarrow> wf_addr (snd p)"
  using assms unfolding queue_contract_def by blast+

lemma queue_contract_recvfrom:
  assumes "queue_contract k rxq" and "k_recvfrom k fd buf st l w = (n, buf', st', l', w')"
  shows "case rxq w of
           [] \<Rightarrow> n < 0 \<and> k_errno k w' = EAGAIN (k_libc k) \<and> rxq w' = [] \<and> buf' = buf
         | p # q \<Rightarrow> n = int (min (length (fst p)) (length buf)) \<and> buf' = deposit buf (fst p) \<and>
             encode_sockaddr (k_libc k) (snd p) st = (st', l') \<and> rxq w' = q"
  using assms unfolding queue_contract_def by blast

lemma queue_contract_recvmmsg:
  assumes "queue_contract k rxq" and "k_recvmmsg k fd ms vlen w = (n, ms', w')"
    and "0 < unat vlen" and "unat vlen \<le> length ms"
  shows "length ms' = length ms \<and>
        (if rxq w = [] then n < 0 \<and> k_errno k w' = EAGAIN (k_libc k) \<and> rxq w' = [] \<and> ms' = ms
         else n = int (min (unat vlen) (length (rxq w))) \<and> rxq w' = drop (nat n) (rxq w) \<and>
           (\<forall>i < nat n. filled (k_libc k) (rxq w ! i) (ms ! i) (ms' ! i)) \<and>
           (\<forall>i < length ms. nat n \<le> i \<longrightarrow> ms' ! i = ms ! i))"
  using assms unfolding queue_contract_def by blast

text \<open>What the user reads: the packets of a receive batch, and a queued datagram cut to the
  size of a slot.\<close>

definition slot_packet :: "RecvSlot \<Rightarrow> bytes \<times> SocketAddr" where
  "slot_packet s = (take (unat (rs_recv_len s)) (rs_buf s), rs_addr s)"

definition rb_packets :: "RecvBatchRaw \<Rightarrow> (bytes \<times> SocketAddr) list" where
  "rb_packets b = map slot_packet (take (rb_len b) (rb_slots b))"

definition cut_to :: "nat \<Rightarrow> bytes \<times> SocketAddr \<Rightarrow> bytes \<times> SocketAddr" where
  "cut_to buf_size p = (take buf_size (fst p), snd p)"

section \<open>What backends promise the socket layer\<close>

text \<open>
  The laws hold under what a platform's own system calls promise: \<open>tx_ok\<close> and \<open>rx_ok\<close> for
  the shape of their results, \<open>tx_contract\<close> and \<open>queue_ok\<close> against a log and a queue.
\<close>

locale send_backend =
  fixes try_send :: "'w kernel \<Rightarrow> fd \<Rightarrow> memory \<Rightarrow> SendBatchRaw \<Rightarrow> 'w \<Rightarrow> (nat io_result \<times> 'w) outcome"
    and tx_ok :: "'w kernel \<Rightarrow> bool"
  assumes empty: "SendBatchRaw_len b = 0 \<Longrightarrow> try_send k fd m b w = Returns (Inr 0, w)"
    and returns: "tx_ok k \<Longrightarrow> sb_inv b \<Longrightarrow> sb_readable m b \<Longrightarrow> \<exists>r w'. try_send k fd m b w = Returns (r, w')"
    and bounded: "tx_ok k \<Longrightarrow> sb_inv b \<Longrightarrow> sb_readable m b \<Longrightarrow>
      try_send k fd m b w = Returns (Inr n, w') \<Longrightarrow> n \<le> SendBatchRaw_len b"

text \<open>
  A send that is exact about what left the socket, on the batches it is good for
  (\<open>sendable\<close>): the datagrams of the batch go out in order up to some number, \<^verbatim>\<open>Ok\<close> reports
  that number, and a \<^verbatim>\<open>WouldBlock\<close> error means that none went out, so that calling again
  repeats nothing.
\<close>

locale prefix_backend = send_backend try_send tx_ok
  for try_send :: "'w kernel \<Rightarrow> fd \<Rightarrow> memory \<Rightarrow> SendBatchRaw \<Rightarrow> 'w \<Rightarrow> (nat io_result \<times> 'w) outcome"
    and tx_ok +
  fixes sendable :: "SendBatchRaw \<Rightarrow> bool"
    and tx_contract :: "'w kernel \<Rightarrow> ('w \<Rightarrow> tx_msg list) \<Rightarrow> bool"
  assumes prefix: "tx_contract k txlog \<Longrightarrow> sb_inv b \<Longrightarrow> sb_readable m b \<Longrightarrow> sendable b \<Longrightarrow>
      \<exists>r w' n is_conn. try_send k fd m b w = Returns (r, w') \<and> n \<le> SendBatchRaw_len b \<and>
        txlog w' = txlog w @ take n (map (strip_name is_conn) (datagrams (k_libc k) m b)) \<and>
        (r = Inr n \<or> (\<exists>e. r = Inl e \<and> n < SendBatchRaw_len b \<and> (kind (k_libc k) e = WouldBlock \<longrightarrow> n = 0)))"
begin

lemma prefix_result:
  assumes "tx_contract k txlog" and "sb_inv b" and "sb_readable m b" and "sendable b"
    and "try_send k fd m b w = Returns (r, w')"
  shows "\<exists>n is_conn. n \<le> SendBatchRaw_len b \<and>
        txlog w' = txlog w @ take n (map (strip_name is_conn) (datagrams (k_libc k) m b)) \<and>
        (r = Inr n \<or> (\<exists>e. r = Inl e \<and> n < SendBatchRaw_len b \<and> (kind (k_libc k) e = WouldBlock \<longrightarrow> n = 0)))"
  using prefix [OF assms(1-4), of fd w] assms(5) by auto

lemma blocked_sends_nothing:
  assumes "tx_contract k txlog" and "sb_inv b" and "sb_readable m b" and "sendable b"
    and "try_send k fd m b w = Returns (Inl e, w')" and "kind (k_libc k) e = WouldBlock"
  shows "txlog w' = txlog w" and "0 < SendBatchRaw_len b"
  using prefix_result [OF assms(1-5)] assms(6) by auto

end

locale recv_backend =
  fixes try_recv :: "'w kernel \<Rightarrow> fd \<Rightarrow> RecvBatchRaw \<Rightarrow> 'w \<Rightarrow> (nat io_result \<times> RecvBatchRaw \<times> 'w) outcome"
    and rx_ok :: "'w kernel \<Rightarrow> bool"
  assumes keeps_inv: "rx_ok k \<Longrightarrow> rb_inv n b \<Longrightarrow> try_recv k fd b w = Returns (r, b', w') \<Longrightarrow>
      rb_inv n b' \<and> RecvBatchRaw_capacity b' = RecvBatchRaw_capacity b"
    and received: "rx_ok k \<Longrightarrow> rb_inv n b \<Longrightarrow> try_recv k fd b w = Returns (Inr l, b', w') \<Longrightarrow>
      0 < l \<Longrightarrow> RecvBatchRaw_len b' = l"
    and no_room: "RecvBatchRaw_capacity b = 0 \<Longrightarrow> try_recv k fd b w = Returns (Inr 0, b, w)"
begin

lemma received_bounded:
  assumes "rx_ok k" and "rb_inv n b" and "try_recv k fd b w = Returns (Inr l, b', w')"
  shows "l \<le> RecvBatchRaw_capacity b"
proof (cases "l = 0")
  case False
  with received [OF assms] have "RecvBatchRaw_len b' = l" by simp
  moreover from keeps_inv [OF assms] have "rb_len b' \<le> RecvBatchRaw_capacity b"
    by (simp add: rb_inv_def RecvBatchRaw_capacity_def)
  ultimately show ?thesis by (simp add: RecvBatchRaw_len_def)
qed simp

end

text \<open>
  A receive that takes the next datagrams off the queue, as many as fit, and hands them to
  the user in order. \<open>admits\<close>: the datagrams a platform takes into a slot of a given size; \<open>roomy\<close>:
  the slot sizes its calls can express.
\<close>

locale queue_backend = recv_backend try_recv rx_ok
  for try_recv :: "'w kernel \<Rightarrow> fd \<Rightarrow> RecvBatchRaw \<Rightarrow> 'w \<Rightarrow> (nat io_result \<times> RecvBatchRaw \<times> 'w) outcome"
    and rx_ok +
  fixes queue_ok :: "'w kernel \<Rightarrow> ('w \<Rightarrow> (bytes \<times> SocketAddr) list) \<Rightarrow> bool"
    and roomy :: "nat \<Rightarrow> bool"
    and admits :: "nat \<Rightarrow> bytes \<times> SocketAddr \<Rightarrow> bool"
  assumes delivers: "queue_ok k rxq \<Longrightarrow> rx_ok k \<Longrightarrow> rb_inv n b \<Longrightarrow>
      RecvBatchRaw_capacity b < 2 ^ 32 \<Longrightarrow> 0 < RecvBatchRaw_capacity b \<Longrightarrow> rxq w \<noteq> [] \<Longrightarrow>
      roomy n \<Longrightarrow> list_all (admits n) (take (RecvBatchRaw_capacity b) (rxq w)) \<Longrightarrow>
      \<exists>b' w'. try_recv k fd b w =
          Returns (Inr (min (RecvBatchRaw_capacity b) (length (rxq w))), b', w') \<and>
        rxq w' = drop (RecvBatchRaw_capacity b) (rxq w) \<and>
        rb_packets b' = map (cut_to n) (take (RecvBatchRaw_capacity b) (rxq w))"
    and starved: "queue_ok k rxq \<Longrightarrow> rb_inv n b \<Longrightarrow> RecvBatchRaw_capacity b < 2 ^ 32 \<Longrightarrow>
      0 < RecvBatchRaw_capacity b \<Longrightarrow> rxq w = [] \<Longrightarrow> roomy n \<Longrightarrow>
      \<exists>r b' w'. try_recv k fd b w = Returns (r, b', w') \<and> rxq w' = [] \<and>
        (r = Inr 0 \<or> (\<exists>e. r = Inl e \<and> kind (k_libc k) e = WouldBlock))"
begin

text \<open>Two receives in a row hand over consecutive parts of the queue: nothing is lost,
  repeated or reordered.\<close>

lemma delivers_twice:
  assumes "queue_ok k rxq" and "rx_ok k" and "rb_inv n b"
    and "RecvBatchRaw_capacity b < 2 ^ 32" and "0 < RecvBatchRaw_capacity b"
    and "RecvBatchRaw_capacity b < length (rxq w)"
    and "roomy n" and "list_all (admits n) (take (2 * RecvBatchRaw_capacity b) (rxq w))"
  shows "\<exists>b1 w1 b2 w2. try_recv k fd b w = Returns (Inr (RecvBatchRaw_capacity b), b1, w1) \<and>
      try_recv k fd b1 w1 = Returns (Inr (min (RecvBatchRaw_capacity b) (length (rxq w1))), b2, w2) \<and>
      rb_packets b1 @ rb_packets b2 = map (cut_to n) (take (2 * RecvBatchRaw_capacity b) (rxq w))"
proof -
  let ?c = "RecvBatchRaw_capacity b"
  have split: "take (2 * ?c) (rxq w) = take ?c (rxq w) @ take ?c (drop ?c (rxq w))"
    by (simp add: mult_2 take_add)
  with assms(8) have adm: "list_all (admits n) (take ?c (rxq w))"
    "list_all (admits n) (take ?c (drop ?c (rxq w)))" by simp_all
  have "rxq w \<noteq> []" using assms(6) by auto
  from delivers [OF assms(1-5) this assms(7) adm(1), of fd] assms(6) obtain b1 w1 where
    r1: "try_recv k fd b w = Returns (Inr ?c, b1, w1)" "rxq w1 = drop ?c (rxq w)"
      "rb_packets b1 = map (cut_to n) (take ?c (rxq w))"
    by (auto simp: min_def split: if_splits)
  from keeps_inv [OF assms(2,3) r1(1)]
  have inv: "rb_inv n b1" "RecvBatchRaw_capacity b1 = ?c" by simp_all
  have "rxq w1 \<noteq> []" using r1(2) assms(6) by simp
  from delivers [OF assms(1,2) inv(1) _ _ this, of fd] inv(2) assms(4,5,7) adm(2) r1(2) obtain b2 w2 where
    r2: "try_recv k fd b1 w1 = Returns (Inr (min ?c (length (rxq w1))), b2, w2)"
      "rb_packets b2 = map (cut_to n) (take ?c (rxq w1))"
    by auto
  with r1 split show ?thesis by auto
qed

end

section \<open>A concrete kernel\<close>

text \<open>
  A socket with a queue of arrived datagrams and a log of sent ones. It accepts \<open>w_budget\<close>
  more datagrams and then refuses with \<open>w_refusal\<close>; waiting for writability grants
  \<open>w_refill\<close> new ones. \<open>w_mmsg\<close>: the kernel has \<^verbatim>\<open>sendmmsg\<close>.
\<close>

record world =
  w_errno :: int
  w_queue :: "(bytes \<times> SocketAddr) list"
  w_sent :: "tx_msg list"
  w_budget :: nat
  w_refusal :: int
  w_refill :: nat
  w_peer :: bool
  w_mmsg :: bool
  w_clock :: nat

definition arrived :: "world \<Rightarrow> (bytes \<times> SocketAddr) list" where
  "arrived w = filter (\<lambda>p. length (fst p) < 65536 \<and> wf_addr (snd p)) (w_queue w)"

definition refuse :: "int \<Rightarrow> world \<Rightarrow> int \<times> world" where
  "refuse e w = (- 1, w\<lparr>w_errno := e\<rparr>)"

definition accept :: "tx_msg list \<Rightarrow> world \<Rightarrow> world" where
  "accept ts w = w\<lparr>w_sent := w_sent w @ ts, w_budget := w_budget w - length ts\<rparr>"

definition fill :: "libc \<Rightarrow> bytes \<times> SocketAddr \<Rightarrow> rx_msg \<Rightarrow> rx_msg" where
  "fill c p r =
     (let (st, l) = encode_sockaddr c (snd p) (rx_name r)
      in r\<lparr>rx_buf := deposit (rx_buf r) (fst p), rx_name := st, rx_namelen := l,
           rx_len := of_nat (min (length (fst p)) (length (rx_buf r)))\<rparr>)"

definition loopback_sendmmsg :: "libc \<Rightarrow> tx_msg list \<Rightarrow> u32 \<Rightarrow> world \<Rightarrow> int \<times> world" where
  "loopback_sendmmsg c msgs vlen w =
     (let n = min (w_budget w) (min (length msgs) (unat vlen)) in
      if \<not> w_mmsg w then refuse (ENOSYS c) w
      else if n = 0 then refuse (w_refusal w) w
      else (int n, accept (take n msgs) w))"

definition loopback_send :: "tx_msg \<Rightarrow> world \<Rightarrow> int \<times> world" where
  "loopback_send t w =
     (if w_budget w = 0 then refuse (w_refusal w) w else (int (length (tx_data t)), accept [t] w))"

definition loopback_recvfrom ::
    "libc \<Rightarrow> bytes \<Rightarrow> bytes \<Rightarrow> u32 \<Rightarrow> world \<Rightarrow> int \<times> bytes \<times> bytes \<times> u32 \<times> world" where
  "loopback_recvfrom c buf st l w =
     (case arrived w of
        [] \<Rightarrow> (- 1, buf, st, l, w\<lparr>w_errno := EAGAIN c\<rparr>)
      | p # q \<Rightarrow> (let (st', l') = encode_sockaddr c (snd p) st
                 in (int (min (length (fst p)) (length buf)), deposit buf (fst p), st', l', w\<lparr>w_queue := q\<rparr>)))"

definition loopback_recvmmsg ::
    "libc \<Rightarrow> rx_msg list \<Rightarrow> u32 \<Rightarrow> world \<Rightarrow> int \<times> rx_msg list \<times> world" where
  "loopback_recvmmsg c ms vlen w =
     (let q = arrived w; n = min (min (unat vlen) (length ms)) (length q) in
      if q = [] then (- 1, ms, w\<lparr>w_errno := EAGAIN c\<rparr>)
      else (int n, map2 (fill c) (take n q) (take n ms) @ drop n ms, w\<lparr>w_queue := drop n q\<rparr>))"

definition loopback :: "libc \<Rightarrow> world kernel" where
  "loopback c =
     \<lparr>k_libc = c, k_errno = w_errno,
      k_sendmmsg = (\<lambda>_ msgs vlen w. loopback_sendmmsg c msgs vlen w),
      k_recvmmsg = (\<lambda>_ ms vlen w. loopback_recvmmsg c ms vlen w),
      k_sendmsg_gso = (\<lambda>_ _ data w. loopback_send \<lparr>tx_name = None, tx_data = data\<rparr> w),
      k_sendto = (\<lambda>_ data st l w. loopback_send \<lparr>tx_name = Some (st, l), tx_data = data\<rparr> w),
      k_send = (\<lambda>_ data w. loopback_send \<lparr>tx_name = None, tx_data = data\<rparr> w),
      k_recvfrom = (\<lambda>_ buf st l w. loopback_recvfrom c buf st l w),
      k_getpeername = (\<lambda>_ st l w. (if w_peer w then 0 else - 1, st, l, w)),
      k_getsockname = (\<lambda>_ st l w. (0, st, l, w)),
      k_connect = (\<lambda>_ _ _ w. (0, w\<lparr>w_peer := True\<rparr>)),
      k_setsockopt = (\<lambda>_ _ _ _ _ w. (0, w)),
      k_getsockopt = (\<lambda>_ _ _ v _ w. (0, v, w)),
      k_set_nonblocking = (\<lambda>_ w. (Inr (), w)),
      k_register = (\<lambda>_ w. (Inr (), w)),
      k_now = (\<lambda>w. (w_clock w, w)),
      k_writable = (\<lambda>_ w. (Inr (), w\<lparr>w_budget := w_refill w\<rparr>)),
      k_readable = (\<lambda>_ w. (Inr (), w)),
      k_close = (\<lambda>_ w. w)\<rparr>"

lemma loopback_sel:
  "k_libc (loopback c) = c" "k_errno (loopback c) = w_errno"
  "k_recvfrom (loopback c) fd buf st l w = loopback_recvfrom c buf st l w"
  "k_recvmmsg (loopback c) fd ms vlen w = loopback_recvmmsg c ms vlen w"
  by (simp_all add: loopback_def)

text \<open>An idle socket that accepts everything.\<close>

definition idle :: world where
  "idle = \<lparr>w_errno = 0, w_queue = [], w_sent = [], w_budget = 1000, w_refusal = 11, w_refill = 1000,
           w_peer = False, w_mmsg = True, w_clock = 0\<rparr>"

lemma arrived_drop: "arrived (w\<lparr>w_queue := drop n (arrived w)\<rparr>) = drop n (arrived w)"
  by (auto simp: arrived_def dest: in_set_dropD intro!: filter_True)

lemma arrived_tl: "arrived w = p # q \<Longrightarrow> arrived (w\<lparr>w_queue := q\<rparr>) = q"
  using arrived_drop [of 1 w] by simp

lemma loopback_sendmmsg_log:
  "loopback_sendmmsg c msgs vlen w = (n, w') \<Longrightarrow>
     n \<le> uint vlen \<and> w_sent w' = w_sent w @ take (nat n) msgs"
  by (auto simp: loopback_sendmmsg_def refuse_def accept_def Let_def intro!: int_le_uint
      split: if_splits)

lemma loopback_count: "count_contract (loopback c)"
  by (auto simp: count_contract_def loopback_def dest: loopback_sendmmsg_log)

lemma loopback_log: "log_contract (loopback c) w_sent"
  unfolding log_contract_def
  by (auto simp: loopback_def loopback_send_def refuse_def accept_def dest: loopback_sendmmsg_log
      split: if_splits)

lemma loopback_recvmmsg_msgs:
  assumes "loopback_recvmmsg c ms vlen w = (n, ms', w')" and "arrived w \<noteq> []"
  shows "n = int (min (min (unat vlen) (length ms)) (length (arrived w)))"
    and "arrived w' = drop (nat n) (arrived w)" and "length ms' = length ms"
    and "i < nat n \<Longrightarrow> ms' ! i = fill c (arrived w ! i) (ms ! i)"
    and "nat n \<le> i \<Longrightarrow> i < length ms \<Longrightarrow> ms' ! i = ms ! i"
  using assms by (auto simp: loopback_recvmmsg_def Let_def arrived_drop nth_append)

lemma filled_fill: "filled c p r (fill c p r)"
  by (simp add: filled_def fill_def split: prod.splits)

lemma loopback_queue:
  assumes "libc_ok c" and "errno_ok c"
  shows "queue_contract (loopback c) arrived"
proof -
  have "length (fst p) < 65536 \<and> wf_addr (snd p)" if "p \<in> set (arrived w)" for p w
    using that by (simp add: arrived_def)
  moreover have "case arrived w of
       [] \<Rightarrow> n < 0 \<and> w_errno w' = EAGAIN c \<and> arrived w' = [] \<and> buf' = buf
     | p # q \<Rightarrow> n = int (min (length (fst p)) (length buf)) \<and> buf' = deposit buf (fst p) \<and>
         encode_sockaddr c (snd p) st = (st', l') \<and> arrived w' = q"
    if "loopback_recvfrom c buf st l w = (n, buf', st', l', w')" for buf st l w n buf' st' l' w'
    using that
    by (auto simp: loopback_recvfrom_def arrived_tl split: list.splits prod.splits)
       (simp_all add: arrived_def)
  moreover have "length ms' = length ms \<and>
     (if arrived w = [] then n < 0 \<and> w_errno w' = EAGAIN c \<and> arrived w' = [] \<and> ms' = ms
      else n = int (min (unat vlen) (length (arrived w))) \<and> arrived w' = drop (nat n) (arrived w) \<and>
        (\<forall>i < nat n. filled c (arrived w ! i) (ms ! i) (ms' ! i)) \<and>
        (\<forall>i < length ms. nat n \<le> i \<longrightarrow> ms' ! i = ms ! i))"
    if r: "loopback_recvmmsg c ms vlen w = (n, ms', w')" and "unat vlen \<le> length ms"
    for ms vlen w n ms' w'
  proof (cases "arrived w = []")
    case True
    with r show ?thesis by (auto simp: loopback_recvmmsg_def) (simp add: arrived_def)
  next
    case False
    from loopback_recvmmsg_msgs [OF r False] that(2) False show ?thesis
      by (simp add: filled_fill min_absorb1)
  qed
  ultimately show ?thesis
    using assms unfolding queue_contract_def loopback_sel by blast
qed

lemma loopback_recv: "recv_contract (loopback c)"
proof -
  have "n \<le> uint vlen \<and> length ms' = length ms \<and>
      (\<forall>i < length ms. length (rx_buf (ms' ! i)) = length (rx_buf (ms ! i))) \<and>
      (\<forall>i < nat n. unat (rx_len (ms' ! i)) \<le> length (rx_buf (ms' ! i)))"
    if r: "loopback_recvmmsg c ms vlen w = (n, ms', w')" for ms vlen w n ms' w'
  proof (cases "arrived w = []")
    case True
    with r show ?thesis by (auto simp: loopback_recvmmsg_def)
  next
    case False
    note m = loopback_recvmmsg_msgs [OF r False]
    have f: "length (rx_buf (fill c p x)) = length (rx_buf x)"
      "unat (rx_len (fill c p x)) \<le> length (rx_buf (fill c p x))" for p x
      by (simp_all add: fill_def unat_of_nat_le split: prod.splits)
    have "length (rx_buf (ms' ! i)) = length (rx_buf (ms ! i))" if "i < length ms" for i
      by (cases "i < nat n") (use that m(4,5) f in auto)
    moreover have "n \<le> uint vlen" unfolding m(1) by (rule int_le_uint) simp
    ultimately show ?thesis using m(3,4) f(2) by simp
  qed
  then show ?thesis
    unfolding recv_contract_def loopback_sel
    by (auto simp: loopback_recvfrom_def split: list.splits prod.splits)
qed

end
