(* ===== verification/Slots.thy ===== *)
theory Slots
  imports Delivery
begin

text \<open>
  Receiving one datagram per slot, the loop that \<^verbatim>\<open>fallback.rs\<close>, the end of \<^verbatim>\<open>macos.rs\<close> and
  \<^verbatim>\<open>windows.rs\<close> have in common. The locale \<open>slot_source\<close> states what a single receive
  promises; from it follows, once for all of them, that the loop is a \<open>queue_backend\<close>.
\<close>

section \<open>The loop\<close>

text \<open>\<open>recv1\<close>: one receive into a buffer. It may write to the buffer whatever it returns.\<close>

fun recv_slots ::
    "libc \<Rightarrow> (bytes \<Rightarrow> 'w \<Rightarrow> (nat \<times> SocketAddr) io_result \<times> bytes \<times> 'w) \<Rightarrow> nat list \<Rightarrow> nat
       \<Rightarrow> RecvBatchRaw \<Rightarrow> 'w \<Rightarrow> (nat io_result \<times> RecvBatchRaw \<times> 'w) outcome" where
  "recv_slots c recv1 [] received b w = Returns (Inr received, b, w)"
| "recv_slots c recv1 (i # is) received b w =
     outcome_bind (RecvBatchRaw_buffer_mut b i) (\<lambda>(buf, _).
       let (result, buf', w') = recv1 buf w in
       outcome_bind (write_buffer b i buf') (\<lambda>b0.
         case result of
           Inr (n, addr) \<Rightarrow>
             outcome_bind (RecvBatchRaw_set_recv_len b0 i n) (\<lambda>b1.
               outcome_bind (write_addr b1 i addr) (\<lambda>b2.
                 recv_slots c recv1 is (received + 1) (RecvBatchRaw_set_len b2 (i + 1)) w'))
         | Inl e \<Rightarrow> if kind c e = WouldBlock then Returns (Inr received, b0, w')
                   else Returns (Inl e, b0, w')))"

text \<open>Slot \<open>i\<close> after one successful receive into it.\<close>

definition recv_into :: "RecvBatchRaw \<Rightarrow> nat \<Rightarrow> bytes \<Rightarrow> nat \<Rightarrow> SocketAddr \<Rightarrow> RecvBatchRaw" where
  "recv_into b i buf n a =
     b\<lparr>rb_slots := (rb_slots b)[i := (rb_slots b ! i)\<lparr>rs_buf := buf, rs_recv_len := of_nat n, rs_addr := a\<rparr>],
       rb_len := i + 1\<rparr>"

lemma recv_slots_step:
  assumes "i < length (rb_slots b)" and "recv1 (rs_buf (rb_slots b ! i)) w = (r, buf', w')"
  shows "recv_slots c recv1 (i # is) received b w =
     (case r of
        Inr (n, a) \<Rightarrow> recv_slots c recv1 is (received + 1) (recv_into b i buf' n a) w'
      | Inl e \<Rightarrow> Returns (if kind c e = WouldBlock then Inr received else Inl e,
          b\<lparr>rb_slots := (rb_slots b)[i := (rb_slots b ! i)\<lparr>rs_buf := buf'\<rparr>]\<rparr>, w'))"
  using assms
  by (simp add: slot_ops slot_reads on_slot_in_range recv_into_def RecvBatchRaw_set_len_def
      split: sum.splits)

lemma recv_into_inv:
  assumes "rb_inv n b" and "i < length (rb_slots b)" and "length buf = n" and "l \<le> n"
  shows "rb_inv n (recv_into b i buf l a)"
  using assms
  by (auto simp: rb_inv_def recv_into_def list_all_length nth_list_update unat_of_nat_le)

lemma slot_packet_recv_into:
  assumes "length (rs_buf s) = n" and "length (fst p) < 65536"
  shows "slot_packet (s\<lparr>rs_buf := deposit (rs_buf s) (fst p),
     rs_recv_len := of_nat (min (length (fst p)) n), rs_addr := snd p\<rparr>) = cut_to n p"
proof -
  have "min (length (fst p)) n mod 65536 = min (length (fst p)) n"
    using assms(2) by (simp add: min_def)
  with assms(1) show ?thesis
    by (simp add: slot_packet_def cut_to_def unat_of_nat_u16)
qed

section \<open>What a single receive promises\<close>

locale slot_source =
  fixes recv1 :: "'w kernel \<Rightarrow> fd \<Rightarrow> bytes \<Rightarrow> 'w \<Rightarrow> (nat \<times> SocketAddr) io_result \<times> bytes \<times> 'w"
    and rx_ok :: "'w kernel \<Rightarrow> bool"
    and queue_ok :: "'w kernel \<Rightarrow> ('w \<Rightarrow> (bytes \<times> SocketAddr) list) \<Rightarrow> bool"
    and roomy :: "nat \<Rightarrow> bool"
    and admits :: "nat \<Rightarrow> bytes \<times> SocketAddr \<Rightarrow> bool"
  assumes bounds: "rx_ok k \<Longrightarrow> recv1 k fd buf w = (r, buf', w') \<Longrightarrow>
      length buf' = length buf \<and> (\<forall>n a. r = Inr (n, a) \<longrightarrow> n \<le> length buf)"
    and head: "queue_ok k rxq \<Longrightarrow> recv1 k fd buf w = (r, buf', w') \<Longrightarrow> rxq w = p # q \<Longrightarrow>
      roomy (length buf) \<Longrightarrow> admits (length buf) p \<Longrightarrow>
      r = Inr (min (length (fst p)) (length buf), snd p) \<and> buf' = deposit buf (fst p) \<and> rxq w' = q"
    and dry: "queue_ok k rxq \<Longrightarrow> recv1 k fd buf w = (r, buf', w') \<Longrightarrow> rxq w = [] \<Longrightarrow> roomy (length buf) \<Longrightarrow>
      \<exists>e. r = Inl e \<and> kind (k_libc k) e = WouldBlock \<and> rxq w' = []"
    and udp_size: "queue_ok k rxq \<Longrightarrow> p \<in> set (rxq w) \<Longrightarrow> length (fst p) < 65536"
begin

lemma recv_slots_inv:
  assumes "rx_ok k" and "rb_inv n b" and "is = [i ..< length (rb_slots b)]"
    and "i \<le> length (rb_slots b)"
  shows "\<exists>r b' w'. recv_slots (k_libc k) (recv1 k fd) is i b w = Returns (r, b', w') \<and> rb_inv n b' \<and>
     length (rb_slots b') = length (rb_slots b) \<and>
     (\<forall>l. r = Inr l \<longrightarrow> i \<le> l \<and> rb_len b' = (if l = i then rb_len b else l))"
  using assms(2-)
proof (induction "is" arbitrary: i b w)
  case Nil
  then show ?case by simp
next
  case (Cons j js)
  have j: "j = i" "i < length (rb_slots b)" and js: "js = [Suc i ..< length (rb_slots b)]"
    using Cons.prems(2) [symmetric] by (auto simp: upt_eq_Cons_conv)
  obtain r buf' w1 where r: "recv1 k fd (rs_buf (rb_slots b ! i)) w = (r, buf', w1)"
    by (metis surj_pair)
  have len: "length (rs_buf (rb_slots b ! i)) = n"
    using Cons.prems(1) j by (simp add: rb_inv_def list_all_length)
  note bd = bounds [OF assms(1) r, unfolded len]
  show ?case
  proof (cases r)
    case (Inl e)
    with Cons.prems(1) bd j show ?thesis
      by (auto simp: recv_slots_step [of i b "recv1 k fd", OF j(2) r] rb_inv_def list_all_length nth_list_update
          simp del: recv_slots.simps)
  next
    case (Inr x)
    obtain l a where x: "x = (l, a)" by (cases x)
    let ?b = "recv_into b i buf' l a"
    have inv: "rb_inv n ?b" and sz: "length (rb_slots ?b) = length (rb_slots b)"
      using recv_into_inv [OF Cons.prems(1) j(2)] bd Inr x
      by (simp_all add: recv_into_def)
    have "js = [Suc i ..< length (rb_slots ?b)]" "Suc i \<le> length (rb_slots ?b)"
      using js j(2) sz by simp_all
    from Cons.IH [OF inv this, of w1] obtain r' b' w' where ih:
      "recv_slots (k_libc k) (recv1 k fd) js (Suc i) ?b w1 = Returns (r', b', w')" "rb_inv n b'"
      "length (rb_slots b') = length (rb_slots b)"
      "\<forall>l. r' = Inr l \<longrightarrow> Suc i \<le> l \<and> rb_len b' = (if l = Suc i then rb_len ?b else l)"
      using sz by auto
    moreover have "rb_len ?b = Suc i" by (simp add: recv_into_def)
    ultimately show ?thesis
      using j Inr x by (auto simp: recv_slots_step [of i b "recv1 k fd", OF j(2) r] simp del: recv_slots.simps)
  qed
qed

text \<open>Slot after slot takes the next datagram of the queue, as long as the datagrams fit.\<close>

lemma recv_slots_prefix:
  assumes "queue_ok k rxq" and "roomy n" and "rb_inv n b" and "i + length ps \<le> length (rb_slots b)"
    and "rxq w = ps @ q" and "list_all (admits n) ps"
  shows "\<exists>b1 w1. recv_slots (k_libc k) (recv1 k fd) [i ..< length (rb_slots b)] i b w =
       recv_slots (k_libc k) (recv1 k fd) [i + length ps ..< length (rb_slots b)] (i + length ps) b1 w1 \<and>
     rb_inv n b1 \<and> length (rb_slots b1) = length (rb_slots b) \<and> rxq w1 = q \<and>
     map slot_packet (take (i + length ps) (rb_slots b1)) = map slot_packet (take i (rb_slots b)) @ map (cut_to n) ps \<and>
     rb_len b1 = (if ps = [] then rb_len b else i + length ps)"
  using assms(3-)
proof (induction ps arbitrary: i b w)
  case Nil
  then show ?case by (intro exI [of _ b] exI [of _ w]) simp
next
  case (Cons p ps)
  have i: "i < length (rb_slots b)" using Cons.prems(2) by simp
  let ?s = "rb_slots b ! i"
  obtain r buf' w1 where r: "recv1 k fd (rs_buf ?s) w = (r, buf', w1)" by (metis surj_pair)
  have len: "length (rs_buf ?s) = n"
    using Cons.prems(1) i by (simp add: rb_inv_def list_all_length)
  have p: "rxq w = p # (ps @ q)" "admits n p" using Cons.prems(3,4) by simp_all
  from head [OF assms(1) r p(1), unfolded len, OF assms(2) p(2)]
  have r': "r = Inr (min (length (fst p)) n, snd p)" "buf' = deposit (rs_buf ?s) (fst p)" "rxq w1 = ps @ q" by simp_all
  let ?b = "recv_into b i buf' (min (length (fst p)) n) (snd p)"
  have inv: "rb_inv n ?b" using recv_into_inv [OF Cons.prems(1) i] r' len by simp
  have sz: "length (rb_slots ?b) = length (rb_slots b)" and l1: "rb_len ?b = Suc i"
    by (simp_all add: recv_into_def)
  have "slot_packet (rb_slots ?b ! i) = cut_to n p"
    using slot_packet_recv_into [OF len] udp_size [OF assms(1), of p w] p(1) i r' by (simp add: recv_into_def)
  moreover have "take (Suc i) (rb_slots ?b) = take i (rb_slots b) @ [rb_slots ?b ! i]"
    using i by (simp add: recv_into_def take_Suc_conv_app_nth)
  ultimately have pk: "map slot_packet (take (Suc i) (rb_slots ?b)) =
      map slot_packet (take i (rb_slots b)) @ [cut_to n p]" by simp
  have one: "recv_slots (k_libc k) (recv1 k fd) [i ..< length (rb_slots b)] i b w =
      recv_slots (k_libc k) (recv1 k fd) [Suc i ..< length (rb_slots b)] (Suc i) ?b w1"
    using recv_slots_step [of i b "recv1 k fd", OF i r] r'(1) by (simp add: upt_conv_Cons [OF i] del: recv_slots.simps)
  from Cons.IH [OF inv _ r'(3), of "Suc i"] Cons.prems(2,4) sz obtain b1 w2 where
    ih: "recv_slots (k_libc k) (recv1 k fd) [Suc i ..< length (rb_slots b)] (Suc i) ?b w1 =
         recv_slots (k_libc k) (recv1 k fd) [Suc i + length ps ..< length (rb_slots b)] (Suc i + length ps) b1 w2"
      "rb_inv n b1" "length (rb_slots b1) = length (rb_slots b)" "rxq w2 = q"
      "map slot_packet (take (Suc i + length ps) (rb_slots b1)) =
         map slot_packet (take (Suc i) (rb_slots ?b)) @ map (cut_to n) ps"
      "rb_len b1 = (if ps = [] then rb_len ?b else Suc i + length ps)"
    by auto
  with one pk l1 show ?case by (intro exI [of _ b1] exI [of _ w2]) simp
qed

lemma recv_slots_queue:
  assumes "queue_ok k rxq" and "rb_inv n b" and "list_all (admits n) (take (length (rb_slots b)) (rxq w))" and "roomy n"
  shows "\<exists>b' w'. recv_slots (k_libc k) (recv1 k fd) [0 ..< length (rb_slots b)] 0 b w =
       Returns (Inr (min (length (rb_slots b)) (length (rxq w))), b', w') \<and>
     rxq w' = drop (length (rb_slots b)) (rxq w) \<and>
     map slot_packet (take (min (length (rb_slots b)) (length (rxq w))) (rb_slots b')) =
       map (cut_to n) (take (length (rb_slots b)) (rxq w)) \<and>
     rb_len b' = (if rb_slots b = [] \<or> rxq w = [] then rb_len b else min (length (rb_slots b)) (length (rxq w)))"
proof -
  let ?cap = "length (rb_slots b)" and ?loop = "recv_slots (k_libc k) (recv1 k fd)"
  let ?ps = "take ?cap (rxq w)" and ?q = "drop ?cap (rxq w)"
  from recv_slots_prefix [OF assms(1,4,2), of 0 ?ps w ?q fd] assms(3) obtain b1 w1 where
    l: "?loop [0 ..< ?cap] 0 b w = ?loop [length ?ps ..< ?cap] (length ?ps) b1 w1" and b1: "rb_inv n b1"
      "length (rb_slots b1) = ?cap" "rxq w1 = ?q"
      "map slot_packet (take (length ?ps) (rb_slots b1)) = map (cut_to n) ?ps"
      "rb_len b1 = (if ?ps = [] then rb_len b else length ?ps)"
    by auto
  show ?thesis
  proof (cases "?cap \<le> length (rxq w)")
    case True
    with l b1 show ?thesis by (auto simp: min_absorb1)
  next
    case False
    then have i: "length (rxq w) < length (rb_slots b1)" and q: "rxq w1 = []" using b1(2,3) by simp_all
    obtain r buf' w2 where r: "recv1 k fd (rs_buf (rb_slots b1 ! length (rxq w))) w1 = (r, buf', w2)" by (metis surj_pair)
    have "length (rs_buf (rb_slots b1 ! length (rxq w))) = n"
      using b1(1) i by (simp add: rb_inv_def list_all_length)
    with dry [OF assms(1) r q] assms(4) obtain e where e: "r = Inl e" "kind (k_libc k) e = WouldBlock" "rxq w2 = []" by auto
    have u: "[length (rxq w) ..< ?cap] = length (rxq w) # [Suc (length (rxq w)) ..< ?cap]"
      using i b1(2) by (simp add: upt_conv_Cons)
    have "?loop [0 ..< ?cap] 0 b w = Returns (Inr (length (rxq w)), b1\<lparr>rb_slots := (rb_slots b1)
        [length (rxq w) := (rb_slots b1 ! length (rxq w))\<lparr>rs_buf := buf'\<rparr>]\<rparr>, w2)"
      using l False e u recv_slots_step [of _ b1 "recv1 k fd", OF i r]
      by (simp add: min_absorb2 del: recv_slots.simps)
    with False b1(4,5) e(3) show ?thesis by (auto simp: min_absorb2)
  qed
qed

end

sublocale slot_source \<subseteq> slots: queue_backend
  "\<lambda>k fd b. recv_slots (k_libc k) (recv1 k fd) [0 ..< RecvBatchRaw_capacity b] 0 b" rx_ok queue_ok roomy admits
proof unfold_locales
  fix k n b fd w r b' w'
  assume "rx_ok k" and "rb_inv n b"
    and "recv_slots (k_libc k) (recv1 k fd) [0 ..< RecvBatchRaw_capacity b] 0 b w = Returns (r, b', w')"
  with recv_slots_inv [of k n b _ 0 fd w]
  show "rb_inv n b' \<and> RecvBatchRaw_capacity b' = RecvBatchRaw_capacity b"
    by (auto simp: RecvBatchRaw_capacity_def)
next
  fix k n b fd w l b' w'
  assume "rx_ok k" and "rb_inv n b" and "0 < l"
    and "recv_slots (k_libc k) (recv1 k fd) [0 ..< RecvBatchRaw_capacity b] 0 b w = Returns (Inr l, b', w')"
  with recv_slots_inv [of k n b _ 0 fd w] show "RecvBatchRaw_len b' = l"
    by (auto simp: RecvBatchRaw_capacity_def RecvBatchRaw_len_def)
next
  fix k b fd w
  show "RecvBatchRaw_capacity b = 0 \<Longrightarrow>
      recv_slots (k_libc k) (recv1 k fd) [0 ..< RecvBatchRaw_capacity b] 0 b w = Returns (Inr 0, b, w)"
    by simp
next
  fix k rxq n b fd w
  assume "queue_ok k rxq" and "rb_inv n b" and "0 < RecvBatchRaw_capacity b" and "rxq w \<noteq> []"
    and "roomy n" and "list_all (admits n) (take (RecvBatchRaw_capacity b) (rxq w))"
  with recv_slots_queue [of k rxq n b w fd]
  show "\<exists>b' w'. recv_slots (k_libc k) (recv1 k fd) [0 ..< RecvBatchRaw_capacity b] 0 b w =
          Returns (Inr (min (RecvBatchRaw_capacity b) (length (rxq w))), b', w') \<and>
        rxq w' = drop (RecvBatchRaw_capacity b) (rxq w) \<and>
        rb_packets b' = map (cut_to n) (take (RecvBatchRaw_capacity b) (rxq w))"
    by (auto simp: RecvBatchRaw_capacity_def rb_packets_def)
next
  fix k rxq n b fd w
  assume "queue_ok k rxq" and "rb_inv n b" and "0 < RecvBatchRaw_capacity b" and "rxq w = []" and "roomy n"
  with recv_slots_queue [of k rxq n b w fd]
  show "\<exists>r b' w'. recv_slots (k_libc k) (recv1 k fd) [0 ..< RecvBatchRaw_capacity b] 0 b w = Returns (r, b', w') \<and>
        rxq w' = [] \<and> (r = Inr 0 \<or> (\<exists>e. r = Inl e \<and> kind (k_libc k) e = WouldBlock))"
    by (auto simp: RecvBatchRaw_capacity_def)
qed

end
