(* ===== verification/Fallback.thy ===== *)
theory Fallback
  imports Slots
begin

text \<open>
  \<^verbatim>\<open>platform/fallback.rs\<close>: the portable backend, one \<^verbatim>\<open>send\<close>, \<^verbatim>\<open>sendto\<close> or \<^verbatim>\<open>recvfrom\<close> per
  packet.
\<close>

section \<open>The backend\<close>

fun send_loop ::
    "'w kernel \<Rightarrow> fd \<Rightarrow> memory \<Rightarrow> SendBatchRaw \<Rightarrow> bool \<Rightarrow> nat list \<Rightarrow> nat \<Rightarrow> 'w
       \<Rightarrow> (nat io_result \<times> 'w) outcome" where
  "send_loop k fd m b is_conn [] sent w = Returns (Inr sent, w)"
| "send_loop k fd m b is_conn (i # is) sent w =
     outcome_bind (SendBatchRaw_entry m b i) (\<lambda>(data, addr).
       let (result, w') =
             (case (is_conn, addr) of
                (True, _) \<Rightarrow> raw_send k fd (payload m data) w
              | (_, None) \<Rightarrow> raw_send k fd (payload m data) w
              | (_, Some a) \<Rightarrow> raw_sendto k fd (payload m data) a w)
       in case result of
            Inr _ \<Rightarrow> send_loop k fd m b is_conn is (sent + 1) w'
          | Inl e \<Rightarrow> if kind (k_libc k) e = WouldBlock then Returns (Inr sent, w')
                    else Returns (Inl e, w'))"

definition fallback_try_send_batch ::
    "'w kernel \<Rightarrow> fd \<Rightarrow> memory \<Rightarrow> SendBatchRaw \<Rightarrow> 'w \<Rightarrow> (nat io_result \<times> 'w) outcome" where
  "fallback_try_send_batch k fd m b w =
     (let len = SendBatchRaw_len b in
      if len = 0 then Returns (Inr 0, w)
      else let (is_conn, w1) = is_connected k fd w
        in send_loop k fd m b is_conn [0 ..< len] 0 w1)"

text \<open>\<^verbatim>\<open>raw_recvfrom\<close> writes through the slot's buffer, whatever it returns.\<close>

fun recv_loop ::
    "'w kernel \<Rightarrow> fd \<Rightarrow> nat list \<Rightarrow> nat \<Rightarrow> RecvBatchRaw \<Rightarrow> 'w
       \<Rightarrow> (nat io_result \<times> RecvBatchRaw \<times> 'w) outcome" where
  "recv_loop k fd [] received b w = Returns (Inr received, b, w)"
| "recv_loop k fd (i # is) received b w =
     outcome_bind (RecvBatchRaw_buffer_mut b i) (\<lambda>(buf, _).
       let (result, buf', w') = raw_recvfrom k fd buf w in
       outcome_bind (write_buffer b i buf') (\<lambda>b0.
         case result of
           Inr (n, addr) \<Rightarrow>
             outcome_bind (RecvBatchRaw_set_recv_len b0 i n) (\<lambda>b1.
               outcome_bind (write_addr b1 i addr) (\<lambda>b2.
                 recv_loop k fd is (received + 1) (RecvBatchRaw_set_len b2 (i + 1)) w'))
         | Inl e \<Rightarrow> if kind (k_libc k) e = WouldBlock then Returns (Inr received, b0, w')
                   else Returns (Inl e, b0, w')))"

definition fallback_try_recv_batch ::
    "'w kernel \<Rightarrow> fd \<Rightarrow> RecvBatchRaw \<Rightarrow> 'w \<Rightarrow> (nat io_result \<times> RecvBatchRaw \<times> 'w) outcome" where
  "fallback_try_recv_batch k fd b w = recv_loop k fd [0 ..< RecvBatchRaw_capacity b] 0 b w"

section \<open>The send loop\<close>

text \<open>One packet of the loop against the log: a success appends its datagram.\<close>

lemma send_one_log:
  assumes "log_contract k txlog"
    and "(case (is_conn, addr) of (True, _) \<Rightarrow> raw_send k fd bs w
          | (_, None) \<Rightarrow> raw_send k fd bs w | (_, Some a) \<Rightarrow> raw_sendto k fd bs a w) = (r, w')"
  shows "txlog w' = txlog w @ (case r of Inl _ \<Rightarrow> [] | Inr _ \<Rightarrow>
     [strip_name is_conn \<lparr>tx_name = map_option (\<lambda>a. encode_sockaddr (k_libc k) a
        (zeroed_storage (k_libc k))) addr, tx_data = bs\<rparr>])"
  using assms(2)
  by (auto simp: raw_send_def raw_sendto_def strip_name_def split: bool.splits option.splits prod.splits
      if_splits dest: log_contract_send [OF assms(1)] log_contract_sendto [OF assms(1)])

text \<open>
  The loop never panics on a readable batch. It sends the datagrams in order and stops at
  the first refusal: a refusal that is not \<^verbatim>\<open>WouldBlock\<close> is the result, and then the
  number of packets already sent is not reported.
\<close>

lemma send_loop_log:
  assumes "log_contract k txlog" and "sb_inv b" and "sb_readable m b"
    and "i + length is = sb_len b" and "is = [i ..< sb_len b]"
  shows "\<exists>r w' n. send_loop k fd m b is_conn is sent w = Returns (r, w') \<and> n \<le> length is \<and>
     txlog w' = txlog w @ take n (drop i (map (strip_name is_conn) (datagrams (k_libc k) m b))) \<and>
     (r = Inr (sent + n) \<or> (\<exists>e. r = Inl e \<and> kind (k_libc k) e \<noteq> WouldBlock \<and> n < length is))"
  using assms(4,5)
proof (induction "is" arbitrary: i sent w)
  case Nil
  then show ?case by simp
next
  case (Cons j js)
  let ?c = "k_libc k"
  let ?ds = "map (strip_name is_conn) (datagrams ?c m b)"
  have j: "j = i" "i < sb_len b" and js: "js = [Suc i ..< sb_len b]"
    using Cons.prems(2) [symmetric] by (auto simp: upt_eq_Cons_conv)
  obtain d a where e: "sb_entries b ! i = (d, a)" by (cases "sb_entries b ! i")
  note entry = entry_readable [OF assms(2,3) j(2), unfolded e]
  obtain r w1 where step: "(case (is_conn, a) of (True, _) \<Rightarrow> raw_send k fd (payload m d) w
      | (_, None) \<Rightarrow> raw_send k fd (payload m d) w
      | (_, Some a') \<Rightarrow> raw_sendto k fd (payload m d) a' w) = (r, w1)"
    by (metis surj_pair)
  have "i < length ?ds"
    using j(2) assms(2) by (simp add: length_datagrams)
  then have drop: "drop i ?ds = ?ds ! i # drop (Suc i) ?ds"
    by (rule Cons_nth_drop_Suc [symmetric])
  have nth: "?ds ! i = strip_name is_conn \<lparr>tx_name = map_option (\<lambda>a. encode_sockaddr ?c a
      (zeroed_storage ?c)) a, tx_data = payload m d\<rparr>"
    using j(2) assms(2) e by (simp add: datagrams_def datagram_def length_sb_entries)
  note log1 = send_one_log [OF assms(1) step]
  show ?case
  proof (cases r)
    case (Inl err)
    with entry step j log1 show ?thesis
      by (auto intro!: exI [of _ "0 :: nat"])
  next
    case (Inr x)
    have "Suc i + length js = sb_len b" using j js by simp
    from Cons.IH [OF this js, of "Suc sent" w1] obtain r' w' n where ih:
      "send_loop k fd m b is_conn js (Suc sent) w1 = Returns (r', w')" "n \<le> length js"
      "txlog w' = txlog w1 @ take n (drop (Suc i) ?ds)"
      "r' = Inr (Suc sent + n) \<or> (\<exists>e. r' = Inl e \<and> kind ?c e \<noteq> WouldBlock \<and> n < length js)"
      by blast
    with entry step j Inr log1 nth drop show ?thesis
      by (auto intro!: exI [of _ "Suc n"])
  qed
qed

lemma send_loop_returns:
  assumes "sb_inv b" and "sb_readable m b" and "\<forall>i \<in> set is. i < sb_len b"
  shows "\<exists>r w'. send_loop k fd m b is_conn is sent w = Returns (r, w') \<and>
     (\<forall>n. r = Inr n \<longrightarrow> n \<le> sent + length is)"
  using assms(3)
proof (induction "is" arbitrary: sent w)
  case Nil
  then show ?case by simp
next
  case (Cons i rest)
  obtain d a where e: "sb_entries b ! i = (d, a)" by (cases "sb_entries b ! i")
  have "SendBatchRaw_entry m b i = Returns (d, a)"
    using entry_readable [OF assms(1,2)] Cons.prems e by simp
  moreover obtain r w1 where "(case (is_conn, a) of (True, _) \<Rightarrow> raw_send k fd (payload m d) w
      | (_, None) \<Rightarrow> raw_send k fd (payload m d) w
      | (_, Some a') \<Rightarrow> raw_sendto k fd (payload m d) a' w) = (r, w1)"
    by (metis surj_pair)
  ultimately show ?case
    using Cons.IH [of "Suc sent" w1] Cons.prems by (cases r) auto
qed

lemma fallback_send_returns:
  assumes "sb_inv b" and "sb_readable m b"
  shows "\<exists>r w'. fallback_try_send_batch k fd m b w = Returns (r, w') \<and>
     (\<forall>n. r = Inr n \<longrightarrow> n \<le> SendBatchRaw_len b)"
proof -
  obtain is_conn w1 where "is_connected k fd w = (is_conn, w1)" by (metis surj_pair)
  with send_loop_returns [OF assms, of "[0 ..< sb_len b]" k fd is_conn 0 w1] show ?thesis
    by (auto simp: fallback_try_send_batch_def SendBatchRaw_len_def Let_def)
qed

interpretation fallback_send: send_backend fallback_try_send_batch count_contract
proof unfold_locales
  fix b :: SendBatchRaw and k :: "'w kernel" and fd m w
  show "SendBatchRaw_len b = 0 \<Longrightarrow> fallback_try_send_batch k fd m b w = Returns (Inr 0, w)"
    by (simp add: fallback_try_send_batch_def)
  assume "sb_inv b" and "sb_readable m b"
  note r = fallback_send_returns [OF this, of k fd w]
  then show "\<exists>r w'. fallback_try_send_batch k fd m b w = Returns (r, w')" by blast
  fix n w'
  assume "fallback_try_send_batch k fd m b w = Returns (Inr n, w')"
  with r show "n \<le> SendBatchRaw_len b" by auto
qed

lemma is_connected_quiet:
  assumes "log_contract k txlog" and "is_connected k fd w = (is_conn, w')"
  shows "txlog w' = txlog w"
  using assms(2) by (auto simp: is_connected_def Let_def dest: log_contract_getpeername [OF assms(1)] split: prod.splits)

text \<open>The portable send on a batch whose buffers are alive returns, having sent the datagrams in order
  up to the first refusal. \<^verbatim>\<open>Ok(n)\<close> means exactly the first \<^verbatim>\<open>n\<close> were sent; \<^verbatim>\<open>WouldBlock\<close> is never
  returned, not even when nothing was sent; any other refusal is returned as it is, and the
  number of datagrams sent before it is not reported.\<close>

lemma fallback_send_log:
  assumes "log_contract k txlog" and "sb_inv b" and "sb_readable m b"
  shows "\<exists>r w' n. fallback_try_send_batch k fd m b w = Returns (r, w') \<and> n \<le> SendBatchRaw_len b \<and>
     txlog w' = txlog w @
       take n (map (strip_name (fst (is_connected k fd w))) (datagrams (k_libc k) m b)) \<and>
     (r = Inr n \<or> (\<exists>e. r = Inl e \<and> kind (k_libc k) e \<noteq> WouldBlock \<and> n < SendBatchRaw_len b))"
proof (cases "sb_len b = 0")
  case True
  then show ?thesis
    by (auto simp: fallback_try_send_batch_def SendBatchRaw_len_def intro!: exI [of _ "0 :: nat"])
next
  case False
  obtain is_conn w1 where c: "is_connected k fd w = (is_conn, w1)" by (metis surj_pair)
  then have "txlog w1 = txlog w" by (rule is_connected_quiet [OF assms(1)])
  moreover have "0 + length [0 ..< sb_len b] = sb_len b" by simp
  note send_loop_log [OF assms this refl, of fd is_conn 0 w1]
  ultimately show ?thesis
    using c False by (simp add: fallback_try_send_batch_def SendBatchRaw_len_def)
qed

interpretation fallback_prefix: prefix_backend fallback_try_send_batch count_contract "\<lambda>_. True" log_contract
proof unfold_locales
  fix k :: "'w kernel" and txlog b m fd w
  assume "log_contract k txlog" and "sb_inv b" and "sb_readable m b"
  from fallback_send_log [OF this, of fd w]
  show "\<exists>r w' n is_conn. fallback_try_send_batch k fd m b w = Returns (r, w') \<and> n \<le> SendBatchRaw_len b \<and>
        txlog w' = txlog w @ take n (map (strip_name is_conn) (datagrams (k_libc k) m b)) \<and>
        (r = Inr n \<or> (\<exists>e. r = Inl e \<and> n < SendBatchRaw_len b \<and> (kind (k_libc k) e = WouldBlock \<longrightarrow> n = 0)))"
    by fastforce
qed

section \<open>The receive loop\<close>

lemma raw_recvfrom_bounds:
  assumes "recv_contract k" and "raw_recvfrom k fd buf w = (r, buf', w')"
  shows "length buf' = length buf" and "r = Inr (n, a) \<Longrightarrow> n \<le> length buf"
  using assms(2) recv_contract_recvfrom [OF assms(1)]
  by (auto simp: raw_recvfrom_def Let_def split: prod.splits if_splits) fastforce+

text \<open>One receive against the queue.\<close>

lemma raw_recvfrom_queue:
  assumes "queue_contract k rxq" and "raw_recvfrom k fd buf w = (r, buf', w')"
  shows "case rxq w of
       [] \<Rightarrow> r = Inl (Os (EAGAIN (k_libc k))) \<and> rxq w' = [] \<and> buf' = buf
     | p # q \<Rightarrow> r = Inr (min (length (fst p)) (length buf), snd p) \<and> buf' = deposit buf (fst p) \<and>
         rxq w' = q"
proof -
  let ?c = "k_libc k"
  obtain n b1 st l w1 where rf: "k_recvfrom k fd buf (zeroed_storage ?c) (of_nat (size_storage ?c)) w
      = (n, b1, st, l, w1)" by (metis surj_pair)
  note q = queue_contract_recvfrom [OF assms(1) rf]
  note c = queue_contract_libc [OF assms(1)]
  show ?thesis
  proof (cases "rxq w")
    case Nil
    with q rf assms(2) show ?thesis
      by (auto simp: raw_recvfrom_def Let_def last_os_error_def)
  next
    case (Cons p ps)
    then have "wf_addr (snd p)" using c(4) [of p w] by simp
    moreover have "encode_sockaddr ?c (snd p) (zeroed_storage ?c) = (st, l)"
      using q Cons by simp
    ultimately have "decode_sockaddr ?c st l = snd p"
      by (intro decode_encode [OF c(1)]) simp_all
    with q rf assms(2) Cons show ?thesis
      by (auto simp: raw_recvfrom_def Let_def)
  qed
qed

interpretation fallback_source: slot_source raw_recvfrom recv_contract queue_contract "\<lambda>_. True" "\<lambda>_ _. True"
proof unfold_locales
  fix k :: "'w kernel" and fd buf w r buf' w'
  assume rf: "raw_recvfrom k fd buf w = (r, buf', w')"
  show "recv_contract k \<Longrightarrow> length buf' = length buf \<and> (\<forall>n a. r = Inr (n, a) \<longrightarrow> n \<le> length buf)"
    using raw_recvfrom_bounds [OF _ rf] by blast
  fix rxq
  assume q: "queue_contract k rxq"
  show "\<exists>e. r = Inl e \<and> kind (k_libc k) e = WouldBlock \<and> rxq w' = []" if "rxq w = []"
    using raw_recvfrom_queue [OF q rf] kind_EAGAIN [OF queue_contract_libc(2) [OF q]] that
    by (simp del: kind.simps)
  fix p qs
  show "r = Inr (min (length (fst p)) (length buf), snd p) \<and> buf' = deposit buf (fst p) \<and> rxq w' = qs"
    if "rxq w = p # qs"
    using raw_recvfrom_queue [OF q rf] that by simp
qed (rule queue_contract_libc(3))

lemma recv_loop_slots: "recv_loop k fd is received b w = recv_slots (k_libc k) (raw_recvfrom k fd) is received b w"
proof (induction "is" arbitrary: received b w)
  case (Cons i rest)
  show ?case unfolding recv_loop.simps recv_slots.simps Cons.IH by (rule refl)
qed simp

lemmas recv_loop_inv = fallback_source.recv_slots_inv [folded recv_loop_slots]

lemma fallback_recv_slots:
  "fallback_try_recv_batch =
     (\<lambda>k fd b. recv_slots (k_libc k) (raw_recvfrom k fd) [0 ..< RecvBatchRaw_capacity b] 0 b)"
  by (intro ext) (simp add: fallback_try_recv_batch_def recv_loop_slots)

interpretation fallback_recv: queue_backend fallback_try_recv_batch recv_contract queue_contract "\<lambda>_. True" "\<lambda>_ _. True"
  unfolding fallback_recv_slots by (rule fallback_source.slots.queue_backend_axioms)

section \<open>Concrete batches and arrivals\<close>

text \<open>A batch of \<open>n\<close> entries without destination, the \<open>i\<close>-th the single byte at address \<open>i\<close>.\<close>

definition byte_batch :: "nat \<Rightarrow> SendBatchRaw" where
  "byte_batch n =
     \<lparr>sb_slots = map (\<lambda>i. \<lparr>data_ptr = i, data_len = 1, slot_addr = None\<rparr>) [0 ..< n], sb_cap = n, sb_len = n\<rparr>"

lemma byte_batch_ok: "sb_inv (byte_batch n)" "sb_readable (\<lambda>a. Some (of_nat a)) (byte_batch n)"
  by (simp_all add: byte_batch_def sb_inv_def sb_readable_def sb_entries_def list_all_iff read_mem_def)

text \<open>A refusal in the middle of a batch hides what was sent: with room for one of two
  datagrams and then \<^verbatim>\<open>EMSGSIZE\<close>, the first is on the wire and the caller sees the error only.
  Sending the same batch again sends the first datagram a second time.\<close>

lemma fallback_error_hides_sent:
  "\<exists>w'. fallback_try_send_batch (loopback linux_libc) 3 (\<lambda>a. Some (of_nat a)) (byte_batch 2)
         (idle\<lparr>w_budget := 1, w_refusal := 90\<rparr>) = Returns (Inl (Os 90), w') \<and>
     map tx_data (w_sent w') = [[0]]"
  by (simp add: fallback_try_send_batch_def loopback_def idle_def byte_batch_def SendBatchRaw_len_def
      is_connected_def numeral_2_eq_2 SendBatchRaw_entry_def index_or_panic_def slot_slice_def read_mem_def
      raw_send_def loopback_send_def payload_def refuse_def accept_def last_os_error_def linux_libc_def)

text \<open>Two datagrams that have arrived on the loopback socket.\<close>

definition two_arrived :: world where
  "two_arrived = idle\<lparr>w_queue := [([104, 105], V4 (Ipv4Addr 127 0 0 1) 9000),
     ([1, 2, 3, 4, 5, 6], V4 (Ipv4Addr 10 0 0 1) 53)]\<rparr>"

lemma two_arrived: "arrived two_arrived = w_queue two_arrived" "w_queue two_arrived \<noteq> []"
  by (simp_all add: arrived_def two_arrived_def idle_def)

lemmas linux_loopback = loopback_queue [OF linux_libc_ok errno_ok_targets(1)] loopback_recv [of linux_libc]

end
