(* ===== verification/Linux_Send.thy ===== *)
theory Linux_Send
  imports Fallback
begin

text \<open>
  The send side of \<^verbatim>\<open>platform/linux.rs\<close>: one \<^verbatim>\<open>sendmmsg\<close> for the whole batch, with the header,
  iovec and address arrays on the stack for at most 64 entries and in vectors beyond, the
  per-packet loop when the kernel has no \<^verbatim>\<open>sendmmsg\<close>, and the GSO send. The arrays are
  modelled with the pointers between them, since which address a header points to is what
  decides where a datagram goes.
\<close>

section \<open>Message headers\<close>

definition MAX_STACK :: nat where
  "MAX_STACK = 64"

text \<open>
  What \<^verbatim>\<open>msg_name\<close> points to: nothing, an element of \<^verbatim>\<open>addrs\<close>, or the variable \<^verbatim>\<open>storage\<close> of
  one iteration of the loop, which is gone when the loop body ends. \<^verbatim>\<open>msg_iov\<close> points to an
  element of \<^verbatim>\<open>iovecs\<close>, or nowhere.
\<close>

datatype name_ptr = NullName | AddrAt nat | LoopLocal

record mmsghdr =
  mh_name :: name_ptr
  mh_namelen :: u32
  mh_iov :: "nat option"
  mh_iovlen :: nat

definition zeroed_mmsghdr :: mmsghdr where
  "zeroed_mmsghdr = \<lparr>mh_name = NullName, mh_namelen = 0, mh_iov = None, mh_iovlen = 0\<rparr>"

record send_arrays =
  sa_msgs :: "mmsghdr list"
  sa_iovecs :: "slice list"
  sa_addrs :: "bytes list"
  sa_addr_idx :: nat

text \<open>What the kernel reads through one header.\<close>

definition tx_view :: "memory \<Rightarrow> slice list \<Rightarrow> bytes list \<Rightarrow> mmsghdr \<Rightarrow> tx_msg outcome" where
  "tx_view m iovecs addrs h =
     outcome_bind
       (case mh_name h of
          NullName \<Rightarrow> Returns None
        | AddrAt j \<Rightarrow> if j < length addrs then Returns (Some (addrs ! j, mh_namelen h)) else Undefined
        | LoopLocal \<Rightarrow> Undefined)
       (\<lambda>nm. case mh_iov h of
          None \<Rightarrow> if mh_iovlen h = 0 then Returns \<lparr>tx_name = nm, tx_data = []\<rparr> else Undefined
        | Some j \<Rightarrow> if j < length iovecs then Returns \<lparr>tx_name = nm, tx_data = payload m (iovecs ! j)\<rparr>
                   else Undefined)"

section \<open>The per-packet fallback and the call\<close>

definition linux_fallback_send ::
    "'w kernel \<Rightarrow> fd \<Rightarrow> memory \<Rightarrow> SendBatchRaw \<Rightarrow> 'w \<Rightarrow> (nat io_result \<times> 'w) outcome" where
  "linux_fallback_send k fd m b w =
     (let len = SendBatchRaw_len b in
      if len = 0 then Returns (Inr 0, w)
      else let (is_conn, w1) = is_connected k fd w
        in send_loop k fd m b is_conn [0 ..< len] 0 w1)"

text \<open>The call and what follows it, the same lines on both paths; \<^verbatim>\<open>len as u32\<close> keeps 32 bits.\<close>

definition call_sendmmsg ::
    "'w kernel \<Rightarrow> fd \<Rightarrow> memory \<Rightarrow> SendBatchRaw \<Rightarrow> send_arrays \<Rightarrow> nat \<Rightarrow> 'w \<Rightarrow> (nat io_result \<times> 'w) outcome" where
  "call_sendmmsg k fd m b st len w =
     outcome_bind (outcome_map (tx_view m (sa_iovecs st) (sa_addrs st)) (take len (sa_msgs st))) (\<lambda>msgs.
       let (sent, w') = k_sendmmsg k fd msgs (of_nat len) w in
       if 0 \<le> sent then Returns (Inr (nat sent), w')
       else let err = last_os_error k w' in
         if raw_os_error err = Some (ENOSYS (k_libc k)) then linux_fallback_send k fd m b w'
         else Returns (Inl err, w'))"

section \<open>The stack path\<close>

definition stack_arrays :: "libc \<Rightarrow> send_arrays" where
  "stack_arrays c =
     \<lparr>sa_msgs = replicate MAX_STACK zeroed_mmsghdr,
      sa_iovecs = replicate MAX_STACK \<lparr>slice_ptr = 0, slice_len = 0\<rparr>,
      sa_addrs = replicate MAX_STACK (zeroed_storage c), sa_addr_idx = 0\<rparr>"

definition stack_set_addr ::
    "libc \<Rightarrow> nat \<Rightarrow> SocketAddr option \<Rightarrow> send_arrays \<Rightarrow> send_arrays outcome" where
  "stack_set_addr c i addr st =
     (case addr of
        None \<Rightarrow> Returns st
      | Some target \<Rightarrow>
          outcome_bind (index_or_panic (sa_addrs st) (sa_addr_idx st)) (\<lambda>storage.
            let (storage', addr_len) = encode_sockaddr c target storage in
            outcome_bind (update_or_panic (sa_msgs st) i
                (\<lambda>h. h\<lparr>mh_name := AddrAt (sa_addr_idx st), mh_namelen := addr_len\<rparr>)) (\<lambda>msgs.
              Returns (st\<lparr>sa_addrs := (sa_addrs st)[sa_addr_idx st := storage'], sa_msgs := msgs,
                          sa_addr_idx := sa_addr_idx st + 1\<rparr>))))"

definition stack_set_iov :: "nat \<Rightarrow> slice \<Rightarrow> send_arrays \<Rightarrow> send_arrays outcome" where
  "stack_set_iov i data st =
     outcome_bind (update_or_panic (sa_iovecs st) i (\<lambda>_. data)) (\<lambda>iovecs.
       outcome_bind (update_or_panic (sa_msgs st) i (\<lambda>h. h\<lparr>mh_iov := Some i, mh_iovlen := 1\<rparr>)) (\<lambda>msgs.
         Returns (st\<lparr>sa_iovecs := iovecs, sa_msgs := msgs\<rparr>)))"

fun stack_fill :: "libc \<Rightarrow> memory \<Rightarrow> SendBatchRaw \<Rightarrow> nat list \<Rightarrow> send_arrays \<Rightarrow> send_arrays outcome" where
  "stack_fill c m b [] st = Returns st"
| "stack_fill c m b (i # is) st =
     outcome_bind (SendBatchRaw_entry m b i) (\<lambda>(data, addr).
       outcome_bind (stack_set_addr c i addr st) (\<lambda>st1.
         outcome_bind (stack_set_iov i data st1) (\<lambda>st2. stack_fill c m b is st2)))"

section \<open>The heap path\<close>

definition heap_header :: "libc \<Rightarrow> SocketAddr option \<Rightarrow> bytes \<times> mmsghdr" where
  "heap_header c addr =
     (case addr of
        None \<Rightarrow> (zeroed_storage c, zeroed_mmsghdr)
      | Some target \<Rightarrow>
          (let (storage, addr_len) = encode_sockaddr c target (zeroed_storage c)
           in (storage, zeroed_mmsghdr\<lparr>mh_name := LoopLocal, mh_namelen := addr_len\<rparr>)))"

fun heap_fill :: "libc \<Rightarrow> memory \<Rightarrow> SendBatchRaw \<Rightarrow> nat list \<Rightarrow> send_arrays \<Rightarrow> send_arrays outcome" where
  "heap_fill c m b [] st = Returns st"
| "heap_fill c m b (i # is) st =
     outcome_bind (SendBatchRaw_entry m b i) (\<lambda>(data, addr).
       let (storage, mhdr) = heap_header c addr;
           iovecs = sa_iovecs st @ [data]
       in outcome_bind (index_or_panic iovecs i) (\<lambda>_.
            heap_fill c m b is
              (st\<lparr>sa_addrs := sa_addrs st @ [storage], sa_iovecs := iovecs,
                  sa_msgs := sa_msgs st @ [mhdr\<lparr>mh_iov := Some i, mh_iovlen := 1\<rparr>]\<rparr>)))"

text \<open>The second pass, over \<^verbatim>\<open>msgs.iter_mut().enumerate()\<close> from position \<open>i\<close>.\<close>

fun heap_fix ::
    "memory \<Rightarrow> SendBatchRaw \<Rightarrow> slice list \<Rightarrow> bytes list \<Rightarrow> nat \<Rightarrow> nat \<Rightarrow> mmsghdr list \<Rightarrow> mmsghdr list outcome" where
  "heap_fix m b iovecs addrs i addr_idx [] = Returns []"
| "heap_fix m b iovecs addrs i addr_idx (h # hs) =
     outcome_bind (index_or_panic iovecs i) (\<lambda>_.
       outcome_bind (SendBatchRaw_entry m b i) (\<lambda>(_, addr).
         let h1 = h\<lparr>mh_iov := Some i\<rparr> in
         case addr of
           None \<Rightarrow> outcome_bind (heap_fix m b iovecs addrs (i + 1) addr_idx hs) (\<lambda>hs'. Returns (h1 # hs'))
         | Some _ \<Rightarrow>
             outcome_bind (index_or_panic addrs addr_idx) (\<lambda>_.
               outcome_bind (heap_fix m b iovecs addrs (i + 1) (addr_idx + 1) hs) (\<lambda>hs'.
                 Returns (h1\<lparr>mh_name := AddrAt addr_idx\<rparr> # hs')))))"

section \<open>try_send_batch\<close>

definition linux_try_send_batch ::
    "'w kernel \<Rightarrow> fd \<Rightarrow> memory \<Rightarrow> SendBatchRaw \<Rightarrow> 'w \<Rightarrow> (nat io_result \<times> 'w) outcome" where
  "linux_try_send_batch k fd m b w =
     (let c = k_libc k; len = SendBatchRaw_len b in
      if len = 0 then Returns (Inr 0, w)
      else if len \<le> MAX_STACK then
        outcome_bind (stack_fill c m b [0 ..< len] (stack_arrays c)) (\<lambda>st.
          call_sendmmsg k fd m b st len w)
      else
        outcome_bind (heap_fill c m b [0 ..< len]
            \<lparr>sa_msgs = [], sa_iovecs = [], sa_addrs = [], sa_addr_idx = 0\<rparr>) (\<lambda>st.
          outcome_bind (heap_fix m b (sa_iovecs st) (sa_addrs st) 0 0 (sa_msgs st)) (\<lambda>msgs.
            call_sendmmsg k fd m b (st\<lparr>sa_msgs := msgs\<rparr>) len w)))"

text \<open>
  The GSO send. \<^verbatim>\<open>CMSG_FIRSTHDR\<close> is null exactly when \<^verbatim>\<open>msg_controllen\<close> is below the size of
  a \<^verbatim>\<open>cmsghdr\<close>.
\<close>

definition try_send_gso :: "'w kernel \<Rightarrow> fd \<Rightarrow> bytes \<Rightarrow> u16 \<Rightarrow> 'w \<Rightarrow> nat io_result \<times> 'w" where
  "try_send_gso k fd data segment_size w =
     (let c = k_libc k in
      if 64 < size_cmsghdr c then (Inl (Custom ''CMSG_FIRSTHDR returned null''), w)
      else
        let (ret, w') = k_sendmsg_gso k fd
              \<lparr>gso_controllen = 64, gso_level = IPPROTO_UDP c, gso_type = UDP_SEGMENT c,
               gso_size = segment_size\<rparr> data w
        in (if 0 \<le> ret then Inr (nat ret) else Inl (last_os_error k w'), w'))"

section \<open>The headers both paths build\<close>

text \<open>The number of entries with a destination among the first \<open>j\<close>: the value of \<^verbatim>\<open>addr_idx\<close>
  when entry \<open>j\<close> is reached.\<close>

definition rank :: "SendBatchRaw \<Rightarrow> nat \<Rightarrow> nat" where
  "rank b j = length (filter (\<lambda>e. snd e \<noteq> None) (take j (sb_entries b)))"

lemma rank_0 [simp]: "rank b 0 = 0"
  by (simp add: rank_def)

lemma rank_Suc:
  "sb_inv b \<Longrightarrow> j < sb_len b \<Longrightarrow>
     rank b (Suc j) = rank b j + (if snd (sb_entries b ! j) = None then 0 else 1)"
  by (simp add: rank_def take_Suc_conv_app_nth length_sb_entries)

lemma rank_le: "rank b j \<le> j"
  unfolding rank_def by (rule order_trans [OF length_filter_le]) simp

lemma rank_mono: "i \<le> j \<Longrightarrow> rank b i \<le> rank b j"
  by (auto simp: rank_def le_iff_add take_add)

lemma rank_strict:
  assumes "sb_inv b" and "j < i" and "i \<le> sb_len b" and "snd (sb_entries b ! j) = Some a"
  shows "rank b j < rank b i"
proof -
  have "rank b (Suc j) = Suc (rank b j)"
    using assms by (simp add: rank_Suc)
  with rank_mono [of "Suc j" i b] assms(2) show ?thesis by simp
qed

definition final_header :: "libc \<Rightarrow> SendBatchRaw \<Rightarrow> nat \<Rightarrow> mmsghdr" where
  "final_header c b j =
     (case snd (sb_entries b ! j) of
        None \<Rightarrow> \<lparr>mh_name = NullName, mh_namelen = 0, mh_iov = Some j, mh_iovlen = 1\<rparr>
      | Some a \<Rightarrow> \<lparr>mh_name = AddrAt (rank b j), mh_namelen = snd (encode_sockaddr c a (zeroed_storage c)),
                 mh_iov = Some j, mh_iovlen = 1\<rparr>)"

text \<open>The message a final header describes, for whatever address array it points into.\<close>

lemma tx_view_final_header:
  assumes "sb_inv b" and "j < sb_len b" and "iovecs ! j = fst (sb_entries b ! j)" and "j < length iovecs"
    and "\<And>a. snd (sb_entries b ! j) = Some a \<Longrightarrow> rank b j < length addrs"
  shows "tx_view m iovecs addrs (final_header c b j) = Returns
     \<lparr>tx_name = map_option (\<lambda>a. (addrs ! rank b j, snd (encode_sockaddr c a (zeroed_storage c))))
        (snd (sb_entries b ! j)),
      tx_data = payload m (fst (sb_entries b ! j))\<rparr>"
  using assms by (cases "snd (sb_entries b ! j)") (auto simp: tx_view_def final_header_def)

section \<open>The stack path builds the datagrams of the batch\<close>

definition stack_done :: "libc \<Rightarrow> SendBatchRaw \<Rightarrow> nat \<Rightarrow> send_arrays \<Rightarrow> bool" where
  "stack_done c b i st \<longleftrightarrow>
     length (sa_msgs st) = MAX_STACK \<and> length (sa_iovecs st) = MAX_STACK \<and>
     length (sa_addrs st) = MAX_STACK \<and> sa_addr_idx st = rank b i \<and>
     (\<forall>j < i. sa_msgs st ! j = final_header c b j \<and> sa_iovecs st ! j = fst (sb_entries b ! j)) \<and>
     (\<forall>j < i. \<forall>a. snd (sb_entries b ! j) = Some a \<longrightarrow>
        sa_addrs st ! rank b j = fst (encode_sockaddr c a (zeroed_storage c))) \<and>
     (\<forall>j < MAX_STACK. i \<le> j \<longrightarrow> sa_msgs st ! j = zeroed_mmsghdr) \<and>
     (\<forall>r < MAX_STACK. rank b i \<le> r \<longrightarrow> sa_addrs st ! r = zeroed_storage c)"

lemma stack_step:
  assumes "sb_inv b" and "i < sb_len b" and "sb_len b \<le> MAX_STACK" and "stack_done c b i st"
    and e: "sb_entries b ! i = (d, a)"
  shows "\<exists>st1 st2. stack_set_addr c i a st = Returns st1 \<and> stack_set_iov i d st1 = Returns st2 \<and>
     stack_done c b (Suc i) st2"
proof (cases a)
  case None
  then have r: "rank b (Suc i) = rank b i" using assms(1,2) e by (simp add: rank_Suc)
  from None assms show ?thesis
    by (auto simp: stack_set_addr_def stack_set_iov_def update_or_panic_def stack_done_def r less_Suc_eq
        final_header_def zeroed_mmsghdr_def nth_list_update)
next
  case (Some t)
  have r: "rank b (Suc i) = Suc (rank b i)" using assms(1,2) e Some by (simp add: rank_Suc)
  have lt: "rank b i < MAX_STACK" using rank_le [of b i] assms(2,3) by simp
  have ne: "rank b i = rank b j \<Longrightarrow> False" if "j < i" "snd (sb_entries b ! j) = Some a'" for j a'
    using rank_strict [OF assms(1) that(1) _ that(2)] assms(2) by simp
  obtain s l where enc: "encode_sockaddr c t (zeroed_storage c) = (s, l)" by (metis surj_pair)
  have z: "sa_addrs st ! rank b i = zeroed_storage c" "sa_addr_idx st = rank b i"
    using assms(4) lt by (auto simp: stack_done_def)
  from Some assms lt enc z show ?thesis
    by (auto simp: stack_set_addr_def stack_set_iov_def update_or_panic_def index_or_panic_def
        stack_done_def r less_Suc_eq final_header_def zeroed_mmsghdr_def nth_list_update dest: ne)
qed

lemma stack_fill_done:
  assumes "sb_inv b" and "sb_readable m b" and "sb_len b \<le> MAX_STACK"
    and "stack_done c b i st" and "is = [i ..< sb_len b]" and "i \<le> sb_len b"
  shows "\<exists>st'. stack_fill c m b is st = Returns st' \<and> stack_done c b (sb_len b) st'"
  using assms(4-)
proof (induction "is" arbitrary: i st)
  case Nil
  then have "i = sb_len b" using Nil.prems(2) [symmetric] by (auto simp: upt_eq_Nil_conv)
  with Nil show ?case by simp
next
  case (Cons j js)
  have j: "j = i" "i < sb_len b" and js: "js = [Suc i ..< sb_len b]"
    using Cons.prems(2) [symmetric] by (auto simp: upt_eq_Cons_conv)
  obtain d a where e: "sb_entries b ! i = (d, a)" by (cases "sb_entries b ! i")
  from stack_step [OF assms(1) j(2) assms(3) Cons.prems(1) e] obtain st1 st2 where
    "stack_set_addr c i a st = Returns st1" "stack_set_iov i d st1 = Returns st2"
    and dn: "stack_done c b (Suc i) st2" by blast
  with Cons.IH [OF dn js] entry_readable [OF assms(1,2) j(2)] e j show ?case by simp
qed

lemma stack_views:
  assumes "sb_inv b" and "sb_len b \<le> MAX_STACK" and "stack_done c b (sb_len b) st"
  shows "outcome_map (tx_view m (sa_iovecs st) (sa_addrs st)) (take (sb_len b) (sa_msgs st)) =
     Returns (datagrams c m b)"
proof -
  have len: "length (sa_msgs st) = MAX_STACK" "length (sa_iovecs st) = MAX_STACK"
    "length (sa_addrs st) = MAX_STACK" using assms(3) by (simp_all add: stack_done_def)
  have "take (sb_len b) (sa_msgs st) = map (final_header c b) [0 ..< sb_len b]"
    using assms(2,3) by (intro nth_equalityI) (auto simp: stack_done_def)
  moreover have "tx_view m (sa_iovecs st) (sa_addrs st) (final_header c b j) = Returns (datagrams c m b ! j)"
    if j: "j < sb_len b" for j
  proof -
    have "rank b j < MAX_STACK" using rank_le [of b j] j assms(2) by simp
    then show ?thesis
      using tx_view_final_header [OF assms(1) j, of "sa_iovecs st" "sa_addrs st" m c] assms j len
      by (cases "snd (sb_entries b ! j)") (auto simp: stack_done_def nth_datagrams datagram_def)
  qed
  ultimately show ?thesis
    using outcome_map_upt [of "datagrams c m b"
        "\<lambda>j. tx_view m (sa_iovecs st) (sa_addrs st) (final_header c b j)"]
    by (simp add: outcome_map_map length_datagrams assms(1))
qed

section \<open>The heap path\<close>

definition heap_storage :: "libc \<Rightarrow> SendBatchRaw \<Rightarrow> nat \<Rightarrow> bytes" where
  "heap_storage c b j = fst (heap_header c (snd (sb_entries b ! j)))"

definition first_header :: "libc \<Rightarrow> SendBatchRaw \<Rightarrow> nat \<Rightarrow> mmsghdr" where
  "first_header c b j = (snd (heap_header c (snd (sb_entries b ! j))))\<lparr>mh_iov := Some j, mh_iovlen := 1\<rparr>"

lemma heap_storage_Some:
  "snd (sb_entries b ! j) = Some a \<Longrightarrow> heap_storage c b j = fst (encode_sockaddr c a (zeroed_storage c))"
  by (simp add: heap_storage_def heap_header_def split: prod.splits)

lemma heap_fill_result:
  assumes "sb_inv b" and "sb_readable m b" and "is = [i ..< sb_len b]" and "i \<le> sb_len b"
    and "length (sa_iovecs st) = i"
  shows "heap_fill c m b is st = Returns (st\<lparr>sa_addrs := sa_addrs st @ map (heap_storage c b) is,
     sa_iovecs := sa_iovecs st @ map (\<lambda>j. fst (sb_entries b ! j)) is,
     sa_msgs := sa_msgs st @ map (first_header c b) is\<rparr>)"
  using assms(3-)
proof (induction "is" arbitrary: i st)
  case Nil
  then show ?case by simp
next
  case (Cons j js)
  have j: "j = i" "i < sb_len b" and js: "js = [Suc i ..< sb_len b]"
    using Cons.prems(1) [symmetric] by (auto simp: upt_eq_Cons_conv)
  obtain d a where e: "sb_entries b ! i = (d, a)" by (cases "sb_entries b ! i")
  obtain s h where h: "heap_header c a = (s, h)" by (cases "heap_header c a")
  have "index_or_panic (sa_iovecs st @ [d]) i = Returns d"
    using Cons.prems(3) by (auto simp: index_or_panic_def)
  with Cons.IH [OF js] Cons.prems(3) entry_readable [OF assms(1,2) j(2)] e j h show ?case
    by (simp add: heap_storage_def first_header_def)
qed

lemma heap_fix_result:
  assumes "sb_inv b" and "sb_readable m b" and "is = [i ..< sb_len b]"
    and "length iovecs = sb_len b" and "length addrs = sb_len b"
  shows "heap_fix m b iovecs addrs i (rank b i) (map (first_header c b) is) =
     Returns (map (final_header c b) is)"
  using assms(3)
proof (induction "is" arbitrary: i)
  case Nil
  then show ?case by simp
next
  case (Cons j js)
  have j: "j = i" "i < sb_len b" and js: "js = [Suc i ..< sb_len b]"
    using Cons.prems [symmetric] by (auto simp: upt_eq_Cons_conv)
  obtain d a where e: "sb_entries b ! i = (d, a)" by (cases "sb_entries b ! i")
  have ent: "SendBatchRaw_entry m b i = Returns (d, a)"
    using entry_readable [OF assms(1,2) j(2)] e by simp
  have "rank b i < length addrs" using rank_le [of b i] j(2) assms(5) by simp
  with ent Cons.IH [OF js] j assms(1,4) e show ?case
    by (cases a) (simp_all add: index_or_panic_def rank_Suc final_header_def first_header_def
        heap_header_def zeroed_mmsghdr_def split: prod.splits)
qed

text \<open>
  What the vectors make of entry \<open>j\<close>: its own payload and address length, with the storage of
  the entry whose index is the number of destinations before \<open>j\<close>.
\<close>

definition heap_datagram :: "libc \<Rightarrow> memory \<Rightarrow> SendBatchRaw \<Rightarrow> nat \<Rightarrow> tx_msg" where
  "heap_datagram c m b j =
     \<lparr>tx_name = map_option (\<lambda>a. (heap_storage c b (rank b j), snd (encode_sockaddr c a (zeroed_storage c))))
        (snd (sb_entries b ! j)),
      tx_data = payload m (fst (sb_entries b ! j))\<rparr>"

definition heap_arrays :: "libc \<Rightarrow> SendBatchRaw \<Rightarrow> send_arrays" where
  "heap_arrays c b =
     \<lparr>sa_msgs = map (final_header c b) [0 ..< sb_len b],
      sa_iovecs = map (\<lambda>j. fst (sb_entries b ! j)) [0 ..< sb_len b],
      sa_addrs = map (heap_storage c b) [0 ..< sb_len b], sa_addr_idx = 0\<rparr>"

lemma heap_views:
  assumes "sb_inv b"
  shows "outcome_map (tx_view m (sa_iovecs (heap_arrays c b)) (sa_addrs (heap_arrays c b)))
       (take (sb_len b) (sa_msgs (heap_arrays c b))) =
     Returns (map (heap_datagram c m b) [0 ..< sb_len b])"
proof -
  have "tx_view m (sa_iovecs (heap_arrays c b)) (sa_addrs (heap_arrays c b)) (final_header c b j)
      = Returns (heap_datagram c m b j)" if j: "j < sb_len b" for j
  proof -
    have "rank b j < sb_len b" using rank_le [of b j] j by simp
    with tx_view_final_header [OF assms j, of "sa_iovecs (heap_arrays c b)" "sa_addrs (heap_arrays c b)" m c] j
    show ?thesis by (simp add: heap_arrays_def heap_datagram_def)
  qed
  then show ?thesis
    using outcome_map_Returns [of "[0 ..< sb_len b]"
        "\<lambda>j. tx_view m (sa_iovecs (heap_arrays c b)) (sa_addrs (heap_arrays c b)) (final_header c b j)"
        "heap_datagram c m b"]
    by (simp add: heap_arrays_def outcome_map_map)
qed

lemma heap_build:
  assumes "sb_inv b" and "sb_readable m b"
  shows "heap_fill c m b [0 ..< sb_len b] \<lparr>sa_msgs = [], sa_iovecs = [], sa_addrs = [], sa_addr_idx = 0\<rparr> =
      Returns ((heap_arrays c b)\<lparr>sa_msgs := map (first_header c b) [0 ..< sb_len b]\<rparr>)"
    and "heap_fix m b (sa_iovecs (heap_arrays c b)) (sa_addrs (heap_arrays c b)) 0 0
      (map (first_header c b) [0 ..< sb_len b]) = Returns (sa_msgs (heap_arrays c b))"
  using heap_fill_result [OF assms refl] heap_fix_result [OF assms refl, of _ _ 0]
  by (simp_all add: heap_arrays_def)

section \<open>The whole call\<close>

lemma linux_send_call:
  assumes "sb_inv b" and "sb_readable m b" and "0 < sb_len b"
  shows "linux_try_send_batch k fd m b w =
     (let msgs = (if sb_len b \<le> MAX_STACK then datagrams (k_libc k) m b
                  else map (heap_datagram (k_libc k) m b) [0 ..< sb_len b]);
          (sent, w') = k_sendmmsg k fd msgs (of_nat (sb_len b)) w in
      if 0 \<le> sent then Returns (Inr (nat sent), w')
      else let err = last_os_error k w' in
        if raw_os_error err = Some (ENOSYS (k_libc k)) then linux_fallback_send k fd m b w'
        else Returns (Inl err, w'))"
proof (cases "sb_len b \<le> MAX_STACK")
  case True
  have "stack_done (k_libc k) b 0 (stack_arrays (k_libc k))"
    by (simp add: stack_done_def stack_arrays_def)
  from stack_fill_done [OF assms(1,2) True this refl] obtain st where
    "stack_fill (k_libc k) m b [0 ..< sb_len b] (stack_arrays (k_libc k)) = Returns st"
    and "stack_done (k_libc k) b (sb_len b) st" by auto
  with stack_views [OF assms(1) True this(2), of m] True assms(3) show ?thesis
    by (simp add: linux_try_send_batch_def SendBatchRaw_len_def call_sendmmsg_def Let_def)
next
  case False
  from heap_build [OF assms(1,2), of "k_libc k"] heap_views [OF assms(1), of m "k_libc k"] False assms(3)
  show ?thesis
    by (simp add: linux_try_send_batch_def SendBatchRaw_len_def call_sendmmsg_def Let_def)
qed

lemma linux_fallback_send_eq: "linux_fallback_send k fd m b w = fallback_try_send_batch k fd m b w"
  by (simp add: linux_fallback_send_def fallback_try_send_batch_def)

lemma linux_send_returns:
  assumes "sb_inv b" and "sb_readable m b" and "0 < sb_len b"
  shows "\<exists>msgs sent w1 r w'. k_sendmmsg k fd msgs (of_nat (sb_len b)) w = (sent, w1) \<and>
     linux_try_send_batch k fd m b w = Returns (r, w') \<and>
     (\<forall>n. r = Inr n \<longrightarrow> (0 \<le> sent \<and> n = nat sent) \<or> n \<le> SendBatchRaw_len b)"
proof -
  let ?ms = "if sb_len b \<le> MAX_STACK then datagrams (k_libc k) m b
    else map (heap_datagram (k_libc k) m b) [0 ..< sb_len b]"
  obtain sent w1 where s: "k_sendmmsg k fd ?ms (of_nat (sb_len b)) w = (sent, w1)" by (metis surj_pair)
  have "\<exists>r w'. linux_try_send_batch k fd m b w = Returns (r, w') \<and>
     (\<forall>n. r = Inr n \<longrightarrow> (0 \<le> sent \<and> n = nat sent) \<or> n \<le> SendBatchRaw_len b)"
    unfolding linux_send_call [OF assms, of k fd w] Let_def s linux_fallback_send_eq
    using fallback_send_returns [OF assms(1,2), of k fd w1] by auto
  with s show ?thesis by blast
qed

interpretation linux_send: send_backend linux_try_send_batch count_contract
proof unfold_locales
  fix b :: SendBatchRaw and k :: "'w kernel" and fd m w
  show empty: "SendBatchRaw_len b = 0 \<Longrightarrow> linux_try_send_batch k fd m b w = Returns (Inr 0, w)"
    by (simp add: linux_try_send_batch_def)
  assume b: "sb_inv b" "sb_readable m b"
  show "\<exists>r w'. linux_try_send_batch k fd m b w = Returns (r, w')"
    using linux_send_returns [OF b, of k fd w] empty by (auto simp: SendBatchRaw_len_def)
  fix n w'
  assume k: "count_contract k" and r: "linux_try_send_batch k fd m b w = Returns (Inr n, w')"
  have "nat sent \<le> SendBatchRaw_len b" if "k_sendmmsg k fd ms (of_nat (sb_len b)) w = (sent, w1)" for ms sent w1
    using nat_le_unat [OF count_contractD [OF k that]] unat_of_nat_le [of "sb_len b"] le_trans
    unfolding SendBatchRaw_len_def by blast
  with r linux_send_returns [OF b, of k fd w] empty show "n \<le> SendBatchRaw_len b"
    by (cases "sb_len b = 0") (fastforce simp: SendBatchRaw_len_def)+
qed

text \<open>Every entry with a destination comes before every entry without.\<close>

definition dests_first :: "SendBatchRaw \<Rightarrow> bool" where
  "dests_first b \<longleftrightarrow>
     (\<forall>j < sb_len b. snd (sb_entries b ! j) \<noteq> None \<longrightarrow> (\<forall>i < j. snd (sb_entries b ! i) \<noteq> None))"

lemma rank_all:
  "sb_inv b \<Longrightarrow> j \<le> sb_len b \<Longrightarrow> \<forall>i < j. snd (sb_entries b ! i) \<noteq> None \<Longrightarrow> rank b j = j"
  by (induction j) (auto simp: rank_Suc)

lemma heap_datagrams:
  assumes "sb_inv b" and "dests_first b"
  shows "map (heap_datagram c m b) [0 ..< sb_len b] = datagrams c m b"
proof (rule nth_equalityI)
  fix j
  assume "j < length (map (heap_datagram c m b) [0 ..< sb_len b])"
  then have j: "j < sb_len b" by simp
  with assms(2) rank_all [OF assms(1), of j]
  have "rank b j = j" if "snd (sb_entries b ! j) = Some a" for a
    using that by (auto simp: dests_first_def)
  with j show "map (heap_datagram c m b) [0 ..< sb_len b] ! j = datagrams c m b ! j"
    by (cases "snd (sb_entries b ! j)")
       (auto simp: heap_datagram_def nth_datagrams assms(1) datagram_def heap_storage_Some)
qed (simp add: length_datagrams assms(1))

lemma linux_send_log:
  assumes "log_contract k txlog" and "sb_inv b" and "sb_readable m b"
    and "sb_len b \<le> MAX_STACK \<or> dests_first b"
  shows "\<exists>r w' n is_conn. linux_try_send_batch k fd m b w = Returns (r, w') \<and> n \<le> SendBatchRaw_len b \<and>
     txlog w' = txlog w @ take n (map (strip_name is_conn) (datagrams (k_libc k) m b)) \<and>
     (r = Inr n \<or> (\<exists>e. r = Inl e \<and> n < SendBatchRaw_len b \<and> (kind (k_libc k) e = WouldBlock \<longrightarrow> n = 0)))"
proof (cases "sb_len b = 0")
  case True
  then show ?thesis
    by (auto simp: linux_try_send_batch_def SendBatchRaw_len_def intro!: exI [of _ "0 :: nat"])
next
  case False
  have "(if sb_len b \<le> MAX_STACK then datagrams (k_libc k) m b
     else map (heap_datagram (k_libc k) m b) [0 ..< sb_len b]) = datagrams (k_libc k) m b"
    using assms(4) heap_datagrams [OF assms(2)] by auto
  note call = linux_send_call [OF assms(2,3), of k fd w, unfolded this]
  obtain sent w1 where s: "k_sendmmsg k fd (datagrams (k_libc k) m b) (of_nat (sb_len b)) w = (sent, w1)"
    by (metis surj_pair)
  have l1: "txlog w1 = txlog w @ take (nat sent) (datagrams (k_libc k) m b)"
    by (rule log_contract_sendmmsg [OF assms(1) s])
  have n: "nat sent \<le> sb_len b"
    using nat_le_unat [OF count_contractD [OF log_contract_count [OF assms(1)] s]]
      unat_of_nat_le [of "sb_len b"] le_trans by blast
  have id: "map (strip_name False) ds = ds" for ds by (rule map_idI) (simp add: strip_name_def)
  show ?thesis
  proof (cases "0 \<le> sent")
    case True
    with call False s l1 n show ?thesis
      by (intro exI [of _ "Inr (nat sent)"] exI [of _ w1] exI [of _ "nat sent"] exI [of _ False])
         (simp add: id SendBatchRaw_len_def)
  next
    case neg: False
    with l1 have l1: "txlog w1 = txlog w" by simp
    show ?thesis
    proof (cases "k_errno k w1 = ENOSYS (k_libc k)")
      case True
      with call False s neg have "linux_try_send_batch k fd m b w = fallback_try_send_batch k fd m b w1"
        by (simp add: last_os_error_def linux_fallback_send_eq)
      with fallback_send_log [OF assms(1-3), of fd w1] l1 show ?thesis by fastforce
    next
      case noent: False
      with call False s neg l1 show ?thesis
        by (intro exI [of _ "Inl (last_os_error k w1)"] exI [of _ w1] exI [of _ 0] exI [of _ False])
           (simp add: last_os_error_def SendBatchRaw_len_def)
    qed
  qed
qed

text \<open>\<^verbatim>\<open>WouldBlock\<close> comes from \<^verbatim>\<open>sendmmsg\<close> itself: the per-packet loop never returns it.\<close>

lemma linux_send_blocked:
  assumes "log_contract k txlog" and "sb_inv b" and "sb_readable m b"
    and "linux_try_send_batch k fd m b w = Returns (Inl e, w')" and "kind (k_libc k) e = WouldBlock"
  shows "\<exists>msgs vlen n. k_sendmmsg k fd msgs vlen w = (n, w') \<and> n < 0 \<and> e = last_os_error k w'"
proof -
  have "0 < sb_len b"
    using assms(4) by (cases "sb_len b") (simp_all add: linux_try_send_batch_def SendBatchRaw_len_def)
  define msgs where "msgs = (if sb_len b \<le> MAX_STACK then datagrams (k_libc k) m b
    else map (heap_datagram (k_libc k) m b) [0 ..< sb_len b])"
  obtain n w1 where s: "k_sendmmsg k fd msgs (of_nat (sb_len b)) w = (n, w1)" by (metis surj_pair)
  note c = linux_send_call [OF assms(2,3) \<open>0 < sb_len b\<close>, of k fd w, folded msgs_def, unfolded s Let_def]
  have "fallback_try_send_batch k fd m b w1 \<noteq> Returns (Inl e, w')"
    using fallback_send_log [OF assms(1-3), of fd w1] assms(5) by auto
  then have "w' = w1 \<and> n < 0 \<and> e = last_os_error k w1"
    using assms(4) unfolding c linux_fallback_send_eq by (auto split: if_splits)
  with s show ?thesis by blast
qed

interpretation linux_prefix: prefix_backend linux_try_send_batch count_contract
  "\<lambda>b. sb_len b \<le> MAX_STACK \<or> dests_first b" log_contract
  by unfold_locales (rule linux_send_log)

section \<open>Properties\<close>



text \<open>The first entry with a destination, behind at least one without, is given the storage of
  entry 0, which holds no address.\<close>

lemma heap_misnamed:
  assumes "sb_inv b" and "0 < j" and "j < sb_len b"
    and "\<forall>i < j. snd (sb_entries b ! i) = None" and "snd (sb_entries b ! j) = Some a"
  shows "tx_name (heap_datagram c m b j) =
     Some (zeroed_storage c, snd (encode_sockaddr c a (zeroed_storage c)))"
proof -
  have "rank b j = 0"
    using assms(1,3,4) unfolding rank_def
    by (auto simp: in_set_conv_nth length_sb_entries filter_empty_conv) (metis snd_conv)
  moreover have "snd (sb_entries b ! 0) = None" using assms(2,4) by simp
  ultimately show ?thesis
    using assms(3,5) by (simp add: heap_datagram_def heap_storage_def heap_header_def)
qed


text \<open>A batch of \<open>n\<close> entries of which only the second has a destination.\<close>

definition mixed_batch :: "nat \<Rightarrow> SocketAddr \<Rightarrow> SendBatchRaw" where
  "mixed_batch n a =
     \<lparr>sb_slots = map (\<lambda>i. \<lparr>data_ptr = i, data_len = 1, slot_addr = (if i = 1 then Some a else None)\<rparr>) [0 ..< n],
      sb_cap = n, sb_len = n\<rparr>"

lemma mixed_batch_ok: "sb_inv (mixed_batch n a)" "sb_readable (\<lambda>a. Some (of_nat a)) (mixed_batch n a)"
  by (simp_all add: mixed_batch_def sb_inv_def sb_readable_def sb_entries_def list_all_iff read_mem_def)

lemma loopback_sendmmsg_all:
  assumes "w_mmsg w" and "length msgs \<le> w_budget w" and "0 < length msgs" and "length msgs \<le> unat vlen"
  shows "loopback_sendmmsg c msgs vlen w = (int (length msgs), accept msgs w)"
  using assms by (simp add: loopback_sendmmsg_def min_absorb2 min_absorb1)

text \<open>On the loopback kernel, modified to answer every failure with \<^verbatim>\<open>EAGAIN\<close>.\<close>

definition mmsg_kernel :: "world kernel" where
  "mmsg_kernel = (loopback linux_libc)\<lparr>k_errno := \<lambda>_. 11\<rparr>"

lemma mmsg_kernel_log: "log_contract mmsg_kernel w_sent"
  using loopback_log [of linux_libc] by (simp add: log_contract_def mmsg_kernel_def)

lemma mixed_batch_send:
  assumes "MAX_STACK < n" and "n \<le> 1000"
  shows "\<exists>w'. linux_try_send_batch mmsg_kernel 3 (\<lambda>a. Some (of_nat a)) (mixed_batch n a) idle = Returns (Inr n, w')"
proof -
  let ?b = "mixed_batch n a" and ?m = "\<lambda>a. Some (of_nat a) :: u8 option"
  let ?ms = "map (heap_datagram linux_libc ?m ?b) [0 ..< n]"
  have n: "sb_len ?b = n" by (simp add: mixed_batch_def)
  have k: "k_libc mmsg_kernel = linux_libc"
    "k_sendmmsg mmsg_kernel fd ms l w = loopback_sendmmsg linux_libc ms l w" for fd ms l w
    by (simp_all add: mmsg_kernel_def loopback_def)
  have "loopback_sendmmsg linux_libc ?ms (of_nat n) idle = (int n, accept ?ms idle)"
    using loopback_sendmmsg_all [of idle ?ms "of_nat n"] assms unat_of_nat_u32 [of n]
    by (simp add: idle_def)
  then show ?thesis
    using linux_send_call [OF mixed_batch_ok, of n a mmsg_kernel 3 idle] assms(1)
    unfolding k n by (simp add: not_le [symmetric])
qed


end
