(* ===== verification/Linux_Recv.thy ===== *)
theory Linux_Recv
  imports Linux_Send
begin

text \<open>
  The receive side of \<^verbatim>\<open>platform/linux.rs\<close>: one \<^verbatim>\<open>recvmmsg\<close>, retried on \<^verbatim>\<open>EINTR\<close>, then a
  loop over the messages that records lengths and source addresses, walks the control
  messages and splits GRO-coalesced messages over several slots. The cargo features
  \<^verbatim>\<open>gro\<close>, \<^verbatim>\<open>timestamping\<close> and \<^verbatim>\<open>pktinfo\<close> are a parameter.
\<close>

record features =
  feat_gro :: bool
  feat_timestamping :: bool
  feat_pktinfo :: bool

definition CMSG_BUF_SIZE :: nat where
  "CMSG_BUF_SIZE = 256"

section \<open>retry_eintr\<close>

text \<open>
  The closure works on the message array and the outside world. The loop ends only when the
  kernel answers with something else than \<^verbatim>\<open>EINTR\<close>: not returning is \<open>None\<close>.
\<close>

partial_function (option) retry_eintr ::
    "'w kernel \<Rightarrow> ('m \<Rightarrow> 'w \<Rightarrow> int \<times> 'm \<times> 'w) \<Rightarrow> 'm \<Rightarrow> 'w \<Rightarrow> (int io_result \<times> 'm \<times> 'w) option" where
  "retry_eintr k f ms w =
     (let (n, ms', w') = f ms w in
      if 0 \<le> n then Some (Inr n, ms', w')
      else let err = last_os_error k w' in
        if kind (k_libc k) err = Interrupted then retry_eintr k f ms' w'
        else Some (Inl err, ms', w'))"

definition option_outcome :: "'a option \<Rightarrow> 'a outcome" where
  "option_outcome x = (case x of None \<Rightarrow> Diverges | Some y \<Rightarrow> Returns y)"

section \<open>The message array\<close>

definition rx_entry :: "libc \<Rightarrow> bytes \<Rightarrow> rx_msg" where
  "rx_entry c buf =
     \<lparr>rx_buf = buf, rx_name = zeroed_storage c, rx_namelen = of_nat (size_storage c),
      rx_controllen = CMSG_BUF_SIZE, rx_control = [], rx_len = 0\<rparr>"

definition zeroed_rx :: rx_msg where
  "zeroed_rx = \<lparr>rx_buf = [], rx_name = [], rx_namelen = 0, rx_controllen = 0, rx_control = [], rx_len = 0\<rparr>"

fun rx_stack_fill :: "libc \<Rightarrow> RecvBatchRaw \<Rightarrow> nat list \<Rightarrow> rx_msg list \<Rightarrow> rx_msg list outcome" where
  "rx_stack_fill c b [] msgs = Returns msgs"
| "rx_stack_fill c b (i # is) msgs =
     outcome_bind (RecvBatchRaw_buffer_mut b i) (\<lambda>(buf, _).
       outcome_bind (update_or_panic msgs i (\<lambda>_. rx_entry c buf)) (\<lambda>msgs'.
         rx_stack_fill c b is msgs'))"

fun rx_heap_fill :: "libc \<Rightarrow> RecvBatchRaw \<Rightarrow> nat list \<Rightarrow> rx_msg list \<Rightarrow> rx_msg list outcome" where
  "rx_heap_fill c b [] msgs = Returns msgs"
| "rx_heap_fill c b (i # is) msgs =
     outcome_bind (RecvBatchRaw_buffer_mut b i) (\<lambda>(buf, _).
       rx_heap_fill c b is (msgs @ [rx_entry c buf]))"

text \<open>The iovecs point into the slots: what the kernel wrote is in the batch at once.\<close>

definition sync_buffers :: "RecvBatchRaw \<Rightarrow> rx_msg list \<Rightarrow> RecvBatchRaw" where
  "sync_buffers b ms =
     b\<lparr>rb_slots := map2 (\<lambda>s r. s\<lparr>rs_buf := rx_buf r\<rparr>) (rb_slots b) ms @ drop (length ms) (rb_slots b)\<rparr>"

section \<open>Control messages\<close>

text \<open>The arms of the match, each under its feature.\<close>

definition is_gro_cmsg :: "features \<Rightarrow> libc \<Rightarrow> cmsg \<Rightarrow> bool" where
  "is_gro_cmsg f c ch \<longleftrightarrow> feat_gro f \<and> cmsg_level ch = IPPROTO_UDP c \<and> cmsg_type ch = UDP_GRO c"

definition is_ts_cmsg :: "features \<Rightarrow> libc \<Rightarrow> cmsg \<Rightarrow> bool" where
  "is_ts_cmsg f c ch \<longleftrightarrow>
     feat_timestamping f \<and> cmsg_level ch = SOL_SOCKET c \<and> cmsg_type ch = SCM_TIMESTAMPNS c"

definition is_v4_cmsg :: "features \<Rightarrow> libc \<Rightarrow> cmsg \<Rightarrow> bool" where
  "is_v4_cmsg f c ch \<longleftrightarrow> feat_pktinfo f \<and> cmsg_level ch = IPPROTO_IP c \<and> cmsg_type ch = IP_PKTINFO c"

definition is_v6_cmsg :: "features \<Rightarrow> libc \<Rightarrow> cmsg \<Rightarrow> bool" where
  "is_v6_cmsg f c ch \<longleftrightarrow> feat_pktinfo f \<and> cmsg_level ch = IPPROTO_IPV6 c \<and> cmsg_type ch = IPV6_PKTINFO c"

definition cmsg_step ::
    "features \<Rightarrow> libc \<Rightarrow> nat \<Rightarrow> cmsg \<Rightarrow> RecvBatchRaw \<times> u16 \<Rightarrow> (RecvBatchRaw \<times> u16) outcome" where
  "cmsg_step f c out_idx ch st =
     (let (b, gro_seg_size) = st in
      if is_gro_cmsg f c ch then Returns (b, as_u16 ch)
      else if is_ts_cmsg f c ch then
        outcome_bind (RecvBatchRaw_set_timestamp b out_idx
            (Some \<lparr>tv_sec = as_tv_sec ch, tv_nsec = as_tv_nsec ch\<rparr>))
          (\<lambda>b'. Returns (b', gro_seg_size))
      else if is_v4_cmsg f c ch then
        outcome_bind (RecvBatchRaw_set_dst_addr b out_idx
            (Some (V4 (v4_from_u32 (from_be32 (little_endian c) (as_ipi_addr ch))) 0)))
          (\<lambda>b'. Returns (b', gro_seg_size))
      else if is_v6_cmsg f c ch then
        outcome_bind (RecvBatchRaw_set_dst_addr b out_idx
            (Some (V6 (Ipv6Addr (as_ipi6_addr ch)) 0 0 0)))
          (\<lambda>b'. Returns (b', gro_seg_size))
      else Returns (b, gro_seg_size))"

fun cmsg_walk ::
    "features \<Rightarrow> libc \<Rightarrow> nat \<Rightarrow> cmsg list \<Rightarrow> RecvBatchRaw \<times> u16 \<Rightarrow> (RecvBatchRaw \<times> u16) outcome" where
  "cmsg_walk f c out_idx [] st = Returns st"
| "cmsg_walk f c out_idx (ch # chs) st =
     outcome_bind (cmsg_step f c out_idx ch st) (cmsg_walk f c out_idx chs)"

section \<open>Splitting a coalesced message\<close>

text \<open>Timestamp and destination of the first slot go to the next one.\<close>

definition gro_meta :: "features \<Rightarrow> nat \<Rightarrow> nat \<Rightarrow> RecvBatchRaw \<Rightarrow> RecvBatchRaw outcome" where
  "gro_meta f first_idx next_idx b =
     outcome_bind
       (if feat_timestamping f
        then outcome_bind (RecvBatchRaw_timestamp b first_idx) (RecvBatchRaw_set_timestamp b next_idx)
        else Returns b) (\<lambda>b1.
     if feat_pktinfo f
     then outcome_bind (RecvBatchRaw_dst_addr b1 first_idx) (RecvBatchRaw_set_dst_addr b1 next_idx)
     else Returns b1)"

text \<open>One segment after the first, into the next slot.\<close>

definition gro_copy ::
    "features \<Rightarrow> bytes \<Rightarrow> nat \<Rightarrow> nat \<Rightarrow> SocketAddr \<Rightarrow> RecvBatchRaw \<Rightarrow> RecvBatchRaw outcome" where
  "gro_copy f seg first_idx next_idx decoded_addr b =
     outcome_bind (RecvBatchRaw_buffer_mut b next_idx) (\<lambda>(dst_buf, _).
       outcome_bind (prefix_or_panic dst_buf (length seg)) (\<lambda>_.
       outcome_bind (write_buffer b next_idx (put_bytes dst_buf 0 seg)) (\<lambda>b1.
       outcome_bind (RecvBatchRaw_set_recv_len b1 next_idx (length seg)) (\<lambda>b2.
       outcome_bind (write_addr b2 next_idx decoded_addr) (gro_meta f first_idx next_idx)))))"

text \<open>
  The loop over the segments. It is entered with a positive segment size only; the first
  equation is for the other, unreachable, case.
\<close>

function gro_split ::
    "features \<Rightarrow> bytes \<Rightarrow> nat \<Rightarrow> nat \<Rightarrow> SocketAddr \<Rightarrow> nat \<Rightarrow> nat \<Rightarrow> RecvBatchRaw \<Rightarrow> (RecvBatchRaw \<times> nat) outcome" where
  "gro_split f coalesced gro_seg_size first_idx decoded_addr seg_count offset b =
     (if gro_seg_size = 0 then Diverges
      else if offset < length coalesced then
        let seg_end = min (offset + gro_seg_size) (length coalesced);
            seg_len = seg_end - offset
        in if seg_count = 0 then
             outcome_bind (RecvBatchRaw_set_recv_len b first_idx seg_len) (\<lambda>b'.
               gro_split f coalesced gro_seg_size first_idx decoded_addr (seg_count + 1) seg_end b')
           else
             let next_idx = first_idx + seg_count in
             if next_idx \<ge> RecvBatchRaw_capacity b then Returns (b, seg_count)
             else outcome_bind (gro_copy f (take seg_len (drop offset coalesced)) first_idx next_idx decoded_addr b)
               (\<lambda>b'. gro_split f coalesced gro_seg_size first_idx decoded_addr (seg_count + 1) seg_end b')
      else Returns (b, seg_count))"
  by pat_completeness auto
termination
  by (relation "measure (\<lambda>(f, coalesced, seg, first, a, cnt, offset, b). length coalesced - offset)") auto

declare gro_split.simps [simp del]

section \<open>The loop over the messages\<close>

text \<open>The body, for one message; the second component is \<^verbatim>\<open>out_idx\<close> after it.\<close>

definition recv_one ::
    "features \<Rightarrow> libc \<Rightarrow> rx_msg \<Rightarrow> nat \<Rightarrow> RecvBatchRaw \<Rightarrow> (RecvBatchRaw \<times> nat) outcome" where
  "recv_one f c r out_idx b =
     (let recv_len = unat (rx_len r) in
      outcome_bind (RecvBatchRaw_set_recv_len b out_idx recv_len) (\<lambda>b1.
        let decoded_addr = decode_sockaddr c (rx_name r) (rx_namelen r) in
        outcome_bind (write_addr b1 out_idx decoded_addr) (\<lambda>b2.
          if feat_gro f \<or> feat_timestamping f \<or> feat_pktinfo f then
            outcome_bind (cmsg_walk f c out_idx (rx_control r) (b2, 0)) (\<lambda>(b3, gro_seg_size).
              if feat_gro f \<and> 0 < gro_seg_size then
                let total_len = unat (rx_len r) in
                outcome_bind (RecvBatchRaw_buffer_mut b3 out_idx) (\<lambda>(buf, _).
                outcome_bind (prefix_or_panic buf total_len) (\<lambda>coalesced.
                outcome_bind (gro_split f coalesced (unat gro_seg_size) out_idx decoded_addr 0 0 b3)
                  (\<lambda>(b4, seg_count). Returns (b4, out_idx + seg_count))))
              else Returns (b3, out_idx + 1))
          else Returns (b2, out_idx + 1))))"

fun recv_msgs ::
    "features \<Rightarrow> libc \<Rightarrow> rx_msg list \<Rightarrow> nat list \<Rightarrow> nat \<Rightarrow> RecvBatchRaw \<Rightarrow> (RecvBatchRaw \<times> nat) outcome" where
  "recv_msgs f c msgs [] out_idx b = Returns (b, out_idx)"
| "recv_msgs f c msgs (i # is) out_idx b =
     outcome_bind (index_or_panic msgs i) (\<lambda>r.
       outcome_bind (recv_one f c r out_idx b) (\<lambda>(b', out_idx').
         recv_msgs f c msgs is out_idx' b'))"

section \<open>try_recv_batch\<close>

definition linux_fallback_recv ::
    "'w kernel \<Rightarrow> fd \<Rightarrow> RecvBatchRaw \<Rightarrow> 'w \<Rightarrow> (nat io_result \<times> RecvBatchRaw \<times> 'w) outcome" where
  "linux_fallback_recv k fd b w = recv_loop k fd [0 ..< RecvBatchRaw_capacity b] 0 b w"

text \<open>From the call on, the lines are the same on both paths. The kernel is shown the first
  \<^verbatim>\<open>capacity\<close> entries of the array, those it may touch.\<close>

definition call_recvmmsg ::
    "features \<Rightarrow> 'w kernel \<Rightarrow> fd \<Rightarrow> RecvBatchRaw \<Rightarrow> rx_msg list \<Rightarrow> 'w
       \<Rightarrow> (nat io_result \<times> RecvBatchRaw \<times> 'w) outcome" where
  "call_recvmmsg f k fd b msgs w =
     (let c = k_libc k; capacity = RecvBatchRaw_capacity b in
      outcome_bind (option_outcome
          (retry_eintr k (\<lambda>ms. k_recvmmsg k fd ms (of_nat capacity)) msgs w)) (\<lambda>(received, ms, w').
        let b1 = sync_buffers b ms in
        case received of
          Inl e \<Rightarrow> if raw_os_error e = Some (ENOSYS c) then linux_fallback_recv k fd b1 w'
                  else Returns (Inl e, b1, w')
        | Inr received \<Rightarrow>
            outcome_bind (recv_msgs f c ms [0 ..< nat received] 0 b1) (\<lambda>(b2, out_idx).
              Returns (Inr out_idx, RecvBatchRaw_set_len b2 out_idx, w'))))"

definition linux_recv_stack ::
    "features \<Rightarrow> 'w kernel \<Rightarrow> fd \<Rightarrow> RecvBatchRaw \<Rightarrow> 'w \<Rightarrow> (nat io_result \<times> RecvBatchRaw \<times> 'w) outcome" where
  "linux_recv_stack f k fd b w =
     (let capacity = RecvBatchRaw_capacity b in
      outcome_bind (rx_stack_fill (k_libc k) b [0 ..< capacity] (replicate MAX_STACK zeroed_rx)) (\<lambda>msgs.
        call_recvmmsg f k fd b (take capacity msgs) w))"

definition linux_recv_heap ::
    "features \<Rightarrow> 'w kernel \<Rightarrow> fd \<Rightarrow> RecvBatchRaw \<Rightarrow> 'w \<Rightarrow> (nat io_result \<times> RecvBatchRaw \<times> 'w) outcome" where
  "linux_recv_heap f k fd b w =
     (let capacity = RecvBatchRaw_capacity b in
      outcome_bind (rx_heap_fill (k_libc k) b [0 ..< capacity] []) (\<lambda>msgs.
        call_recvmmsg f k fd b msgs w))"

definition linux_try_recv_batch ::
    "features \<Rightarrow> 'w kernel \<Rightarrow> fd \<Rightarrow> RecvBatchRaw \<Rightarrow> 'w \<Rightarrow> (nat io_result \<times> RecvBatchRaw \<times> 'w) outcome" where
  "linux_try_recv_batch f k fd b w =
     (let capacity = RecvBatchRaw_capacity b in
      if capacity = 0 then Returns (Inr 0, b, w)
      else if capacity \<le> MAX_STACK then linux_recv_stack f k fd b w
      else linux_recv_heap f k fd b w)"

section \<open>retry_eintr ends when the kernel answers\<close>

text \<open>The kernel answers, possibly after interrupting a number of calls.\<close>

inductive answers :: "'w kernel \<Rightarrow> ('m \<Rightarrow> 'w \<Rightarrow> int \<times> 'm \<times> 'w) \<Rightarrow> 'm \<Rightarrow> 'w \<Rightarrow> bool" for k f where
  now: "f ms w = (n, ms', w') \<Longrightarrow> 0 \<le> n \<or> kind (k_libc k) (last_os_error k w') \<noteq> Interrupted \<Longrightarrow>
    answers k f ms w"
| later: "f ms w = (n, ms', w') \<Longrightarrow> n < 0 \<Longrightarrow> kind (k_libc k) (last_os_error k w') = Interrupted \<Longrightarrow>
    answers k f ms' w' \<Longrightarrow> answers k f ms w"

lemma answers_retry: "answers k f ms w \<Longrightarrow> \<exists>r. retry_eintr k f ms w = Some r"
  by (induction rule: answers.induct; subst retry_eintr.simps) (auto simp: Let_def)

lemma retry_answers: "retry_eintr k f ms w = Some r \<Longrightarrow> answers k f ms w"
proof (erule retry_eintr.raw_induct [where P = "\<lambda>k f ms w r. answers k f ms w", rotated])
  fix g k f ms w r
  assume ih: "\<And>k f ms w r. g k f ms w = Some r \<Longrightarrow> answers k f ms w"
    and g: "(let (n, ms', w') = f ms w in
      if 0 \<le> n then Some (Inr n, ms', w')
      else let err = last_os_error k w' in
        if kind (k_libc k) err = Interrupted then g k f ms' w' else Some (Inl err, ms', w')) = Some r"
  obtain n ms' w' where f: "f ms w = (n, ms', w')" by (metis surj_pair)
  show "answers k f ms w"
  proof (cases "0 \<le> n \<or> kind (k_libc k) (last_os_error k w') \<noteq> Interrupted")
    case True
    with f show ?thesis by (rule answers.now)
  next
    case False
    with g f have "g k f ms' w' = Some r" by (simp add: Let_def)
    from answers.later [OF f _ _ ih [OF this]] False show ?thesis by simp
  qed
qed

lemma retry_answer:
  assumes "f ms w = (n, ms', w')" and "0 \<le> n \<or> kind (k_libc k) (last_os_error k w') \<noteq> Interrupted"
  shows "retry_eintr k f ms w = Some (if 0 \<le> n then Inr n else Inl (last_os_error k w'), ms', w')"
  using assms by (auto simp: retry_eintr.simps Let_def)

section \<open>The two ways to fill the message array agree\<close>

definition rx_init :: "libc \<Rightarrow> RecvBatchRaw \<Rightarrow> rx_msg list" where
  "rx_init c b = map (\<lambda>s. rx_entry c (rs_buf s)) (rb_slots b)"

lemma length_rx_init [simp]: "length (rx_init c b) = length (rb_slots b)"
  by (simp add: rx_init_def)

lemma rx_stack_fill_result:
  assumes "is = [i ..< length (rb_slots b)]" and "length (rb_slots b) \<le> length msgs"
    and "take i msgs = take i (rx_init c b)" and "i \<le> length (rb_slots b)"
  shows "\<exists>msgs'. rx_stack_fill c b is msgs = Returns msgs' \<and>
     take (length (rb_slots b)) msgs' = rx_init c b"
  using assms
proof (induction "is" arbitrary: i msgs)
  case Nil
  then have "i = length (rb_slots b)" using Nil.prems(1) [symmetric] by (auto simp: upt_eq_Nil_conv)
  with Nil show ?case by simp
next
  case (Cons j js)
  have j: "j = i" "i < length (rb_slots b)" and js: "js = [Suc i ..< length (rb_slots b)]"
    using Cons.prems(1) [symmetric] by (auto simp: upt_eq_Cons_conv)
  let ?m = "msgs[i := rx_entry c (rs_buf (rb_slots b ! i))]"
  have "take (Suc i) ?m = take (Suc i) (rx_init c b)"
    using Cons.prems(2,3) j(2) by (simp add: take_Suc_conv_app_nth rx_init_def)
  with Cons.IH [OF js, of ?m] Cons.prems(2) j show ?case
    by (simp add: slot_reads update_or_panic_def)
qed

lemma rx_heap_fill_result:
  assumes "is = [i ..< length (rb_slots b)]" and "msgs = take i (rx_init c b)" and "i \<le> length (rb_slots b)"
  shows "rx_heap_fill c b is msgs = Returns (rx_init c b)"
  using assms
proof (induction "is" arbitrary: i msgs)
  case Nil
  then have "i = length (rb_slots b)" using Nil.prems(1) [symmetric] by (auto simp: upt_eq_Nil_conv)
  with Nil show ?case by simp
next
  case (Cons j js)
  have j: "j = i" "i < length (rb_slots b)" and js: "js = [Suc i ..< length (rb_slots b)]"
    using Cons.prems(1) [symmetric] by (auto simp: upt_eq_Cons_conv)
  have "msgs @ [rx_entry c (rs_buf (rb_slots b ! i))] = take (Suc i) (rx_init c b)"
    using Cons.prems(2) j(2) by (simp add: take_Suc_conv_app_nth rx_init_def)
  with Cons.IH [OF js] j show ?case by (simp add: slot_reads)
qed

lemma linux_recv_paths:
  "length (rb_slots b) \<le> MAX_STACK \<Longrightarrow>
     linux_recv_stack f k fd b w = call_recvmmsg f k fd b (rx_init (k_libc k) b) w"
  "linux_recv_heap f k fd b w = call_recvmmsg f k fd b (rx_init (k_libc k) b) w"
  using rx_stack_fill_result [of _ 0 b "replicate MAX_STACK zeroed_rx" "k_libc k"]
    rx_heap_fill_result [of _ 0 b "[]" "k_libc k"]
  by (auto simp: linux_recv_stack_def linux_recv_heap_def RecvBatchRaw_capacity_def)

lemma linux_recv_call:
  "0 < RecvBatchRaw_capacity b \<Longrightarrow>
     linux_try_recv_batch f k fd b w = call_recvmmsg f k fd b (rx_init (k_libc k) b) w"
  by (simp add: linux_try_recv_batch_def linux_recv_paths RecvBatchRaw_capacity_def)

section \<open>What the receive keeps\<close>

definition same_shape :: "nat \<Rightarrow> RecvBatchRaw \<Rightarrow> RecvBatchRaw \<Rightarrow> bool" where
  "same_shape n b b' \<longleftrightarrow> rb_inv n b' \<and> length (rb_slots b') = length (rb_slots b) \<and> rb_len b' = rb_len b"

lemma same_shape_refl: "rb_inv n b \<Longrightarrow> same_shape n b b"
  by (simp add: same_shape_def)

lemma same_shape_trans: "same_shape n a b \<Longrightarrow> same_shape n b c \<Longrightarrow> same_shape n a c"
  by (simp add: same_shape_def)

lemma same_shapeD: "same_shape n a b \<Longrightarrow> rb_inv n b"
  by (simp add: same_shape_def)

lemma on_slot_shape:
  assumes "rb_inv n b" and "on_slot b i g = Returns b'"
    and "\<And>s. length (rs_buf s) = n \<Longrightarrow> unat (rs_recv_len s) \<le> n \<Longrightarrow>
      length (rs_buf (g s)) = n \<and> unat (rs_recv_len (g s)) \<le> n"
  shows "same_shape n b b' \<and> i < length (rb_slots b)"
  using rb_inv_on_slot [OF assms] assms(2) by (auto simp: same_shape_def outcome_simps)

lemma op_shapes:
  assumes "rb_inv n b"
  shows "RecvBatchRaw_set_timestamp b i ts = Returns b' \<Longrightarrow> same_shape n b b'"
    and "RecvBatchRaw_set_dst_addr b i d = Returns b' \<Longrightarrow> same_shape n b b'"
    and "write_addr b i a = Returns b' \<Longrightarrow> same_shape n b b'"
    and "write_buffer b i bs = Returns b' \<Longrightarrow> length bs = n \<Longrightarrow> same_shape n b b'"
    and "RecvBatchRaw_set_recv_len b i l = Returns b' \<Longrightarrow> l \<le> n \<Longrightarrow>
      same_shape n b b' \<and> i < length (rb_slots b)"
  unfolding slot_ops
  by (auto dest!: on_slot_shape [OF assms] simp: unat_of_nat_le)

lemma cmsg_walk_shape:
  "rb_inv n b \<Longrightarrow> cmsg_walk f c i chs (b, g) = Returns (b', g') \<Longrightarrow> same_shape n b b'"
proof (induction chs arbitrary: b g)
  case Nil
  then show ?case by (simp add: same_shape_def)
next
  case (Cons ch chs)
  from Cons.prems(2) obtain b1 g1 where s: "cmsg_step f c i ch (b, g) = Returns (b1, g1)"
    and w: "cmsg_walk f c i chs (b1, g1) = Returns (b', g')"
    by (auto simp: outcome_simps)
  from s Cons.prems(1) have "same_shape n b b1"
    by (auto simp: cmsg_step_def Let_def outcome_simps
        intro: same_shape_refl op_shapes [OF Cons.prems(1)] split: if_split_asm)
  with Cons.IH [OF same_shapeD w] show ?case by (blast intro: same_shape_trans)
qed

lemma length_put_prefix: "length ys \<le> length xs \<Longrightarrow> length (put_bytes xs 0 ys) = length xs"
  by (simp add: put_bytes_def)

lemma gro_meta_shape:
  assumes "rb_inv n b" and "gro_meta f first nxt b = Returns b'"
  shows "same_shape n b b'"
proof -
  from assms(2) obtain b1 where
    b1: "(if feat_timestamping f
        then outcome_bind (RecvBatchRaw_timestamp b first) (RecvBatchRaw_set_timestamp b nxt)
        else Returns b) = Returns b1"
    and b': "(if feat_pktinfo f
        then outcome_bind (RecvBatchRaw_dst_addr b1 first) (RecvBatchRaw_set_dst_addr b1 nxt)
        else Returns b1) = Returns b'"
    unfolding gro_meta_def by (rule outcome_bind_ReturnsE)
  from b1 assms(1) have s: "same_shape n b b1"
    by (auto simp: outcome_simps intro: same_shape_refl op_shapes(1) split: if_split_asm)
  moreover from b' same_shapeD [OF s] have "same_shape n b1 b'"
    by (auto simp: outcome_simps intro: same_shape_refl op_shapes(2) split: if_split_asm)
  ultimately show ?thesis by (rule same_shape_trans)
qed

lemma gro_copy_shape:
  assumes "rb_inv n b" and "gro_copy f seg first nxt a b = Returns b'"
  shows "same_shape n b b' \<and> nxt < length (rb_slots b)"
proof -
  from assms(2) obtain b1 b2 b3 where
    nxt: "nxt < length (rb_slots b)" and seg: "length seg \<le> length (rs_buf (rb_slots b ! nxt))"
    and b1: "write_buffer b nxt (put_bytes (rs_buf (rb_slots b ! nxt)) 0 seg) = Returns b1"
    and b2: "RecvBatchRaw_set_recv_len b1 nxt (length seg) = Returns b2"
    and b3: "write_addr b2 nxt a = Returns b3" and b': "gro_meta f first nxt b3 = Returns b'"
    unfolding gro_copy_def RecvBatchRaw_buffer_mut_def by (auto simp: outcome_simps)
  have len: "length (rs_buf (rb_slots b ! nxt)) = n"
    using assms(1) nxt by (simp add: rb_inv_def list_all_length)
  have s1: "same_shape n b b1"
    using op_shapes(4) [OF assms(1) b1] seg len by (simp add: length_put_prefix)
  have s2: "same_shape n b1 b2"
    using op_shapes(5) [OF same_shapeD [OF s1] b2] seg len by simp
  have s3: "same_shape n b2 b3"
    by (rule op_shapes(3) [OF same_shapeD [OF s2] b3])
  have s4: "same_shape n b3 b'"
    by (rule gro_meta_shape [OF same_shapeD [OF s3] b'])
  from s1 s2 s3 s4 nxt show ?thesis by (blast intro: same_shape_trans)
qed

lemma gro_split_shape:
  assumes "rb_inv n b" and "length coalesced \<le> n" and "first + cnt \<le> length (rb_slots b)"
    and "gro_split f coalesced seg first a cnt offset b = Returns (b', cnt')"
  shows "same_shape n b b' \<and> first + cnt' \<le> length (rb_slots b)"
  using assms
proof (induction f coalesced seg first a cnt offset b rule: gro_split.induct)
  case (1 f coalesced seg first a cnt offset b)
  let ?e = "min (offset + seg) (length coalesced)"
  note r = 1(6) [unfolded gro_split.simps [of f coalesced seg first a cnt offset b]]
  consider "length coalesced \<le> offset" | "offset < length coalesced" "cnt = 0"
    | "offset < length coalesced" "cnt \<noteq> 0" "length (rb_slots b) \<le> first + cnt"
    | "offset < length coalesced" "cnt \<noteq> 0" "first + cnt < length (rb_slots b)"
    by linarith
  then show ?case
  proof cases
    case 2
    with r obtain b1 where b1: "RecvBatchRaw_set_recv_len b first (?e - offset) = Returns b1"
      and g: "seg \<noteq> 0" "gro_split f coalesced seg first a 1 ?e b1 = Returns (b', cnt')"
      by (auto simp: Let_def outcome_simps split: if_split_asm)
    have s1: "same_shape n b b1 \<and> first < length (rb_slots b)"
      using op_shapes(5) [OF 1(3) b1] 1(4) by simp
    with 1(1) [OF g(1) 2(1) refl refl 2(2), of b1] b1 g 1(4) 2 show ?thesis
      by (auto simp: same_shape_def)
  next
    case 4
    with r obtain b1 where
      b1: "gro_copy f (take (?e - offset) (drop offset coalesced)) first (first + cnt) a b = Returns b1"
      and g: "seg \<noteq> 0" "gro_split f coalesced seg first a (cnt + 1) ?e b1 = Returns (b', cnt')"
      by (auto simp: Let_def outcome_simps RecvBatchRaw_capacity_def split: if_split_asm)
    from gro_copy_shape [OF 1(3) b1] have s1: "same_shape n b b1" by simp
    with 1(2) [OF g(1) 4(1) refl refl 4(2) refl, of b1] b1 g 1(4) 4 show ?thesis
      by (auto simp: same_shape_def RecvBatchRaw_capacity_def)
  qed (use r 1(3,5) in \<open>auto simp: Let_def RecvBatchRaw_capacity_def intro: same_shape_refl split: if_split_asm\<close>)
qed

lemma recv_one_shape:
  assumes "rb_inv n b" and "unat (rx_len r) \<le> n" and "recv_one f c r out b = Returns (b', out')"
  shows "same_shape n b b' \<and> out' \<le> length (rb_slots b)"
proof -
  let ?a = "decode_sockaddr c (rx_name r) (rx_namelen r)"
  from assms(3) obtain b1 b2 where
    b1: "RecvBatchRaw_set_recv_len b out (unat (rx_len r)) = Returns b1"
    and b2: "write_addr b1 out ?a = Returns b2"
    unfolding recv_one_def Let_def by (auto elim!: outcome_bind_ReturnsE)
  have s1: "same_shape n b b1" and out: "out < length (rb_slots b)"
    using op_shapes(5) [OF assms(1) b1 assms(2)] by simp_all
  have s2: "same_shape n b b2"
    by (rule same_shape_trans [OF s1 op_shapes(3) [OF same_shapeD [OF s1] b2]])
  show ?thesis
  proof (cases "feat_gro f \<or> feat_timestamping f \<or> feat_pktinfo f")
    case False
    with assms(3) b1 b2 s2 out show ?thesis by (simp add: recv_one_def)
  next
    case True
    with assms(3) b1 b2 obtain b3 g where w: "cmsg_walk f c out (rx_control r) (b2, 0) = Returns (b3, g)"
      by (auto simp: recv_one_def Let_def outcome_simps)
    have s3: "same_shape n b b3"
      by (rule same_shape_trans [OF s2 cmsg_walk_shape [OF same_shapeD [OF s2] w]])
    show ?thesis
    proof (cases "feat_gro f \<and> 0 < g")
      case False
      with assms(3) b1 b2 w True s3 out show ?thesis by (simp add: recv_one_def)
    next
      case gro: True
      with assms(3) b1 b2 w obtain coalesced cnt where
        co: "coalesced = take (unat (rx_len r)) (rs_buf (rb_slots b3 ! out))"
        and sp: "gro_split f coalesced (unat g) out ?a 0 0 b3 = Returns (b', cnt)" and o: "out' = out + cnt"
        by (auto simp: recv_one_def Let_def outcome_simps RecvBatchRaw_buffer_mut_def)
      have "length coalesced \<le> n" using co assms(2) by simp
      from gro_split_shape [OF same_shapeD [OF s3] this _ sp] out s3 o show ?thesis
        by (auto simp: same_shape_def)
    qed
  qed
qed

lemma recv_msgs_shape:
  assumes "rb_inv n b" and "out \<le> length (rb_slots b)"
    and "\<forall>i \<in> set is. unat (rx_len (msgs ! i)) \<le> n"
    and "recv_msgs f c msgs is out b = Returns (b', out')"
  shows "same_shape n b b' \<and> out' \<le> length (rb_slots b)"
  using assms
proof (induction "is" arbitrary: out b)
  case Nil
  then show ?case by (auto intro: same_shape_refl)
next
  case (Cons i rest)
  from Cons.prems(4) obtain b1 out1 where one: "recv_one f c (msgs ! i) out b = Returns (b1, out1)"
    and more: "recv_msgs f c msgs rest out1 b1 = Returns (b', out')"
    by (auto simp: outcome_simps)
  have s: "same_shape n b b1 \<and> out1 \<le> length (rb_slots b)"
    using recv_one_shape [OF Cons.prems(1) _ one] Cons.prems(3) by simp
  with Cons.IH [OF _ _ _ more] Cons.prems(3) show ?case
    by (auto simp: same_shape_def)
qed

lemma sync_buffers_inv:
  assumes "rb_inv n b" and "length ms = length (rb_slots b)" and "\<forall>i < length ms. length (rx_buf (ms ! i)) = n"
  shows "rb_inv n (sync_buffers b ms)" and "length (rb_slots (sync_buffers b ms)) = length (rb_slots b)"
    and "rb_len (sync_buffers b ms) = rb_len b"
    and "i < length (rb_slots b) \<Longrightarrow>
      rb_slots (sync_buffers b ms) ! i = (rb_slots b ! i)\<lparr>rs_buf := rx_buf (ms ! i)\<rparr>"
  using assms by (auto simp: sync_buffers_def rb_inv_def list_all_length)

text \<open>However often it is interrupted, the call keeps the array's shape.\<close>

lemma retry_keeps:
  assumes "recv_contract k" and "retry_eintr k (\<lambda>ms. k_recvmmsg k fd ms vlen) ms w = Some (r, ms', w')"
    and "\<forall>i < length ms. length (rx_buf (ms ! i)) = n"
  shows "length ms' = length ms \<and> (\<forall>i < length ms. length (rx_buf (ms' ! i)) = n) \<and>
     (\<forall>j. r = Inr j \<longrightarrow> nat j \<le> unat vlen \<and> (\<forall>i < nat j. unat (rx_len (ms' ! i)) \<le> length (rx_buf (ms' ! i))))"
  using retry_answers [OF assms(2)] assms(2,3)
proof (induction rule: answers.induct)
  case (now ms w m ms1 w1)
  note c = recv_contract_recvmmsg [OF assms(1) now(1)]
  from retry_answer [of "\<lambda>ms. k_recvmmsg k fd ms vlen", OF now(1,2)] now(3) have "ms1 = ms'" "r = Inr j \<Longrightarrow> j = m" for j
    by (auto split: if_splits)
  with c now(4) show ?case by (auto dest: nat_le_unat)
next
  case (later ms w m ms1 w1)
  note c = recv_contract_recvmmsg [OF assms(1) later(1)]
  have "\<not> 0 \<le> m" using later(2) by simp
  then have "retry_eintr k (\<lambda>ms. k_recvmmsg k fd ms vlen) ms1 w1 = Some (r, ms', w')"
    using later(6) by (subst (asm) retry_eintr.simps) (simp add: later(1,3) Let_def)
  with later(5,7) c show ?case by simp
qed

lemma call_recvmmsg_shape:
  assumes "recv_contract k" and "rb_inv n b"
    and "call_recvmmsg f k fd b (rx_init (k_libc k) b) w = Returns (r, b', w')"
  shows "rb_inv n b' \<and> length (rb_slots b') = length (rb_slots b) \<and>
     (\<forall>l. r = Inr l \<longrightarrow> 0 < l \<longrightarrow> rb_len b' = l)"
proof -
  let ?c = "k_libc k" and ?cap = "length (rb_slots b)"
  from assms(3) obtain rc ms w1 where
    rt: "retry_eintr k (\<lambda>ms. k_recvmmsg k fd ms (of_nat ?cap)) (rx_init ?c b) w = Some (rc, ms, w1)"
    by (auto simp: call_recvmmsg_def Let_def RecvBatchRaw_capacity_def option_outcome_def outcome_simps
        split: option.splits)
  have "\<forall>i < length (rx_init ?c b). length (rx_buf (rx_init ?c b ! i)) = n"
    using assms(2) by (simp add: rx_init_def rx_entry_def rb_inv_def list_all_length)
  note kp = retry_keeps [OF assms(1) rt this]
  let ?b1 = "sync_buffers b ms"
  have b1: "rb_inv n ?b1" "length (rb_slots ?b1) = ?cap"
    using sync_buffers_inv [OF assms(2)] kp by simp_all
  show ?thesis
  proof (cases rc)
    case (Inl e)
    show ?thesis
    proof (cases "raw_os_error e = Some (ENOSYS ?c)")
      case True
      with assms(3) rt Inl have "recv_loop k fd [0 ..< length (rb_slots ?b1)] 0 ?b1 w1 = Returns (r, b', w')"
        by (simp add: call_recvmmsg_def RecvBatchRaw_capacity_def option_outcome_def Let_def
            linux_fallback_recv_def)
      with recv_loop_inv [OF assms(1) b1(1) refl, of 0 fd w1] b1(2) show ?thesis by auto
    next
      case False
      with assms(3) rt Inl b1 show ?thesis
        by (auto simp: call_recvmmsg_def RecvBatchRaw_capacity_def option_outcome_def Let_def)
    qed
  next
    case (Inr j)
    with assms(3) rt obtain b2 out where
      m: "recv_msgs f ?c ms [0 ..< nat j] 0 ?b1 = Returns (b2, out)"
      and b': "r = Inr out" "b' = RecvBatchRaw_set_len b2 out"
      by (auto simp: call_recvmmsg_def RecvBatchRaw_capacity_def option_outcome_def Let_def outcome_simps)
    have "nat j \<le> ?cap"
      using kp Inr unat_of_nat_le [of ?cap ?cap] le_trans by blast
    then have "\<forall>i \<in> set [0 ..< nat j]. unat (rx_len (ms ! i)) \<le> n"
      using kp Inr by (auto simp: rx_init_def)
    from recv_msgs_shape [OF b1(1) _ this m] b1 b' show ?thesis
      by (auto simp: same_shape_def RecvBatchRaw_set_len_def rb_inv_def)
  qed
qed

interpretation linux_recv: recv_backend "linux_try_recv_batch f" recv_contract for f
proof unfold_locales
  fix k :: "'w kernel" and n b fd w r b' w'
  assume k: "recv_contract k" and b: "rb_inv n b"
    and r: "linux_try_recv_batch f k fd b w = Returns (r, b', w')"
  show "rb_inv n b' \<and> RecvBatchRaw_capacity b' = RecvBatchRaw_capacity b"
  proof (cases "RecvBatchRaw_capacity b = 0")
    case True
    with r b show ?thesis by (simp add: linux_try_recv_batch_def)
  next
    case False
    with r have "call_recvmmsg f k fd b (rx_init (k_libc k) b) w = Returns (r, b', w')"
      by (simp add: linux_recv_call)
    from call_recvmmsg_shape [OF k b this] show ?thesis by (simp add: RecvBatchRaw_capacity_def)
  qed
next
  fix k :: "'w kernel" and n b fd w l b' w'
  assume k: "recv_contract k" and b: "rb_inv n b" and l: "0 < l"
    and r: "linux_try_recv_batch f k fd b w = Returns (Inr l, b', w')"
  then have "RecvBatchRaw_capacity b \<noteq> 0" by (auto simp: linux_try_recv_batch_def Let_def split: if_splits)
  with r have "call_recvmmsg f k fd b (rx_init (k_libc k) b) w = Returns (Inr l, b', w')"
    by (simp add: linux_recv_call)
  from call_recvmmsg_shape [OF k b this] l show "RecvBatchRaw_len b' = l"
    by (simp add: RecvBatchRaw_len_def)
next
  fix b fd w and k :: "'w kernel"
  show "RecvBatchRaw_capacity b = 0 \<Longrightarrow> linux_try_recv_batch f k fd b w = Returns (Inr 0, b, w)"
    by (simp add: linux_try_recv_batch_def)
qed

section \<open>What the control messages do to a slot\<close>

definition cmsg_slot :: "features \<Rightarrow> libc \<Rightarrow> cmsg \<Rightarrow> RecvSlot \<Rightarrow> RecvSlot" where
  "cmsg_slot f c ch s =
     (if is_gro_cmsg f c ch then s
      else if is_ts_cmsg f c ch then s\<lparr>rs_timestamp := Some \<lparr>tv_sec = as_tv_sec ch, tv_nsec = as_tv_nsec ch\<rparr>\<rparr>
      else if is_v4_cmsg f c ch then
        s\<lparr>rs_dst_addr := Some (V4 (v4_from_u32 (from_be32 (little_endian c) (as_ipi_addr ch))) 0)\<rparr>
      else if is_v6_cmsg f c ch then s\<lparr>rs_dst_addr := Some (V6 (Ipv6Addr (as_ipi6_addr ch)) 0 0 0)\<rparr>
      else s)"

definition cmsg_seg :: "features \<Rightarrow> libc \<Rightarrow> cmsg \<Rightarrow> u16 \<Rightarrow> u16" where
  "cmsg_seg f c ch g = (if is_gro_cmsg f c ch then as_u16 ch else g)"

definition put_slot :: "RecvBatchRaw \<Rightarrow> nat \<Rightarrow> RecvSlot \<Rightarrow> RecvBatchRaw" where
  "put_slot b i s = b\<lparr>rb_slots := (rb_slots b)[i := s]\<rparr>"

lemma put_slot_simps [simp]:
  "length (rb_slots (put_slot b i s)) = length (rb_slots b)"
  "rb_len (put_slot b i s) = rb_len b"
  "i < length (rb_slots b) \<Longrightarrow> rb_slots (put_slot b i s) ! i = s"
  "j \<noteq> i \<Longrightarrow> rb_slots (put_slot b i s) ! j = rb_slots b ! j"
  "put_slot (put_slot b i s) i s' = put_slot b i s'"
  "put_slot b i (rb_slots b ! i) = b"
  by (simp_all add: put_slot_def)

lemma slot_op_put:
  assumes "i < length (rb_slots b)"
  shows "RecvBatchRaw_set_recv_len b i l = Returns (put_slot b i ((rb_slots b ! i)\<lparr>rs_recv_len := of_nat l\<rparr>))"
    "write_addr b i a = Returns (put_slot b i ((rb_slots b ! i)\<lparr>rs_addr := a\<rparr>))"
    "write_buffer b i bs = Returns (put_slot b i ((rb_slots b ! i)\<lparr>rs_buf := bs\<rparr>))"
    "RecvBatchRaw_set_timestamp b i ts = Returns (put_slot b i ((rb_slots b ! i)\<lparr>rs_timestamp := ts\<rparr>))"
    "RecvBatchRaw_set_dst_addr b i d = Returns (put_slot b i ((rb_slots b ! i)\<lparr>rs_dst_addr := d\<rparr>))"
  using assms by (simp_all add: slot_ops on_slot_in_range put_slot_def)

lemma cmsg_step_slot:
  assumes "i < length (rb_slots b)"
  shows "cmsg_step f c i ch (b, g) =
     Returns (put_slot b i (cmsg_slot f c ch (rb_slots b ! i)), cmsg_seg f c ch g)"
  using slot_op_put(4,5) [OF assms]
  by (simp add: cmsg_step_def cmsg_slot_def cmsg_seg_def)

lemma cmsg_walk_slot:
  "i < length (rb_slots b) \<Longrightarrow> cmsg_walk f c i chs (b, g) =
     Returns (put_slot b i (fold (cmsg_slot f c) chs (rb_slots b ! i)), fold (cmsg_seg f c) chs g)"
  by (induction chs arbitrary: b g) (simp_all add: cmsg_step_slot)

lemma cmsg_slot_keeps:
  "rs_buf (fold (cmsg_slot f c) chs s) = rs_buf s"
  "rs_recv_len (fold (cmsg_slot f c) chs s) = rs_recv_len s"
  "rs_addr (fold (cmsg_slot f c) chs s) = rs_addr s"
  by (induction chs arbitrary: s) (auto simp: cmsg_slot_def)

lemma cmsg_slot_timestamp:
  "\<forall>ch \<in> set chs. \<not> is_ts_cmsg f c ch \<Longrightarrow>
     rs_timestamp (fold (cmsg_slot f c) chs s) = rs_timestamp s"
  by (induction chs arbitrary: s) (auto simp: cmsg_slot_def)

lemma cmsg_seg_plain: "\<not> feat_gro f \<Longrightarrow> fold (cmsg_seg f c) chs g = g"
  by (induction chs arbitrary: g) (simp_all add: cmsg_seg_def is_gro_cmsg_def)

lemma cmsg_slot_none:
  "\<not> (feat_gro f \<or> feat_timestamping f \<or> feat_pktinfo f) \<Longrightarrow> fold (cmsg_slot f c) chs s = s"
  by (induction chs arbitrary: s) (simp_all add: cmsg_slot_def is_gro_cmsg_def is_ts_cmsg_def is_v4_cmsg_def is_v6_cmsg_def)

text \<open>A message without a segment size fills exactly its slot.\<close>

definition recv_slot :: "features \<Rightarrow> libc \<Rightarrow> rx_msg \<Rightarrow> RecvSlot \<Rightarrow> RecvSlot" where
  "recv_slot f c r s =
     fold (cmsg_slot f c) (rx_control r)
       (s\<lparr>rs_recv_len := of_nat (unat (rx_len r)), rs_addr := decode_sockaddr c (rx_name r) (rx_namelen r)\<rparr>)"

lemma recv_one_plain:
  assumes "i < length (rb_slots b)" and "fold (cmsg_seg f c) (rx_control r) 0 = 0"
  shows "recv_one f c r i b = Returns (put_slot b i (recv_slot f c r (rb_slots b ! i)), i + 1)"
  using assms
  by (simp add: recv_one_def Let_def slot_op_put cmsg_walk_slot recv_slot_def cmsg_slot_none)

lemma recv_msgs_plain:
  assumes "\<forall>m < j. fold (cmsg_seg f c) (rx_control (msgs ! m)) 0 = 0" and "is = [i ..< j]"
    and "j \<le> length (rb_slots b)" and "j \<le> length msgs" and "i \<le> j"
  shows "\<exists>b'. recv_msgs f c msgs is i b = Returns (b', j) \<and> rb_len b' = rb_len b \<and>
     length (rb_slots b') = length (rb_slots b) \<and>
     (\<forall>m. rb_slots b' ! m = (if i \<le> m \<and> m < j then recv_slot f c (msgs ! m) (rb_slots b ! m)
                            else rb_slots b ! m))"
  using assms(2-)
proof (induction "is" arbitrary: i b)
  case Nil
  then have "i = j" using Nil.prems(1) [symmetric] by (auto simp: upt_eq_Nil_conv)
  then show ?case by (intro exI [of _ b]) auto
next
  case (Cons l ls)
  have l: "l = i" "i < j" and ls: "ls = [Suc i ..< j]"
    using Cons.prems(1) [symmetric] by (auto simp: upt_eq_Cons_conv)
  let ?b = "put_slot b i (recv_slot f c (msgs ! i) (rb_slots b ! i))"
  have one: "recv_one f c (msgs ! i) i b = Returns (?b, Suc i)"
    using recv_one_plain [of i b f c "msgs ! i"] assms(1) l(2) Cons.prems(2) by simp
  have idx: "index_or_panic msgs i = Returns (msgs ! i)"
    using l(2) Cons.prems(3) by (simp add: index_or_panic_def)
  from Cons.IH [OF ls, of ?b] l Cons.prems obtain b' where
    ih: "recv_msgs f c msgs ls (Suc i) ?b = Returns (b', j)" "rb_len b' = rb_len b"
      "length (rb_slots b') = length (rb_slots b)"
      "\<forall>m. rb_slots b' ! m = (if Suc i \<le> m \<and> m < j then recv_slot f c (msgs ! m) (rb_slots ?b ! m)
                            else rb_slots ?b ! m)"
    by auto
  have "rb_slots b' ! m = (if i \<le> m \<and> m < j then recv_slot f c (msgs ! m) (rb_slots b ! m)
      else rb_slots b ! m)" for m
    using ih(4) l(2) Cons.prems(2) by (cases "m = i") auto
  with ih one idx l show ?case by simp
qed

section \<open>Without GRO the receive delivers the queue\<close>

lemma slot_packet_filled:
  assumes "libc_ok c" and "wf_addr (snd p)" and "length (fst p) < 65536" and "length buf = n"
    and "filled c p (rx_entry c buf) r"
  shows "slot_packet (recv_slot f c r (s\<lparr>rs_buf := rx_buf r\<rparr>)) = cut_to n p"
proof -
  let ?l = "min (length (fst p)) n"
  have "unat (rx_len r) = ?l"
    using assms(3-5) by (simp add: filled_def rx_entry_def unat_of_nat_u32)
  moreover have "?l mod 65536 = ?l" using assms(3) by (simp add: min_def)
  moreover have "decode_sockaddr c (rx_name r) (rx_namelen r) = snd p"
    using assms(5) by (intro decode_encode [OF assms(1,2)]) (auto simp: filled_def rx_entry_def)
  ultimately show ?thesis
    using assms(4,5)
    by (simp add: slot_packet_def recv_slot_def cmsg_slot_keeps cut_to_def unat_of_nat_u16 filled_def
        rx_entry_def)
qed

lemma linux_recv_delivers:
  assumes "\<not> feat_gro f" and "queue_contract k rxq" and "rb_inv n b"
    and "RecvBatchRaw_capacity b < 2 ^ 32" and "0 < RecvBatchRaw_capacity b" and "rxq w \<noteq> []"
  shows "\<exists>b' w'. linux_try_recv_batch f k fd b w =
       Returns (Inr (min (RecvBatchRaw_capacity b) (length (rxq w))), b', w') \<and>
     rxq w' = drop (RecvBatchRaw_capacity b) (rxq w) \<and>
     rb_packets b' = map (cut_to n) (take (RecvBatchRaw_capacity b) (rxq w))"
proof -
  let ?c = "k_libc k" and ?cap = "length (rb_slots b)" and ?q = "rxq w"
  let ?j = "min ?cap (length ?q)"
  have v: "unat (of_nat ?cap :: u32) = ?cap" "0 < ?cap"
    using assms(4,5) by (simp_all add: RecvBatchRaw_capacity_def unat_of_nat_u32)
  obtain m ms w1 where rm: "k_recvmmsg k fd (rx_init ?c b) (of_nat ?cap) w = (m, ms, w1)"
    by (metis surj_pair)
  from queue_contract_recvmmsg [OF assms(2) rm] v assms(6)
  have m: "m = int ?j" "length ms = ?cap" "rxq w1 = drop ?j ?q"
    and fl: "\<forall>i < ?j. filled ?c (?q ! i) (rx_init ?c b ! i) (ms ! i)"
    and un: "\<forall>i < ?cap. ?j \<le> i \<longrightarrow> ms ! i = rx_init ?c b ! i" by simp_all
  have rt: "retry_eintr k (\<lambda>ms. k_recvmmsg k fd ms (of_nat ?cap)) (rx_init ?c b) w = Some (Inr m, ms, w1)"
    using retry_answer [of "\<lambda>ms. k_recvmmsg k fd ms (of_nat ?cap)", OF rm, of k] m(1) by simp
  have bufs: "length (rs_buf (rb_slots b ! i)) = n" if "i < ?cap" for i
    using assms(3) that by (simp add: rb_inv_def list_all_length)
  have "length (rx_buf (ms ! i)) = n" if "i < ?cap" for i
    using fl un that bufs [OF that] by (cases "i < ?j") (auto simp: filled_def rx_init_def rx_entry_def)
  then have "\<forall>i < length ms. length (rx_buf (ms ! i)) = n" using m(2) by simp
  note sy = sync_buffers_inv(2,4) [OF assms(3) m(2) this]
  obtain b' where b': "recv_msgs f ?c ms [0 ..< ?j] 0 (sync_buffers b ms) = Returns (b', ?j)"
    "length (rb_slots b') = ?cap"
    "\<forall>i. rb_slots b' ! i = (if i < ?j then recv_slot f ?c (ms ! i) (rb_slots (sync_buffers b ms) ! i)
        else rb_slots (sync_buffers b ms) ! i)"
    using recv_msgs_plain [of ?j f ?c ms _ 0 "sync_buffers b ms"] cmsg_seg_plain [OF assms(1)] sy v m(2)
    by fastforce
  have "slot_packet (rb_slots b' ! i) = cut_to n (?q ! i)" if i: "i < ?j" for i
  proof -
    have "?q ! i \<in> set ?q" using i by simp
    note c = queue_contract_libc(1) [OF assms(2)] queue_contract_libc(4,3) [OF assms(2) this]
    show ?thesis
      using slot_packet_filled [OF c, of "rs_buf (rb_slots b ! i)" n "ms ! i" f "rb_slots b ! i"] fl b'(3) sy i bufs
      by (simp add: rx_init_def)
  qed
  then have "rb_packets (RecvBatchRaw_set_len b' ?j) = map (cut_to n) (take ?cap ?q)"
    using b'(2) by (intro nth_equalityI) (simp_all add: rb_packets_def RecvBatchRaw_set_len_def)
  with b'(1) rt m assms(5) show ?thesis
    by (auto simp: linux_recv_call call_recvmmsg_def RecvBatchRaw_capacity_def option_outcome_def min_def)
qed

lemma linux_recv_starved:
  assumes "queue_contract k rxq" and "RecvBatchRaw_capacity b < 2 ^ 32" and "0 < RecvBatchRaw_capacity b"
    and "rxq w = []"
  shows "\<exists>e b' w'. linux_try_recv_batch f k fd b w = Returns (Inl e, b', w') \<and> rxq w' = [] \<and>
     kind (k_libc k) e = WouldBlock \<and> (\<exists>ms vlen m ms'. k_recvmmsg k fd ms vlen w = (m, ms', w'))"
proof -
  let ?c = "k_libc k" and ?cap = "length (rb_slots b)"
  have v: "unat (of_nat ?cap :: u32) = ?cap" "0 < ?cap"
    using assms(2,3) by (simp_all add: RecvBatchRaw_capacity_def unat_of_nat_u32)
  obtain m ms w1 where rm: "k_recvmmsg k fd (rx_init ?c b) (of_nat ?cap) w = (m, ms, w1)"
    by (metis surj_pair)
  from queue_contract_recvmmsg [OF assms(1) rm] v assms(4)
  have m: "\<not> 0 \<le> m" "rxq w1 = []" and e: "last_os_error k w1 = Os (EAGAIN ?c)"
    by (simp_all add: last_os_error_def)
  note ok = queue_contract_libc(2) [OF assms(1)]
  have kd: "kind ?c (last_os_error k w1) = WouldBlock"
    unfolding e by (rule kind_EAGAIN [OF ok])
  have rt: "retry_eintr k (\<lambda>ms. k_recvmmsg k fd ms (of_nat ?cap)) (rx_init ?c b) w =
      Some (Inl (last_os_error k w1), ms, w1)"
    using retry_answer [of "\<lambda>ms. k_recvmmsg k fd ms (of_nat ?cap)", OF rm, of k] m(1) kd by simp
  have "raw_os_error (last_os_error k w1) \<noteq> Some (ENOSYS ?c)"
    using ok by (simp add: e errno_ok_def)
  with rt m(2) kd assms(3) rm show ?thesis
    by (auto simp: linux_recv_call call_recvmmsg_def RecvBatchRaw_capacity_def option_outcome_def Let_def)
qed

interpretation linux_recv_plain: queue_backend
  "linux_try_recv_batch \<lparr>feat_gro = False, feat_timestamping = ts, feat_pktinfo = pk\<rparr>"
  recv_contract queue_contract "\<lambda>_. True" "\<lambda>_ _. True" for ts pk
proof unfold_locales
  fix k :: "'w kernel" and rxq n b fd w
  assume "queue_contract k rxq" and "rb_inv n b" and "RecvBatchRaw_capacity b < 2 ^ 32"
    and "0 < RecvBatchRaw_capacity b" and "rxq w \<noteq> []"
  then show "\<exists>b' w'. linux_try_recv_batch \<lparr>feat_gro = False, feat_timestamping = ts, feat_pktinfo = pk\<rparr> k fd b w =
          Returns (Inr (min (RecvBatchRaw_capacity b) (length (rxq w))), b', w') \<and>
        rxq w' = drop (RecvBatchRaw_capacity b) (rxq w) \<and>
        rb_packets b' = map (cut_to n) (take (RecvBatchRaw_capacity b) (rxq w))"
    by (intro linux_recv_delivers) simp_all
next
  fix k :: "'w kernel" and rxq b fd w
  assume "queue_contract k rxq" and "RecvBatchRaw_capacity b < 2 ^ 32" and "0 < RecvBatchRaw_capacity b"
    and "rxq w = []"
  from linux_recv_starved [OF this]
  show "\<exists>r b' w'. linux_try_recv_batch \<lparr>feat_gro = False, feat_timestamping = ts, feat_pktinfo = pk\<rparr> k fd b w =
          Returns (r, b', w') \<and> rxq w' = [] \<and>
        (r = Inr 0 \<or> (\<exists>e. r = Inl e \<and> kind (k_libc k) e = WouldBlock))"
    by blast
qed

section \<open>Properties\<close>

text \<open>C2. Without the \<^verbatim>\<open>gro\<close> feature the Linux receive takes the datagrams that have arrived, as
  many as the batch has slots, off the queue in order with one system call, and the user
  reads exactly these, each cut to the slot size and with its source address. It holds on the
  stack path and on the heap path, with timestamping and packet info on or off.\<close>

theorem linux_recv_delivers_queue:
  assumes "queue_contract k rxq" and "recv_contract k" and "rb_inv n b"
    and "RecvBatchRaw_capacity b < 2 ^ 32" and "0 < RecvBatchRaw_capacity b" and "rxq w \<noteq> []"
  shows "\<exists>b' w'. linux_try_recv_batch \<lparr>feat_gro = False, feat_timestamping = ts, feat_pktinfo = pk\<rparr> k fd b w =
       Returns (Inr (min (RecvBatchRaw_capacity b) (length (rxq w))), b', w') \<and>
     rxq w' = drop (RecvBatchRaw_capacity b) (rxq w) \<and>
     rb_packets b' = map (cut_to n) (take (RecvBatchRaw_capacity b) (rxq w))"
  using assms by (rule linux_recv_plain.delivers) (simp_all add: list_all_iff)

theorem linux_recv_delivers_queue_witness:
  "\<exists>b' w'. linux_try_recv_batch \<lparr>feat_gro = False, feat_timestamping = True, feat_pktinfo = False\<rparr>
         (loopback linux_libc) 3 (RecvBatchRaw_with_capacity 100 4) two_arrived = Returns (Inr 2, b', w') \<and>
     rb_packets b' = [([104, 105], V4 (Ipv4Addr 127 0 0 1) 9000), ([1, 2, 3, 4], V4 (Ipv4Addr 10 0 0 1) 53)]"
  using linux_recv_delivers_queue [OF linux_loopback rb_inv_with_capacity, of 100 4 two_arrived True False 3]
    two_arrived
  by (auto simp: RecvBatchRaw_capacity_def RecvBatchRaw_with_capacity_def two_arrived_def idle_def
      cut_to_def simp flip: numeral_2_eq_2)

text \<open>Two receives in a row never lose, repeat or reorder a datagram: together they hand
  over the first two capacities of the queue.\<close>

lemma linux_recv_twice:
  assumes "queue_contract k rxq" and "recv_contract k" and "rb_inv n b"
    and "RecvBatchRaw_capacity b < 2 ^ 32" and "0 < RecvBatchRaw_capacity b"
    and "RecvBatchRaw_capacity b < length (rxq w)"
  shows "\<exists>b1 w1 b2 w2.
     linux_try_recv_batch \<lparr>feat_gro = False, feat_timestamping = ts, feat_pktinfo = pk\<rparr> k fd b w =
       Returns (Inr (RecvBatchRaw_capacity b), b1, w1) \<and>
     linux_try_recv_batch \<lparr>feat_gro = False, feat_timestamping = ts, feat_pktinfo = pk\<rparr> k fd b1 w1 =
       Returns (Inr (min (RecvBatchRaw_capacity b) (length (rxq w1))), b2, w2) \<and>
     rb_packets b1 @ rb_packets b2 = map (cut_to n) (take (2 * RecvBatchRaw_capacity b) (rxq w))"
  using assms by (rule linux_recv_plain.delivers_twice) (simp_all add: list_all_iff)

text \<open>\<^verbatim>\<open>retry_eintr\<close> returns exactly when the kernel answers after finitely many
  interruptions; nothing bounds their number, so with a signal on every call it never does.\<close>

lemma retry_returns_iff_answered:
  "(\<exists>r. retry_eintr k f ms w = Some r) \<longleftrightarrow> answers k f ms w"
  by (rule iffI, erule exE, erule retry_answers, erule answers_retry)

text \<open>The stack and the heap path of the receive compute the same on every batch the stack
  path can take.\<close>

lemma linux_recv_stack_heap:
  assumes "RecvBatchRaw_capacity b \<le> MAX_STACK"
  shows "linux_recv_stack f k fd b w = linux_recv_heap f k fd b w"
  using assms linux_recv_paths(1) [of b f k fd w] linux_recv_paths(2) [of f k fd b w]
  by (simp add: RecvBatchRaw_capacity_def)



text \<open>C13. Without GRO the receive always returns once the kernel answers: no path of it panics.\<close>

theorem linux_recv_returns:
  assumes "\<not> feat_gro f" and "recv_contract k" and "rb_inv n b"
    and "answers k (\<lambda>ms. k_recvmmsg k fd ms (of_nat (RecvBatchRaw_capacity b))) (rx_init (k_libc k) b) w"
  shows "\<exists>r b' w'. linux_try_recv_batch f k fd b w = Returns (r, b', w')"
proof (cases "RecvBatchRaw_capacity b = 0")
  case True
  then show ?thesis by (simp add: linux_try_recv_batch_def)
next
  case False
  let ?c = "k_libc k" and ?cap = "length (rb_slots b)"
  have cap: "RecvBatchRaw_capacity b = ?cap" by (simp add: RecvBatchRaw_capacity_def)
  from answers_retry [OF assms(4)] obtain rc ms w1 where
    rt: "retry_eintr k (\<lambda>ms. k_recvmmsg k fd ms (of_nat ?cap)) (rx_init ?c b) w = Some (rc, ms, w1)"
    unfolding cap by auto
  have "\<forall>i < length (rx_init ?c b). length (rx_buf (rx_init ?c b ! i)) = n"
    using assms(3) by (simp add: rx_init_def rx_entry_def rb_inv_def list_all_length)
  note kp = retry_keeps [OF assms(2) rt this]
  let ?b = "sync_buffers b ms"
  have sy: "rb_inv n ?b" "length (rb_slots ?b) = ?cap" using sync_buffers_inv [OF assms(3)] kp by simp_all
  show ?thesis
  proof (cases rc)
    case (Inl e)
    have "\<exists>r b' w'. linux_fallback_recv k fd ?b w1 = Returns (r, b', w')"
      using recv_loop_inv [OF assms(2) sy(1) refl, of 0 fd w1]
      by (auto simp: linux_fallback_recv_def RecvBatchRaw_capacity_def)
    with Inl rt False show ?thesis
      by (auto simp: linux_recv_call call_recvmmsg_def option_outcome_def cap Let_def)
  next
    case (Inr j)
    have "nat j \<le> ?cap" using kp Inr unat_of_nat_le [of ?cap ?cap] le_trans by blast
    with kp sy(2) have "\<exists>b'. recv_msgs f ?c ms [0 ..< nat j] 0 ?b = Returns (b', nat j)"
      using recv_msgs_plain [of "nat j" f ?c ms _ 0 ?b] cmsg_seg_plain [OF assms(1)] by fastforce
    with Inr rt False show ?thesis
      by (auto simp: linux_recv_call call_recvmmsg_def option_outcome_def cap Let_def)
  qed
qed

theorem linux_recv_returns_witness:
  "\<exists>r b' w'. linux_try_recv_batch \<lparr>feat_gro = False, feat_timestamping = True, feat_pktinfo = True\<rparr>
      (loopback linux_libc) 3 (RecvBatchRaw_with_capacity 65 4) idle = Returns (r, b', w')"
proof -
  let ?k = "loopback linux_libc" and ?b = "RecvBatchRaw_with_capacity 65 4"
  have e: "arrived idle = []" by (simp add: arrived_def idle_def)
  have "k_recvmmsg ?k 3 (rx_init (k_libc ?k) ?b) (of_nat (RecvBatchRaw_capacity ?b)) idle
      = (- 1, rx_init (k_libc ?k) ?b, idle\<lparr>w_errno := EAGAIN linux_libc\<rparr>)"
    by (simp add: loopback_sel loopback_recvmmsg_def e)
  then have "answers ?k (\<lambda>ms. k_recvmmsg ?k 3 ms (of_nat (RecvBatchRaw_capacity ?b)))
      (rx_init (k_libc ?k) ?b) idle"
    by (rule answers.now) (simp add: last_os_error_def loopback_sel linux_libc_def)
  from linux_recv_returns [OF _ loopback_recv rb_inv_with_capacity this,
      of "\<lparr>feat_gro = False, feat_timestamping = True, feat_pktinfo = True\<rparr>"]
  show ?thesis by simp
qed

text \<open>A slot keeps what the kernel does not report: a packet that arrives without a
  timestamp shows the timestamp the slot had before the receive.\<close>

lemma stale_timestamp_kept:
  assumes "i < RecvBatchRaw_capacity b" and "\<forall>ch \<in> set (rx_control r). \<not> is_gro_cmsg f c ch"
    and "\<forall>ch \<in> set (rx_control r). \<not> is_ts_cmsg f c ch"
  shows "\<exists>b'. recv_one f c r i b = Returns (b', i + 1) \<and>
     RecvBatchRaw_timestamp b' i = RecvBatchRaw_timestamp b i"
proof -
  have "fold (cmsg_seg f c) chs g = g" if "\<forall>ch \<in> set chs. \<not> is_gro_cmsg f c ch" for chs g
    using that by (induction chs arbitrary: g) (simp_all add: cmsg_seg_def)
  with assms(1,2) have "recv_one f c r i b = Returns (put_slot b i (recv_slot f c r (rb_slots b ! i)), i + 1)"
    by (intro recv_one_plain) (simp_all add: RecvBatchRaw_capacity_def)
  with assms(1,3) show ?thesis
    by (simp add: slot_reads recv_slot_def cmsg_slot_timestamp RecvBatchRaw_capacity_def)
qed

end
