(* ===== verification/Macos.thy ===== *)
theory Macos
  imports Linux_Recv
begin

text \<open>
  \<^verbatim>\<open>platform/macos.rs\<close>: the private calls \<^verbatim>\<open>sendmsg_x\<close> and \<^verbatim>\<open>recvmsg_x\<close>, found at run time with
  \<^verbatim>\<open>dlsym\<close> and kept in statics, and the per-packet loops for connected sockets and for systems
  without them. The building of the send headers is, line by line, that of the heap path of
  \<^verbatim>\<open>linux.rs\<close>, so the definitions of \<open>Linux_Send\<close> are used for it; \<^verbatim>\<open>retry_eintr\<close> is the same
  function again.
\<close>

section \<open>The private calls\<close>

text \<open>
  One element of the array of \<^verbatim>\<open>recvmsg_x\<close>: the slot buffer its \<^verbatim>\<open>iovec\<close> points to, the element
  of \<^verbatim>\<open>addrs\<close> its \<^verbatim>\<open>msg_name\<close> points to, and the fields the kernel writes. \<^verbatim>\<open>msg_datalen\<close> is a
  \<^verbatim>\<open>usize\<close>.
\<close>

record msghdr_x =
  x_buf :: bytes
  x_name :: bytes
  x_namelen :: u32
  x_datalen :: nat

text \<open>
  \<open>ma_sendmsg_x\<close> and \<open>ma_recvmsg_x\<close> are the functions at the addresses \<^verbatim>\<open>dlsym\<close> gives for the
  two names. The two statics \<^verbatim>\<open>ADDR\<close> live in the process, so the state \<open>'w\<close> holds them.
\<close>

record 'w macos_api =
  ma_dlsym :: "string \<Rightarrow> 'w \<Rightarrow> nat \<times> 'w"
  ma_send_addr :: "'w \<Rightarrow> nat option"
  ma_set_send_addr :: "nat \<Rightarrow> 'w \<Rightarrow> 'w"
  ma_recv_addr :: "'w \<Rightarrow> nat option"
  ma_set_recv_addr :: "nat \<Rightarrow> 'w \<Rightarrow> 'w"
  ma_sendmsg_x :: "fd \<Rightarrow> tx_msg list \<Rightarrow> u32 \<Rightarrow> 'w \<Rightarrow> int \<times> 'w"
  ma_recvmsg_x :: "fd \<Rightarrow> msghdr_x list \<Rightarrow> u32 \<Rightarrow> 'w \<Rightarrow> int \<times> msghdr_x list \<times> 'w"

text \<open>\<^verbatim>\<open>lock.get_or_init(|| dlsym(..))\<close>, then \<^verbatim>\<open>(addr != 0).then_some(addr)\<close>.\<close>

definition resolve_symbol ::
    "'w macos_api \<Rightarrow> ('w \<Rightarrow> nat option) \<Rightarrow> (nat \<Rightarrow> 'w \<Rightarrow> 'w) \<Rightarrow> string \<Rightarrow> 'w \<Rightarrow> nat option \<times> 'w" where
  "resolve_symbol A lock_get lock_set name w =
     (let (addr, w') =
            (case lock_get w of
               Some a \<Rightarrow> (a, w)
             | None \<Rightarrow> let (a, w1) = ma_dlsym A name w in (a, lock_set a w1))
      in (if addr \<noteq> 0 then Some addr else None, w'))"

definition sendmsg_x_fn ::
    "'w macos_api \<Rightarrow> 'w \<Rightarrow> (fd \<Rightarrow> tx_msg list \<Rightarrow> u32 \<Rightarrow> 'w \<Rightarrow> int \<times> 'w) option \<times> 'w" where
  "sendmsg_x_fn A w =
     (let (addr, w') = resolve_symbol A (ma_send_addr A) (ma_set_send_addr A) ''sendmsg_x'' w
      in (map_option (\<lambda>_. ma_sendmsg_x A) addr, w'))"

definition recvmsg_x_fn ::
    "'w macos_api \<Rightarrow> 'w \<Rightarrow> (fd \<Rightarrow> msghdr_x list \<Rightarrow> u32 \<Rightarrow> 'w \<Rightarrow> int \<times> msghdr_x list \<times> 'w) option \<times> 'w" where
  "recvmsg_x_fn A w =
     (let (addr, w') = resolve_symbol A (ma_recv_addr A) (ma_set_recv_addr A) ''recvmsg_x'' w
      in (map_option (\<lambda>_. ma_recvmsg_x A) addr, w'))"

definition macos_retry_eintr ::
    "'w kernel \<Rightarrow> ('m \<Rightarrow> 'w \<Rightarrow> int \<times> 'm \<times> 'w) \<Rightarrow> 'm \<Rightarrow> 'w \<Rightarrow> (int io_result \<times> 'm \<times> 'w) outcome" where
  "macos_retry_eintr k f ms w = option_outcome (retry_eintr k f ms w)"

section \<open>try_send_batch\<close>

text \<open>The loop for a connected socket sends every entry with \<^verbatim>\<open>raw_send\<close>, whatever its address;
  the loop at the end of the function looks at the address only.\<close>

definition macos_connected_send ::
    "'w kernel \<Rightarrow> fd \<Rightarrow> memory \<Rightarrow> SendBatchRaw \<Rightarrow> 'w \<Rightarrow> (nat io_result \<times> 'w) outcome" where
  "macos_connected_send k fd m b w = send_loop k fd m b True [0 ..< SendBatchRaw_len b] 0 w"

definition macos_plain_send ::
    "'w kernel \<Rightarrow> fd \<Rightarrow> memory \<Rightarrow> SendBatchRaw \<Rightarrow> 'w \<Rightarrow> (nat io_result \<times> 'w) outcome" where
  "macos_plain_send k fd m b w = send_loop k fd m b False [0 ..< SendBatchRaw_len b] 0 w"

definition macos_headers :: "libc \<Rightarrow> memory \<Rightarrow> SendBatchRaw \<Rightarrow> nat \<Rightarrow> send_arrays outcome" where
  "macos_headers c m b len =
     outcome_bind (heap_fill c m b [0 ..< len] \<lparr>sa_msgs = [], sa_iovecs = [], sa_addrs = [], sa_addr_idx = 0\<rparr>) (\<lambda>st.
       outcome_bind (heap_fix m b (sa_iovecs st) (sa_addrs st) 0 0 (sa_msgs st)) (\<lambda>msgs.
         Returns (st\<lparr>sa_msgs := msgs\<rparr>)))"

text \<open>The headers as the kernel reads them, one call, \<^verbatim>\<open>?\<close> on its error.\<close>

definition call_sendmsg_x ::
    "'w kernel \<Rightarrow> (fd \<Rightarrow> tx_msg list \<Rightarrow> u32 \<Rightarrow> 'w \<Rightarrow> int \<times> 'w) \<Rightarrow> fd \<Rightarrow> memory \<Rightarrow> send_arrays \<Rightarrow> nat \<Rightarrow> 'w
       \<Rightarrow> (nat io_result \<times> 'w) outcome" where
  "call_sendmsg_x k sendmsg_x fd m st len w =
     outcome_bind (outcome_map (tx_view m (sa_iovecs st) (sa_addrs st)) (take len (sa_msgs st))) (\<lambda>msgs.
       outcome_bind (macos_retry_eintr k (\<lambda>_ w. let (n, w') = sendmsg_x fd msgs (of_nat len) w in (n, (), w')) () w)
         (\<lambda>(sent, _, w'). Returns (map_sum id nat sent, w')))"

definition macos_try_send_batch ::
    "'w macos_api \<Rightarrow> 'w kernel \<Rightarrow> fd \<Rightarrow> memory \<Rightarrow> SendBatchRaw \<Rightarrow> 'w \<Rightarrow> (nat io_result \<times> 'w) outcome" where
  "macos_try_send_batch A k fd m b w =
     (let len = SendBatchRaw_len b in
      if len = 0 then Returns (Inr 0, w)
      else let (is_conn, w1) = is_connected k fd w in
      if is_conn then macos_connected_send k fd m b w1
      else outcome_bind (macos_headers (k_libc k) m b len) (\<lambda>st.
        case sendmsg_x_fn A w1 of
          (Some sendmsg_x, w2) \<Rightarrow> call_sendmsg_x k sendmsg_x fd m st len w2
        | (None, w2) \<Rightarrow> macos_plain_send k fd m b w2))"

section \<open>try_recv_batch\<close>

definition x_entry :: "libc \<Rightarrow> bytes \<Rightarrow> msghdr_x" where
  "x_entry c buf = \<lparr>x_buf = buf, x_name = zeroed_storage c, x_namelen = of_nat (size_storage c), x_datalen = 0\<rparr>"

fun x_fill :: "libc \<Rightarrow> RecvBatchRaw \<Rightarrow> nat list \<Rightarrow> msghdr_x list \<Rightarrow> msghdr_x list outcome" where
  "x_fill c b [] msgs = Returns msgs"
| "x_fill c b (i # is) msgs =
     outcome_bind (RecvBatchRaw_buffer_mut b i) (\<lambda>(buf, _). x_fill c b is (msgs @ [x_entry c buf]))"

text \<open>The kernel writes through the \<^verbatim>\<open>iovec\<close>s into the slots.\<close>

definition x_sync :: "RecvBatchRaw \<Rightarrow> msghdr_x list \<Rightarrow> RecvBatchRaw" where
  "x_sync b ms =
     b\<lparr>rb_slots := map2 (\<lambda>s r. s\<lparr>rs_buf := x_buf r\<rparr>) (rb_slots b) ms @ drop (length ms) (rb_slots b)\<rparr>"

fun x_record :: "libc \<Rightarrow> msghdr_x list \<Rightarrow> nat list \<Rightarrow> RecvBatchRaw \<Rightarrow> RecvBatchRaw outcome" where
  "x_record c ms [] b = Returns b"
| "x_record c ms (i # is) b =
     outcome_bind (index_or_panic ms i) (\<lambda>r.
       outcome_bind (RecvBatchRaw_set_recv_len b i (x_datalen r)) (\<lambda>b1.
         outcome_bind (write_addr b1 i (decode_sockaddr c (x_name r) (x_namelen r))) (\<lambda>b2.
           x_record c ms is b2)))"

text \<open>The loop at the end is that of \<^verbatim>\<open>fallback.rs\<close>.\<close>

definition macos_plain_recv ::
    "'w kernel \<Rightarrow> fd \<Rightarrow> RecvBatchRaw \<Rightarrow> 'w \<Rightarrow> (nat io_result \<times> RecvBatchRaw \<times> 'w) outcome" where
  "macos_plain_recv k fd b w = recv_loop k fd [0 ..< RecvBatchRaw_capacity b] 0 b w"

definition call_recvmsg_x ::
    "'w kernel \<Rightarrow> (fd \<Rightarrow> msghdr_x list \<Rightarrow> u32 \<Rightarrow> 'w \<Rightarrow> int \<times> msghdr_x list \<times> 'w) \<Rightarrow> fd \<Rightarrow> RecvBatchRaw
       \<Rightarrow> msghdr_x list \<Rightarrow> 'w \<Rightarrow> (nat io_result \<times> RecvBatchRaw \<times> 'w) outcome" where
  "call_recvmsg_x k recvmsg_x fd b msgs w =
     outcome_bind (macos_retry_eintr k (\<lambda>ms. recvmsg_x fd ms (of_nat (RecvBatchRaw_capacity b))) msgs w)
       (\<lambda>(received, ms, w').
         let b1 = x_sync b ms in
         case received of
           Inl e \<Rightarrow> Returns (Inl e, b1, w')
         | Inr received \<Rightarrow>
             let n = nat received in
             outcome_bind (x_record (k_libc k) ms [0 ..< n] b1) (\<lambda>b2.
               Returns (Inr n, RecvBatchRaw_set_len b2 n, w')))"

definition macos_try_recv_batch ::
    "'w macos_api \<Rightarrow> 'w kernel \<Rightarrow> fd \<Rightarrow> RecvBatchRaw \<Rightarrow> 'w \<Rightarrow> (nat io_result \<times> RecvBatchRaw \<times> 'w) outcome" where
  "macos_try_recv_batch A k fd b w =
     (let capacity = RecvBatchRaw_capacity b in
      if capacity = 0 then Returns (Inr 0, b, w)
      else outcome_bind (x_fill (k_libc k) b [0 ..< capacity] []) (\<lambda>msgs.
        case recvmsg_x_fn A w of
          (Some recvmsg_x, w1) \<Rightarrow> call_recvmsg_x k recvmsg_x fd b msgs w1
        | (None, w1) \<Rightarrow> macos_plain_recv k fd b w1))"

section \<open>What the private calls promise\<close>

text \<open>
  \<^verbatim>\<open>sendmsg_x\<close> takes at most the messages it is given, and answers after finitely many
  interruptions.
\<close>

definition macos_tx_ok :: "'w macos_api \<Rightarrow> 'w kernel \<Rightarrow> bool" where
  "macos_tx_ok A k \<longleftrightarrow>
     (\<forall>fd msgs cnt w n w'. ma_sendmsg_x A fd msgs cnt w = (n, w') \<longrightarrow> n \<le> uint cnt) \<and>
     (\<forall>fd msgs cnt w. answers k (\<lambda>_ w. let (n, w') = ma_sendmsg_x A fd msgs cnt w in (n, (), w')) () w)"

text \<open>Against a log: the messages taken are the first ones; looking up a symbol sends nothing.\<close>

definition macos_log :: "'w macos_api \<Rightarrow> 'w kernel \<Rightarrow> ('w \<Rightarrow> tx_msg list) \<Rightarrow> bool" where
  "macos_log A k txlog \<longleftrightarrow>
     log_contract k txlog \<and> macos_tx_ok A k \<and>
     (\<forall>fd msgs cnt w n w'. ma_sendmsg_x A fd msgs cnt w = (n, w') \<longrightarrow> txlog w' = txlog w @ take (nat n) msgs) \<and>
     (\<forall>name w. txlog (snd (ma_dlsym A name w)) = txlog w) \<and>
     (\<forall>a w. txlog (ma_set_send_addr A a w) = txlog w)"

lemma macos_logD:
  assumes "macos_log A k txlog"
  shows "log_contract k txlog" and "macos_tx_ok A k"
    and "ma_sendmsg_x A fd msgs cnt w = (n, w') \<Longrightarrow> txlog w' = txlog w @ take (nat n) msgs"
    and "sendmsg_x_fn A w = (f, w') \<Longrightarrow> txlog w' = txlog w"
  using assms unfolding macos_log_def
  by (blast, blast, blast, auto simp: sendmsg_x_fn_def resolve_symbol_def Let_def split: option.splits prod.splits)
     (metis snd_conv)

lemma macos_tx_okD:
  assumes "macos_tx_ok A k"
  shows "ma_sendmsg_x A fd msgs cnt w = (n, w') \<Longrightarrow> n \<le> uint cnt"
    and "answers k (\<lambda>_ w. let (n, w') = ma_sendmsg_x A fd msgs cnt w in (n, (), w')) () w"
  using assms unfolding macos_tx_ok_def by blast+

lemma sendmsg_x_fn_Some: "sendmsg_x_fn A w = (Some f, w') \<Longrightarrow> f = ma_sendmsg_x A"
  by (auto simp: sendmsg_x_fn_def split: prod.splits)

section \<open>The send\<close>

lemma macos_headers_views:
  assumes "sb_inv b" and "sb_readable m b"
  shows "\<exists>st. macos_headers c m b (sb_len b) = Returns st \<and>
     outcome_map (tx_view m (sa_iovecs st) (sa_addrs st)) (take (sb_len b) (sa_msgs st)) =
       Returns (map (heap_datagram c m b) [0 ..< sb_len b])"
  using heap_build [OF assms, of c] heap_views [OF assms(1), of m c]
  by (simp add: macos_headers_def)

text \<open>A retried \<^verbatim>\<open>sendmsg_x\<close>: only the last, uninterrupted, call can have sent anything.\<close>

lemma retry_sendmsg_x:
  assumes "\<forall>w n w'. f w = (n, w') \<longrightarrow> n \<le> int l"
    and "answers k (\<lambda>_ w. let (n, w') = f w in (n, (), w')) () w"
  shows "\<exists>r w'. retry_eintr k (\<lambda>_ w. let (n, w') = f w in (n, (), w')) () w = Some (r, (), w') \<and>
     (\<forall>n. r = Inr n \<longrightarrow> 0 \<le> n \<and> n \<le> int l) \<and>
     (\<forall>txlog msgs. (\<forall>w n w'. f w = (n, w') \<longrightarrow> txlog w' = txlog w @ take (nat n) msgs) \<longrightarrow>
        txlog w' = txlog w @ take (case r of Inl _ \<Rightarrow> 0 | Inr n \<Rightarrow> nat n) (msgs :: tx_msg list))"
  using assms(2)
proof (induction "()" w rule: answers.induct)
  case (now w n ms' w')
  then have f: "f w = (n, w')" by (auto split: prod.splits)
  have "retry_eintr k (\<lambda>_ w. let (n, w') = f w in (n, (), w')) () w =
      Some (if 0 \<le> n then Inr n else Inl (last_os_error k w'), (), w')"
    using now by (intro retry_answer) simp_all
  with assms(1) f show ?case by auto
next
  case (later w n ms' w')
  then have f: "f w = (n, w')" by (auto split: prod.splits)
  have r: "retry_eintr k (\<lambda>_ w. let (n, w') = f w in (n, (), w')) () w =
      retry_eintr k (\<lambda>_ w. let (n, w') = f w in (n, (), w')) () w'"
    using later(2,3) f by (subst retry_eintr.simps) (simp add: Let_def)
  have keep: "txlog w' = txlog w" if "\<forall>w n w'. f w = (n, w') \<longrightarrow> txlog w' = txlog w @ take (nat n) msgs"
    for txlog and msgs :: "tx_msg list"
    using that f later(2) by auto
  have "ms' = ()" by simp
  from later(5) [OF this] obtain r' w2 where
    "retry_eintr k (\<lambda>_ w. let (n, w') = f w in (n, (), w')) () w' = Some (r', (), w2)"
    "\<forall>n. r' = Inr n \<longrightarrow> 0 \<le> n \<and> n \<le> int l"
    and lg: "\<forall>txlog msgs. (\<forall>w n w'. f w = (n, w') \<longrightarrow> txlog w' = txlog w @ take (nat n) msgs) \<longrightarrow>
        txlog w2 = txlog w' @ take (case r' of Inl _ \<Rightarrow> 0 | Inr n \<Rightarrow> nat n) (msgs :: tx_msg list)"
    by blast
  moreover have "\<forall>txlog msgs. (\<forall>w n w'. f w = (n, w') \<longrightarrow> txlog w' = txlog w @ take (nat n) msgs) \<longrightarrow>
        txlog w2 = txlog w @ take (case r' of Inl _ \<Rightarrow> 0 | Inr n \<Rightarrow> nat n) (msgs :: tx_msg list)"
    using lg keep by metis
  ultimately show ?case using r by auto
qed

lemma call_sendmsg_x_result:
  assumes "macos_tx_ok A k" and "sb_inv b"
    and "outcome_map (tx_view m (sa_iovecs st) (sa_addrs st)) (take (sb_len b) (sa_msgs st)) = Returns msgs"
  shows "\<exists>r w' n. call_sendmsg_x k (ma_sendmsg_x A) fd m st (sb_len b) w = Returns (r, w') \<and> n \<le> sb_len b \<and>
     (r = Inr n \<or> (\<exists>e. r = Inl e \<and> n = 0)) \<and>
     (\<forall>txlog. macos_log A k txlog \<longrightarrow> txlog w' = txlog w @ take n msgs)"
proof -
  let ?f = "ma_sendmsg_x A fd msgs (of_nat (sb_len b))"
  have "n \<le> int (sb_len b)" if "?f w = (n, w')" for w n w'
    using le_trans [OF nat_le_unat [OF macos_tx_okD(1) [OF assms(1) that]] unat_of_nat_le [OF order_refl]] by linarith
  then have "\<forall>w n w'. ?f w = (n, w') \<longrightarrow> n \<le> int (sb_len b)" by blast
  from retry_sendmsg_x [OF this macos_tx_okD(2) [OF assms(1)], of w] obtain r w' where
    r: "retry_eintr k (\<lambda>_ w. let (n, w') = ?f w in (n, (), w')) () w = Some (r, (), w')"
      "\<forall>n. r = Inr n \<longrightarrow> 0 \<le> n \<and> n \<le> int (sb_len b)"
    and lg: "\<forall>txlog ms. (\<forall>w n w'. ?f w = (n, w') \<longrightarrow> txlog w' = txlog w @ take (nat n) ms) \<longrightarrow>
      txlog w' = txlog w @ take (case r of Inl _ \<Rightarrow> 0 | Inr n \<Rightarrow> nat n) (ms :: tx_msg list)"
    by blast
  have "txlog w' = txlog w @ take (case r of Inl _ \<Rightarrow> 0 | Inr n \<Rightarrow> nat n) msgs" if "macos_log A k txlog" for txlog
    using macos_logD(3) [OF that] lg by blast
  with r assms(3) show ?thesis
    by (cases r) (auto simp: call_sendmsg_x_def macos_retry_eintr_def option_outcome_def)
qed

text \<open>The three ways a send goes: a loop without destinations, a loop with them, one call.\<close>

lemma macos_send_call:
  assumes "sb_inv b" and "sb_readable m b" and "0 < sb_len b"
    and "is_connected k fd w = (is_conn, w1)" and "sendmsg_x_fn A w1 = (f, w2)"
  shows "\<exists>st. outcome_map (tx_view m (sa_iovecs st) (sa_addrs st)) (take (sb_len b) (sa_msgs st)) =
       Returns (map (heap_datagram (k_libc k) m b) [0 ..< sb_len b]) \<and>
     macos_try_send_batch A k fd m b w =
       (if is_conn then send_loop k fd m b True [0 ..< sb_len b] 0 w1
        else if f = None then send_loop k fd m b False [0 ..< sb_len b] 0 w2
        else call_sendmsg_x k (ma_sendmsg_x A) fd m st (sb_len b) w2)"
proof -
  from macos_headers_views [OF assms(1,2)] obtain st where
    st: "macos_headers (k_libc k) m b (sb_len b) = Returns st"
    "outcome_map (tx_view m (sa_iovecs st) (sa_addrs st)) (take (sb_len b) (sa_msgs st)) =
       Returns (map (heap_datagram (k_libc k) m b) [0 ..< sb_len b])" by blast
  with assms(3-5) show ?thesis
    by (intro exI [of _ st]; cases f)
       (auto simp: macos_try_send_batch_def SendBatchRaw_len_def macos_connected_send_def macos_plain_send_def
         dest: sendmsg_x_fn_Some)
qed

text \<open>Whatever branch it takes, the call returns, with the number of datagrams that left.\<close>

lemma macos_send_result:
  assumes "macos_tx_ok A k" and "sb_inv b" and "sb_readable m b"
  shows "\<exists>r w'. macos_try_send_batch A k fd m b w = Returns (r, w') \<and> (\<forall>n. r = Inr n \<longrightarrow> n \<le> SendBatchRaw_len b)"
proof (cases "sb_len b = 0")
  case True
  then show ?thesis by (simp add: macos_try_send_batch_def SendBatchRaw_len_def)
next
  case False
  obtain is_conn w1 where c: "is_connected k fd w = (is_conn, w1)" by (metis surj_pair)
  obtain f w2 where f: "sendmsg_x_fn A w1 = (f, w2)" by (metis surj_pair)
  from macos_send_call [OF assms(2,3) _ c f] False obtain st where
    st: "outcome_map (tx_view m (sa_iovecs st) (sa_addrs st)) (take (sb_len b) (sa_msgs st)) =
       Returns (map (heap_datagram (k_libc k) m b) [0 ..< sb_len b])"
    "macos_try_send_batch A k fd m b w =
       (if is_conn then send_loop k fd m b True [0 ..< sb_len b] 0 w1
        else if f = None then send_loop k fd m b False [0 ..< sb_len b] 0 w2
        else call_sendmsg_x k (ma_sendmsg_x A) fd m st (sb_len b) w2)" by blast
  note loop = send_loop_returns [OF assms(2,3), of "[0 ..< sb_len b]" k fd _ 0]
  from call_sendmsg_x_result [OF assms(1,2) st(1), of fd w2] loop [of True w1] loop [of False w2]
  show ?thesis unfolding st(2) by (auto simp: SendBatchRaw_len_def)
qed

text \<open>A loop or a call against the log, once the way there has sent nothing.\<close>

lemma macos_send_ways:
  assumes "macos_log A k txlog" and "sb_inv b" and "sb_readable m b" and "dests_first b" and "0 < sb_len b"
  shows "\<exists>r w' n. send_loop k fd m b is_conn [0 ..< sb_len b] 0 v = Returns (r, w') \<and> n \<le> sb_len b \<and>
       txlog w' = txlog v @ take n (map (strip_name is_conn) (datagrams (k_libc k) m b)) \<and>
       (r = Inr n \<or> (\<exists>e. r = Inl e \<and> n < sb_len b \<and> (kind (k_libc k) e = WouldBlock \<longrightarrow> n = 0)))"
    and "outcome_map (tx_view m (sa_iovecs st) (sa_addrs st)) (take (sb_len b) (sa_msgs st)) =
         Returns (map (heap_datagram (k_libc k) m b) [0 ..< sb_len b]) \<Longrightarrow>
       \<exists>r w' n. call_sendmsg_x k (ma_sendmsg_x A) fd m st (sb_len b) v = Returns (r, w') \<and> n \<le> sb_len b \<and>
         txlog w' = txlog v @ take n (map (strip_name False) (datagrams (k_libc k) m b)) \<and>
         (r = Inr n \<or> (\<exists>e. r = Inl e \<and> n < sb_len b \<and> (kind (k_libc k) e = WouldBlock \<longrightarrow> n = 0)))"
proof -
  note A = macos_logD(1,2) [OF assms(1)]
  from send_loop_log [OF A(1) assms(2,3) _ refl, of 0 fd is_conn 0 v] obtain r w' n where
    "send_loop k fd m b is_conn [0 ..< sb_len b] 0 v = Returns (r, w')" "n \<le> sb_len b"
    "txlog w' = txlog v @ take n (map (strip_name is_conn) (datagrams (k_libc k) m b))"
    "r = Inr n \<or> (\<exists>e. r = Inl e \<and> kind (k_libc k) e \<noteq> WouldBlock \<and> n < sb_len b)" by auto
  then show "\<exists>r w' n. send_loop k fd m b is_conn [0 ..< sb_len b] 0 v = Returns (r, w') \<and> n \<le> sb_len b \<and>
       txlog w' = txlog v @ take n (map (strip_name is_conn) (datagrams (k_libc k) m b)) \<and>
       (r = Inr n \<or> (\<exists>e. r = Inl e \<and> n < sb_len b \<and> (kind (k_libc k) e = WouldBlock \<longrightarrow> n = 0)))"
    by (intro exI [of _ r] exI [of _ w'] exI [of _ n]) auto
  have id: "map (strip_name False) ds = ds" for ds by (simp add: strip_name_def map_idI)
  assume "outcome_map (tx_view m (sa_iovecs st) (sa_addrs st)) (take (sb_len b) (sa_msgs st)) =
         Returns (map (heap_datagram (k_libc k) m b) [0 ..< sb_len b])"
  from call_sendmsg_x_result [OF A(2) assms(2) this, of fd v] assms(1,5)
  show "\<exists>r w' n. call_sendmsg_x k (ma_sendmsg_x A) fd m st (sb_len b) v = Returns (r, w') \<and> n \<le> sb_len b \<and>
         txlog w' = txlog v @ take n (map (strip_name False) (datagrams (k_libc k) m b)) \<and>
         (r = Inr n \<or> (\<exists>e. r = Inl e \<and> n < sb_len b \<and> (kind (k_libc k) e = WouldBlock \<longrightarrow> n = 0)))"
    unfolding id heap_datagrams [OF assms(2,4)] by blast
qed

lemma macos_send_log:
  assumes "macos_log A k txlog" and "sb_inv b" and "sb_readable m b" and "dests_first b"
  shows "\<exists>r w' n is_conn. macos_try_send_batch A k fd m b w = Returns (r, w') \<and> n \<le> SendBatchRaw_len b \<and>
     txlog w' = txlog w @ take n (map (strip_name is_conn) (datagrams (k_libc k) m b)) \<and>
     (r = Inr n \<or> (\<exists>e. r = Inl e \<and> n < SendBatchRaw_len b \<and> (kind (k_libc k) e = WouldBlock \<longrightarrow> n = 0)))"
proof (cases "sb_len b = 0")
  case True
  then show ?thesis
    by (auto simp: macos_try_send_batch_def SendBatchRaw_len_def intro!: exI [of _ "0 :: nat"])
next
  case False
  obtain is_conn w1 where c: "is_connected k fd w = (is_conn, w1)" by (metis surj_pair)
  obtain f w2 where f: "sendmsg_x_fn A w1 = (f, w2)" by (metis surj_pair)
  have w: "txlog w1 = txlog w" "txlog w2 = txlog w"
    using is_connected_quiet [OF macos_logD(1) [OF assms(1)] c] macos_logD(4) [OF assms(1) f] by simp_all
  from False have "0 < sb_len b" by simp
  from macos_send_call [OF assms(2,3) this c f] obtain st where
    st: "outcome_map (tx_view m (sa_iovecs st) (sa_addrs st)) (take (sb_len b) (sa_msgs st)) =
       Returns (map (heap_datagram (k_libc k) m b) [0 ..< sb_len b])"
    and eq: "macos_try_send_batch A k fd m b w =
       (if is_conn then send_loop k fd m b True [0 ..< sb_len b] 0 w1
        else if f = None then send_loop k fd m b False [0 ..< sb_len b] 0 w2
        else call_sendmsg_x k (ma_sendmsg_x A) fd m st (sb_len b) w2)" by blast
  note ways = macos_send_ways [OF assms \<open>0 < sb_len b\<close>, where fd = fd]
  show ?thesis
    using ways(1) [where is_conn = True and v = w1] ways(1) [where is_conn = False and v = w2]
      ways(2) [OF st, where v = w2]
    unfolding eq w SendBatchRaw_len_def by (simp only: split: if_split) blast
qed

interpretation macos_send: prefix_backend "macos_try_send_batch A" "macos_tx_ok A" dests_first "macos_log A"
  for A :: "'w macos_api"
proof unfold_locales
  fix k :: "'w kernel" and b m fd w
  show "SendBatchRaw_len b = 0 \<Longrightarrow> macos_try_send_batch A k fd m b w = Returns (Inr 0, w)"
    by (simp add: macos_try_send_batch_def)
  assume a: "macos_tx_ok A k" "sb_inv b" "sb_readable m b"
  from macos_send_result [OF a] show "\<exists>r w'. macos_try_send_batch A k fd m b w = Returns (r, w')" by blast
  fix n w'
  assume "macos_try_send_batch A k fd m b w = Returns (Inr n, w')"
  with macos_send_result [OF a, of fd w] show "n \<le> SendBatchRaw_len b" by auto
qed (rule macos_send_log)

section \<open>The receive\<close>

text \<open>\<^verbatim>\<open>recvmsg_x\<close>: at most the messages asked for, buffers keep their size, no message is longer
  than its buffer.\<close>

definition macos_rx_ok :: "'w macos_api \<Rightarrow> 'w kernel \<Rightarrow> bool" where
  "macos_rx_ok A k \<longleftrightarrow> recv_contract k \<and>
     (\<forall>fd ms cnt w n ms' w'. ma_recvmsg_x A fd ms cnt w = (n, ms', w') \<longrightarrow>
        n \<le> uint cnt \<and> length ms' = length ms \<and>
        (\<forall>i < length ms. length (x_buf (ms' ! i)) = length (x_buf (ms ! i))) \<and>
        (\<forall>i < nat n. x_datalen (ms' ! i) \<le> length (x_buf (ms' ! i))))"

lemma macos_rx_okD:
  assumes "macos_rx_ok A k"
  shows "recv_contract k"
    and "ma_recvmsg_x A fd ms cnt w = (n, ms', w') \<Longrightarrow> n \<le> uint cnt"
    and "ma_recvmsg_x A fd ms cnt w = (n, ms', w') \<Longrightarrow> length ms' = length ms"
    and "ma_recvmsg_x A fd ms cnt w = (n, ms', w') \<Longrightarrow> i < length ms \<Longrightarrow>
      length (x_buf (ms' ! i)) = length (x_buf (ms ! i))"
    and "ma_recvmsg_x A fd ms cnt w = (n, ms', w') \<Longrightarrow> i < nat n \<Longrightarrow>
      x_datalen (ms' ! i) \<le> length (x_buf (ms' ! i))"
  using assms unfolding macos_rx_ok_def by blast+

text \<open>Against a queue, with the addresses of the two statics and \<^verbatim>\<open>dlsym\<close> out of the way.\<close>

definition x_filled :: "libc \<Rightarrow> bytes \<times> SocketAddr \<Rightarrow> msghdr_x \<Rightarrow> msghdr_x \<Rightarrow> bool" where
  "x_filled c p r r' \<longleftrightarrow>
     x_buf r' = deposit (x_buf r) (fst p) \<and>
     encode_sockaddr c (snd p) (x_name r) = (x_name r', x_namelen r') \<and>
     x_datalen r' = min (length (fst p)) (length (x_buf r))"

definition macos_queue :: "'w macos_api \<Rightarrow> 'w kernel \<Rightarrow> ('w \<Rightarrow> (bytes \<times> SocketAddr) list) \<Rightarrow> bool" where
  "macos_queue A k rxq \<longleftrightarrow> queue_contract k rxq \<and>
     (\<forall>name w. rxq (snd (ma_dlsym A name w)) = rxq w) \<and>
     (\<forall>a w. rxq (ma_set_recv_addr A a w) = rxq w) \<and>
     (\<forall>fd ms cnt w n ms' w'. ma_recvmsg_x A fd ms cnt w = (n, ms', w') \<longrightarrow>
        0 < unat cnt \<and> unat cnt \<le> length ms \<longrightarrow>
        length ms' = length ms \<and>
        (if rxq w = [] then n < 0 \<and> k_errno k w' = EAGAIN (k_libc k) \<and> rxq w' = [] \<and> ms' = ms
         else n = int (min (unat cnt) (length (rxq w))) \<and> rxq w' = drop (nat n) (rxq w) \<and>
           (\<forall>i < nat n. x_filled (k_libc k) (rxq w ! i) (ms ! i) (ms' ! i)) \<and>
           (\<forall>i < length ms. nat n \<le> i \<longrightarrow> ms' ! i = ms ! i)))"

lemma macos_queueD:
  assumes "macos_queue A k rxq"
  shows "queue_contract k rxq"
    and "recvmsg_x_fn A w = (f, w') \<Longrightarrow> rxq w' = rxq w"
proof -
  show "queue_contract k rxq" using assms by (simp add: macos_queue_def)
  have k: "rxq w2 = rxq w1" if "ma_dlsym A name w1 = (a, w2)" for name a w1 w2
    using assms that unfolding macos_queue_def by (metis snd_conv)
  have s: "rxq (ma_set_recv_addr A a w1) = rxq w1" for a w1
    using assms by (simp add: macos_queue_def)
  show "rxq w' = rxq w" if "recvmsg_x_fn A w = (f, w')"
    using that k s by (auto simp: recvmsg_x_fn_def resolve_symbol_def Let_def split: option.splits prod.splits)
qed

lemma macos_queue_recvmsg_x:
  assumes "macos_queue A k rxq" and "ma_recvmsg_x A fd ms cnt w = (n, ms', w')"
    and "0 < unat cnt" and "unat cnt \<le> length ms"
  shows "length ms' = length ms \<and>
        (if rxq w = [] then n < 0 \<and> k_errno k w' = EAGAIN (k_libc k) \<and> rxq w' = [] \<and> ms' = ms
         else n = int (min (unat cnt) (length (rxq w))) \<and> rxq w' = drop (nat n) (rxq w) \<and>
           (\<forall>i < nat n. x_filled (k_libc k) (rxq w ! i) (ms ! i) (ms' ! i)) \<and>
           (\<forall>i < length ms. nat n \<le> i \<longrightarrow> ms' ! i = ms ! i))"
  using assms unfolding macos_queue_def by blast

lemma recvmsg_x_fn_Some: "recvmsg_x_fn A w = (Some f, w') \<Longrightarrow> f = ma_recvmsg_x A"
  by (auto simp: recvmsg_x_fn_def split: prod.splits)

text \<open>The array before and the slots after the call.\<close>

definition x_init :: "libc \<Rightarrow> RecvBatchRaw \<Rightarrow> msghdr_x list" where
  "x_init c b = map (\<lambda>s. x_entry c (rs_buf s)) (rb_slots b)"

lemma length_x_init [simp]: "length (x_init c b) = length (rb_slots b)"
  by (simp add: x_init_def)

lemma x_fill_result:
  assumes "list_all (\<lambda>i. i < length (rb_slots b)) is"
  shows "x_fill c b is msgs = Returns (msgs @ map (\<lambda>i. x_init c b ! i) is)"
  using assms by (induction "is" arbitrary: msgs) (simp_all add: slot_reads x_init_def)

lemma x_fill_all: "x_fill c b [0 ..< length (rb_slots b)] [] = Returns (x_init c b)"
  using x_fill_result [of b "[0 ..< length (rb_slots b)]" c "[]"] map_nth [of "x_init c b"]
  by (simp add: list_all_iff)

lemma x_sync_inv:
  assumes "rb_inv n b" and "length ms = length (rb_slots b)" and "\<forall>i < length ms. length (x_buf (ms ! i)) = n"
  shows "rb_inv n (x_sync b ms)" and "length (rb_slots (x_sync b ms)) = length (rb_slots b)"
    and "i < length (rb_slots b) \<Longrightarrow> rb_slots (x_sync b ms) ! i = (rb_slots b ! i)\<lparr>rs_buf := x_buf (ms ! i)\<rparr>"
  using assms by (auto simp: x_sync_def rb_inv_def list_all_length)

definition x_slot :: "libc \<Rightarrow> msghdr_x \<Rightarrow> RecvSlot \<Rightarrow> RecvSlot" where
  "x_slot c r s = s\<lparr>rs_recv_len := of_nat (x_datalen r), rs_addr := decode_sockaddr c (x_name r) (x_namelen r)\<rparr>"

lemma x_record_result:
  assumes "is = [i ..< j]" and "j \<le> length (rb_slots b)" and "j \<le> length ms" and "i \<le> j"
  shows "\<exists>b'. x_record c ms is b = Returns b' \<and> rb_len b' = rb_len b \<and>
     length (rb_slots b') = length (rb_slots b) \<and>
     (\<forall>l. rb_slots b' ! l = (if i \<le> l \<and> l < j then x_slot c (ms ! l) (rb_slots b ! l) else rb_slots b ! l))"
  using assms
proof (induction "is" arbitrary: i b)
  case Nil
  then have "i = j" using Nil.prems(1) [symmetric] by (auto simp: upt_eq_Nil_conv)
  then show ?case by (intro exI [of _ b]) auto
next
  case (Cons h hs)
  have h: "h = i" "i < j" and hs: "hs = [Suc i ..< j]"
    using Cons.prems(1) [symmetric] by (auto simp: upt_eq_Cons_conv)
  let ?b = "put_slot b i (x_slot c (ms ! i) (rb_slots b ! i))"
  have one: "x_record c ms (h # hs) b = x_record c ms hs ?b"
    using h Cons.prems(2,3) by (simp add: slot_op_put index_or_panic_def x_slot_def)
  from Cons.IH [OF hs, of ?b] h Cons.prems obtain b' where
    ih: "x_record c ms hs ?b = Returns b'" "rb_len b' = rb_len b" "length (rb_slots b') = length (rb_slots b)"
      "\<forall>l. rb_slots b' ! l = (if Suc i \<le> l \<and> l < j then x_slot c (ms ! l) (rb_slots ?b ! l) else rb_slots ?b ! l)"
    by auto
  have "rb_slots b' ! l = (if i \<le> l \<and> l < j then x_slot c (ms ! l) (rb_slots b ! l) else rb_slots b ! l)" for l
    using ih(4) h(2) Cons.prems(2) by (cases "l = i") auto
  with ih one show ?case by simp
qed

lemma retry_last:
  assumes "answers k f ms w" and "P ms w"
    and "\<And>ms w n ms' w'. P ms w \<Longrightarrow> f ms w = (n, ms', w') \<Longrightarrow> P ms' w'"
  shows "\<exists>ms1 w1 n ms' w'. P ms1 w1 \<and> f ms1 w1 = (n, ms', w') \<and>
     retry_eintr k f ms w = Some (if 0 \<le> n then Inr n else Inl (last_os_error k w'), ms', w')"
  using assms(1,2)
proof (induction rule: answers.induct)
  case (now ms w n ms' w')
  from retry_answer [of f, OF now(1,2)] now show ?case by blast
next
  case (later ms w n ms' w')
  have "retry_eintr k f ms w = retry_eintr k f ms' w'"
    using later(1-3) by (subst retry_eintr.simps) (simp add: Let_def)
  with later assms(3) show ?case by metis
qed

lemma macos_recv_call:
  assumes "0 < RecvBatchRaw_capacity b"
  shows "macos_try_recv_batch A k fd b w =
     (case recvmsg_x_fn A w of
        (Some _, w1) \<Rightarrow> call_recvmsg_x k (ma_recvmsg_x A) fd b (x_init (k_libc k) b) w1
      | (None, w1) \<Rightarrow> fallback_try_recv_batch k fd b w1)"
  using assms
  by (auto simp: macos_try_recv_batch_def x_fill_all [folded RecvBatchRaw_capacity_def] macos_plain_recv_def
      fallback_try_recv_batch_def split: prod.splits option.splits dest: recvmsg_x_fn_Some)

lemma call_recvmsg_x_shape:
  assumes "macos_rx_ok A k" and "rb_inv n b"
    and "call_recvmsg_x k (ma_recvmsg_x A) fd b (x_init (k_libc k) b) w = Returns (r, b', w')"
  shows "rb_inv n b' \<and> length (rb_slots b') = length (rb_slots b) \<and> (\<forall>l. r = Inr l \<longrightarrow> rb_len b' = l)"
proof -
  let ?c = "k_libc k" and ?cap = "length (rb_slots b)"
  let ?P = "\<lambda>ms w. length ms = ?cap \<and> (\<forall>i < ?cap. length (x_buf (ms ! i)) = n)"
  let ?f = "\<lambda>ms. ma_recvmsg_x A fd ms (of_nat ?cap)"
  from assms(3) obtain rc ms w1 where rt: "retry_eintr k ?f (x_init ?c b) w = Some (rc, ms, w1)"
    by (auto simp: call_recvmsg_x_def macos_retry_eintr_def RecvBatchRaw_capacity_def option_outcome_def outcome_simps
        split: option.splits)
  have "?P (x_init ?c b) w"
    using assms(2) by (simp add: x_init_def x_entry_def rb_inv_def list_all_length)
  from retry_last [OF retry_answers [OF rt], where P = ?P, OF this] macos_rx_okD(3,4) [OF assms(1)] rt
  obtain ms1 v j where c: "?P ms1 v" "?f ms1 v = (j, ms, w1)"
    "rc = (if 0 \<le> j then Inr j else Inl (last_os_error k w1))" by fastforce
  note ok = macos_rx_okD(2-) [OF assms(1) c(2)]
  have ms: "length ms = ?cap" "\<forall>i < length ms. length (x_buf (ms ! i)) = n" using c(1) ok by simp_all
  note sy = x_sync_inv [OF assms(2) ms]
  have j: "nat j \<le> ?cap"
    using le_trans [OF nat_le_unat [OF ok(1)] unat_of_nat_le [OF order_refl]] .
  obtain b2 where b2: "x_record ?c ms [0 ..< nat j] (x_sync b ms) = Returns b2"
    "length (rb_slots b2) = ?cap"
    "\<forall>l. rb_slots b2 ! l = (if l < nat j then x_slot ?c (ms ! l) (rb_slots (x_sync b ms) ! l)
       else rb_slots (x_sync b ms) ! l)"
    using x_record_result [of _ 0 "nat j" "x_sync b ms" ms ?c] j sy(2) ms(1) by auto
  have "x_datalen (ms ! i) \<le> n" if "i < nat j" for i
    using ok(4) [OF that] ms that j by simp
  then have "length (rs_buf (rb_slots b2 ! i)) = n \<and> unat (rs_recv_len (rb_slots b2 ! i)) \<le> n" if "i < ?cap" for i
    using b2(3) sy(1,2) that
    by (simp add: x_slot_def rb_inv_def list_all_length unat_of_nat_le)
  then have inv: "rb_inv n (RecvBatchRaw_set_len b2 (nat j))"
    using j b2(2) by (simp add: rb_inv_def RecvBatchRaw_set_len_def list_all_length)
  show ?thesis
    using assms(3) rt c(3) b2 sy inv
    by (auto simp: call_recvmsg_x_def macos_retry_eintr_def RecvBatchRaw_capacity_def option_outcome_def Let_def
        RecvBatchRaw_set_len_def split: if_splits)
qed

lemma slot_packet_x_filled:
  assumes "libc_ok c" and "wf_addr (snd p)" and "length (fst p) < 65536" and "length buf = n"
    and "x_filled c p (x_entry c buf) r"
  shows "slot_packet (x_slot c r (s\<lparr>rs_buf := x_buf r\<rparr>)) = cut_to n p"
proof -
  let ?l = "min (length (fst p)) n"
  have "?l mod 65536 = ?l" using assms(3) by (simp add: min_def)
  moreover have "decode_sockaddr c (x_name r) (x_namelen r) = snd p"
    using assms(5) by (intro decode_encode [OF assms(1,2)]) (auto simp: x_filled_def x_entry_def)
  ultimately show ?thesis
    using assms(4,5)
    by (simp add: slot_packet_def x_slot_def cut_to_def unat_of_nat_u16 x_filled_def x_entry_def)
qed

lemma call_recvmsg_x_delivers:
  assumes "macos_queue A k rxq" and "rb_inv n b" and "RecvBatchRaw_capacity b < 2 ^ 32"
    and "0 < RecvBatchRaw_capacity b" and "rxq w \<noteq> []"
  shows "\<exists>b' w'. call_recvmsg_x k (ma_recvmsg_x A) fd b (x_init (k_libc k) b) w =
       Returns (Inr (min (RecvBatchRaw_capacity b) (length (rxq w))), b', w') \<and>
     rxq w' = drop (RecvBatchRaw_capacity b) (rxq w) \<and>
     rb_packets b' = map (cut_to n) (take (RecvBatchRaw_capacity b) (rxq w))"
proof -
  let ?c = "k_libc k" and ?cap = "length (rb_slots b)" and ?q = "rxq w"
  let ?j = "min ?cap (length ?q)" and ?f = "\<lambda>ms. ma_recvmsg_x A fd ms (of_nat (length (rb_slots b)))"
  have v: "unat (of_nat ?cap :: u32) = ?cap" "0 < ?cap"
    using assms(3,4) by (simp_all add: RecvBatchRaw_capacity_def unat_of_nat_u32)
  obtain m ms w1 where rm: "?f (x_init ?c b) w = (m, ms, w1)" by (metis surj_pair)
  from macos_queue_recvmsg_x [OF assms(1) rm] v assms(5)
  have m: "m = int ?j" "length ms = ?cap" "rxq w1 = drop ?j ?q"
    and fl: "\<forall>i < ?j. x_filled ?c (?q ! i) (x_init ?c b ! i) (ms ! i)"
    and un: "\<forall>i < ?cap. ?j \<le> i \<longrightarrow> ms ! i = x_init ?c b ! i" by simp_all
  have rt: "retry_eintr k ?f (x_init ?c b) w = Some (Inr m, ms, w1)"
    using retry_answer [of ?f, OF rm, of k] m(1) by simp
  have bufs: "length (rs_buf (rb_slots b ! i)) = n" if "i < ?cap" for i
    using assms(2) that by (simp add: rb_inv_def list_all_length)
  have "length (x_buf (ms ! i)) = n" if "i < ?cap" for i
    using fl un that bufs [OF that] by (cases "i < ?j") (auto simp: x_filled_def x_init_def x_entry_def)
  then have "\<forall>i < length ms. length (x_buf (ms ! i)) = n" using m(2) by simp
  note sy = x_sync_inv(2,3) [OF assms(2) m(2) this]
  obtain b' where b': "x_record ?c ms [0 ..< ?j] (x_sync b ms) = Returns b'" "length (rb_slots b') = ?cap"
    "\<forall>i. rb_slots b' ! i = (if i < ?j then x_slot ?c (ms ! i) (rb_slots (x_sync b ms) ! i)
        else rb_slots (x_sync b ms) ! i)"
    using x_record_result [of _ 0 ?j "x_sync b ms" ms ?c] sy(1) m(2) by auto
  have "slot_packet (rb_slots b' ! i) = cut_to n (?q ! i)" if i: "i < ?j" for i
  proof -
    have "?q ! i \<in> set ?q" using i by simp
    note c = queue_contract_libc(1) [OF macos_queueD(1) [OF assms(1)]]
      queue_contract_libc(4,3) [OF macos_queueD(1) [OF assms(1)] this]
    show ?thesis
      using slot_packet_x_filled [OF c, of "rs_buf (rb_slots b ! i)" n "ms ! i" "rb_slots b ! i"] fl b'(3) sy i bufs
      by (simp add: x_init_def)
  qed
  then have "rb_packets (RecvBatchRaw_set_len b' ?j) = map (cut_to n) (take ?cap ?q)"
    using b'(2) by (intro nth_equalityI) (simp_all add: rb_packets_def RecvBatchRaw_set_len_def)
  with b'(1) rt m show ?thesis
    by (auto simp: call_recvmsg_x_def macos_retry_eintr_def RecvBatchRaw_capacity_def option_outcome_def Let_def min_def)
qed

lemma call_recvmsg_x_starved:
  assumes "macos_queue A k rxq" and "RecvBatchRaw_capacity b < 2 ^ 32"
    and "0 < RecvBatchRaw_capacity b" and "rxq w = []"
  shows "\<exists>e b' w'. call_recvmsg_x k (ma_recvmsg_x A) fd b (x_init (k_libc k) b) w = Returns (Inl e, b', w') \<and>
     rxq w' = [] \<and> kind (k_libc k) e = WouldBlock"
proof -
  let ?c = "k_libc k" and ?cap = "length (rb_slots b)"
  let ?f = "\<lambda>ms. ma_recvmsg_x A fd ms (of_nat (length (rb_slots b)))"
  have v: "unat (of_nat ?cap :: u32) = ?cap" "0 < ?cap"
    using assms(2,3) by (simp_all add: RecvBatchRaw_capacity_def unat_of_nat_u32)
  obtain m ms w1 where rm: "?f (x_init ?c b) w = (m, ms, w1)" by (metis surj_pair)
  from macos_queue_recvmsg_x [OF assms(1) rm] v assms(4)
  have m: "\<not> 0 \<le> m" "rxq w1 = []" and e: "last_os_error k w1 = Os (EAGAIN ?c)"
    by (simp_all add: last_os_error_def)
  have kd: "kind ?c (last_os_error k w1) = WouldBlock"
    unfolding e by (rule kind_EAGAIN [OF queue_contract_libc(2) [OF macos_queueD(1) [OF assms(1)]]])
  have "retry_eintr k ?f (x_init ?c b) w = Some (Inl (last_os_error k w1), ms, w1)"
    using retry_answer [of ?f, OF rm, of k] m(1) kd by simp
  with m(2) kd show ?thesis
    by (auto simp: call_recvmsg_x_def macos_retry_eintr_def RecvBatchRaw_capacity_def option_outcome_def Let_def)
qed

interpretation macos_recv: queue_backend "macos_try_recv_batch A" "macos_rx_ok A" "macos_queue A" "\<lambda>_. True" "\<lambda>_ _. True"
  for A :: "'w macos_api"
proof unfold_locales
  fix k :: "'w kernel" and n b fd w r b' w'
  assume k: "macos_rx_ok A k" and b: "rb_inv n b" and r: "macos_try_recv_batch A k fd b w = Returns (r, b', w')"
  show "rb_inv n b' \<and> RecvBatchRaw_capacity b' = RecvBatchRaw_capacity b"
  proof (cases "RecvBatchRaw_capacity b = 0")
    case False
    with r call_recvmsg_x_shape [OF k b] fallback_recv.keeps_inv [OF macos_rx_okD(1) [OF k] b] show ?thesis
      by (auto simp: macos_recv_call RecvBatchRaw_capacity_def split: prod.splits option.splits)
  qed (use r b in \<open>simp add: macos_try_recv_batch_def\<close>)
next
  fix k :: "'w kernel" and n b fd w l b' w'
  assume k: "macos_rx_ok A k" and b: "rb_inv n b" and "0 < l"
    and r: "macos_try_recv_batch A k fd b w = Returns (Inr l, b', w')"
  then have "0 < RecvBatchRaw_capacity b" by (auto simp: macos_try_recv_batch_def intro: Suc_leI ccontr)
  with r call_recvmsg_x_shape [OF k b] fallback_recv.received [OF macos_rx_okD(1) [OF k] b] \<open>0 < l\<close>
  show "RecvBatchRaw_len b' = l"
    by (auto simp: macos_recv_call RecvBatchRaw_len_def split: prod.splits option.splits)
next
  fix b fd w and k :: "'w kernel"
  show "RecvBatchRaw_capacity b = 0 \<Longrightarrow> macos_try_recv_batch A k fd b w = Returns (Inr 0, b, w)"
    by (simp add: macos_try_recv_batch_def)
next
  fix k :: "'w kernel" and rxq n b fd w
  assume q: "macos_queue A k rxq" and k: "macos_rx_ok A k" and b: "rb_inv n b"
    and c: "RecvBatchRaw_capacity b < 2 ^ 32" "0 < RecvBatchRaw_capacity b" and ne: "rxq w \<noteq> []"
  obtain f w1 where f: "recvmsg_x_fn A w = (f, w1)" by (metis surj_pair)
  have w1: "rxq w1 = rxq w" using macos_queueD(2) [OF q f] .
  have "list_all (\<lambda>_. True) (take (RecvBatchRaw_capacity b) (rxq w1))" by (simp add: list_all_iff)
  note fb = fallback_recv.delivers [OF macos_queueD(1) [OF q] macos_rx_okD(1) [OF k] b c _ TrueI this, of fd]
  show "\<exists>b' w'. macos_try_recv_batch A k fd b w =
          Returns (Inr (min (RecvBatchRaw_capacity b) (length (rxq w))), b', w') \<and>
        rxq w' = drop (RecvBatchRaw_capacity b) (rxq w) \<and>
        rb_packets b' = map (cut_to n) (take (RecvBatchRaw_capacity b) (rxq w))"
    using call_recvmsg_x_delivers [OF q b c, of w1 fd] fb ne w1 f c(2)
    by (cases f) (simp_all add: macos_recv_call)
next
  fix k :: "'w kernel" and rxq n b fd w
  assume q: "macos_queue A k rxq" and b: "rb_inv n b"
    and c: "RecvBatchRaw_capacity b < 2 ^ 32" "0 < RecvBatchRaw_capacity b" and e: "rxq w = []"
  obtain f w1 where f: "recvmsg_x_fn A w = (f, w1)" by (metis surj_pair)
  have w1: "rxq w1 = []" using macos_queueD(2) [OF q f] e by simp
  show "\<exists>r b' w'. macos_try_recv_batch A k fd b w = Returns (r, b', w') \<and> rxq w' = [] \<and>
        (r = Inr 0 \<or> (\<exists>e. r = Inl e \<and> kind (k_libc k) e = WouldBlock))"
    using call_recvmsg_x_starved [OF q c w1, of fd] fallback_recv.starved [OF macos_queueD(1) [OF q] b c w1 TrueI, of fd] f c(2)
    by (cases f) (auto simp: macos_recv_call)
qed

section \<open>A concrete system\<close>

text \<open>The private calls on the loopback of \<open>Delivery\<close>; \<open>present\<close>: the system has them.\<close>

definition x_fill_packet :: "libc \<Rightarrow> bytes \<times> SocketAddr \<Rightarrow> msghdr_x \<Rightarrow> msghdr_x" where
  "x_fill_packet c p r =
     (let (st, l) = encode_sockaddr c (snd p) (x_name r)
      in r\<lparr>x_buf := deposit (x_buf r) (fst p), x_name := st, x_namelen := l,
           x_datalen := min (length (fst p)) (length (x_buf r))\<rparr>)"

definition loopback_sendmsg_x :: "libc \<Rightarrow> tx_msg list \<Rightarrow> u32 \<Rightarrow> world \<Rightarrow> int \<times> world" where
  "loopback_sendmsg_x c msgs cnt w =
     (let n = min (w_budget w) (min (length msgs) (unat cnt)) in
      if n = 0 then refuse (EAGAIN c) w else (int n, accept (take n msgs) w))"

definition loopback_recvmsg_x ::
    "libc \<Rightarrow> msghdr_x list \<Rightarrow> u32 \<Rightarrow> world \<Rightarrow> int \<times> msghdr_x list \<times> world" where
  "loopback_recvmsg_x c ms cnt w =
     (let q = arrived w; n = min (min (unat cnt) (length ms)) (length q) in
      if q = [] then (- 1, ms, w\<lparr>w_errno := EAGAIN c\<rparr>)
      else (int n, map2 (x_fill_packet c) (take n q) (take n ms) @ drop n ms, w\<lparr>w_queue := drop n q\<rparr>))"

definition loopback_x :: "bool \<Rightarrow> libc \<Rightarrow> world macos_api" where
  "loopback_x present c =
     \<lparr>ma_dlsym = (\<lambda>_ w. (if present then 4096 else 0, w)),
      ma_send_addr = (\<lambda>_. None), ma_set_send_addr = (\<lambda>_ w. w),
      ma_recv_addr = (\<lambda>_. None), ma_set_recv_addr = (\<lambda>_ w. w),
      ma_sendmsg_x = (\<lambda>_ msgs cnt w. loopback_sendmsg_x c msgs cnt w),
      ma_recvmsg_x = (\<lambda>_ ms cnt w. loopback_recvmsg_x c ms cnt w)\<rparr>"

lemma loopback_x_sel:
  "ma_sendmsg_x (loopback_x present c) fd msgs cnt w = loopback_sendmsg_x c msgs cnt w"
  "ma_recvmsg_x (loopback_x present c) fd ms cnt w = loopback_recvmsg_x c ms cnt w"
  "ma_dlsym (loopback_x present c) name w = (if present then 4096 else 0, w)"
  "ma_set_send_addr (loopback_x present c) a w = w" "ma_set_recv_addr (loopback_x present c) a w = w"
  by (simp_all add: loopback_x_def)

lemma loopback_sendmsg_x_log:
  "loopback_sendmsg_x c msgs cnt w = (n, w') \<Longrightarrow>
     n \<le> uint cnt \<and> w_sent w' = w_sent w @ take (nat n) msgs \<and> (n < 0 \<longrightarrow> w_errno w' = EAGAIN c)"
  by (auto simp: loopback_sendmsg_x_def refuse_def accept_def Let_def intro!: int_le_uint
      split: if_splits)

lemma loopback_x_log:
  assumes "errno_ok c"
  shows "macos_log (loopback_x present c) (loopback c) w_sent"
proof -
  have "answers (loopback c) (\<lambda>_ w. let (n, w') = loopback_sendmsg_x c msgs cnt w in (n, (), w')) () w" for msgs cnt w
  proof -
    obtain n w' where r: "loopback_sendmsg_x c msgs cnt w = (n, w')" by (metis surj_pair)
    with loopback_sendmsg_x_log [OF r] have "0 \<le> n \<or> kind c (Os (w_errno w')) \<noteq> Interrupted"
      using kind_EAGAIN [OF assms] by (auto simp del: kind.simps)
    then show ?thesis
      using r by (intro answers.now [of _ _ _ n "()" w']) (simp_all add: loopback_sel last_os_error_def)
  qed
  then have "macos_tx_ok (loopback_x present c) (loopback c)"
    unfolding macos_tx_ok_def loopback_x_sel using loopback_sendmsg_x_log by blast
  then show ?thesis
    unfolding macos_log_def loopback_x_sel using loopback_log loopback_sendmsg_x_log by auto
qed

lemma loopback_recvmsg_x_msgs:
  assumes "loopback_recvmsg_x c ms cnt w = (n, ms', w')" and "arrived w \<noteq> []"
  shows "n = int (min (min (unat cnt) (length ms)) (length (arrived w)))"
    and "arrived w' = drop (nat n) (arrived w)" and "length ms' = length ms"
    and "i < nat n \<Longrightarrow> ms' ! i = x_fill_packet c (arrived w ! i) (ms ! i)"
    and "nat n \<le> i \<Longrightarrow> i < length ms \<Longrightarrow> ms' ! i = ms ! i"
  using assms by (auto simp: loopback_recvmsg_x_def Let_def arrived_drop nth_append)

lemma x_filled_packet: "x_filled c p r (x_fill_packet c p r)"
  by (simp add: x_filled_def x_fill_packet_def split: prod.splits)

lemma loopback_x_queue:
  assumes "libc_ok c" and "errno_ok c"
  shows "macos_queue (loopback_x present c) (loopback c) arrived"
proof -
  have "length ms' = length ms \<and>
     (if arrived w = [] then n < 0 \<and> w_errno w' = EAGAIN c \<and> arrived w' = [] \<and> ms' = ms
      else n = int (min (unat cnt) (length (arrived w))) \<and> arrived w' = drop (nat n) (arrived w) \<and>
        (\<forall>i < nat n. x_filled c (arrived w ! i) (ms ! i) (ms' ! i)) \<and>
        (\<forall>i < length ms. nat n \<le> i \<longrightarrow> ms' ! i = ms ! i))"
    if r: "loopback_recvmsg_x c ms cnt w = (n, ms', w')" and "unat cnt \<le> length ms"
    for ms cnt w n ms' w'
  proof (cases "arrived w = []")
    case True
    with r show ?thesis by (auto simp: loopback_recvmsg_x_def) (simp add: arrived_def)
  next
    case False
    from loopback_recvmsg_x_msgs [OF r False] that(2) False show ?thesis
      by (simp add: x_filled_packet min_absorb1)
  qed
  then show ?thesis
    unfolding macos_queue_def loopback_x_sel loopback_sel using loopback_queue [OF assms] by simp
qed

lemma loopback_x_recv: "macos_rx_ok (loopback_x present c) (loopback c)"
proof -
  have "n \<le> uint cnt \<and> length ms' = length ms \<and>
      (\<forall>i < length ms. length (x_buf (ms' ! i)) = length (x_buf (ms ! i))) \<and>
      (\<forall>i < nat n. x_datalen (ms' ! i) \<le> length (x_buf (ms' ! i)))"
    if r: "loopback_recvmsg_x c ms cnt w = (n, ms', w')" for ms cnt w n ms' w'
  proof (cases "arrived w = []")
    case True
    with r show ?thesis by (auto simp: loopback_recvmsg_x_def)
  next
    case False
    note m = loopback_recvmsg_x_msgs [OF r False]
    have f: "length (x_buf (x_fill_packet c p x)) = length (x_buf x)"
      "x_datalen (x_fill_packet c p x) \<le> length (x_buf (x_fill_packet c p x))" for p x
      by (simp_all add: x_fill_packet_def split: prod.splits)
    have "length (x_buf (ms' ! i)) = length (x_buf (ms ! i))" if "i < length ms" for i
      by (cases "i < nat n") (use that m(4,5) f in auto)
    moreover have "n \<le> uint cnt" unfolding m(1) by (rule int_le_uint) simp
    ultimately show ?thesis using m(3,4) f(2) by simp
  qed
  then show ?thesis
    unfolding macos_rx_ok_def loopback_x_sel using loopback_recv by blast
qed

lemmas macos_loopback = loopback_x_queue [OF macos_libc_ok errno_ok_targets(2)] loopback_x_recv [of _ macos_libc]

section \<open>Properties\<close>


lemma byte_batch_dests: "dests_first (byte_batch n)"
  by (simp add: dests_first_def byte_batch_def sb_entries_def)






end
