(* ===== verification/Sockaddr_Windows.thy ===== *)
theory Sockaddr_Windows
  imports Sockaddr
begin

text \<open>
  \<^verbatim>\<open>sockaddr/windows_impl.rs\<close> and \<^verbatim>\<open>sys/windows.rs\<close>: the same services as \<open>Sockaddr\<close>, on
  WinSock. The constants and layouts of \<^verbatim>\<open>windows_sys\<close> are again a \<open>libc\<close> (\<open>windows_abi\<close> says
  what is particular about it), the calls that have the shape of their POSIX counterparts are
  those of \<open>kernel\<close>, and \<open>winsock\<close> holds the others.
\<close>

section \<open>WinSock\<close>

text \<open>
  \<^verbatim>\<open>sendto\<close>, \<^verbatim>\<open>send\<close> and \<^verbatim>\<open>recvfrom\<close> take the length of the buffer as an \<^verbatim>\<open>i32\<close>, given here
  by its 32 bits; so does every address length. \<^verbatim>\<open>WSASendMsg\<close> gets one message and reports
  through \<^verbatim>\<open>bytes_sent\<close>. \<^verbatim>\<open>WSARecvMsg\<close> gets a buffer with its length and an address storage
  with its length, and reports through \<^verbatim>\<open>bytes_recv\<close>. It is an extension function: \<^verbatim>\<open>WSAIoctl\<close>
  writes its address, and \<open>ws_WSARecvMsg\<close> is the function there. \<open>ws_ptr\<close> reads the static
  \<^verbatim>\<open>WSARECVMSG_PTR\<close> (\<open>None\<close> before its initialisation).
\<close>

record 'w winsock =
  ws_sendto :: "fd \<Rightarrow> bytes \<Rightarrow> u32 \<Rightarrow> bytes \<Rightarrow> u32 \<Rightarrow> 'w \<Rightarrow> int \<times> 'w"
  ws_send :: "fd \<Rightarrow> bytes \<Rightarrow> u32 \<Rightarrow> 'w \<Rightarrow> int \<times> 'w"
  ws_recvfrom :: "fd \<Rightarrow> bytes \<Rightarrow> u32 \<Rightarrow> bytes \<Rightarrow> u32 \<Rightarrow> 'w \<Rightarrow> int \<times> bytes \<times> bytes \<times> u32 \<times> 'w"
  ws_WSASendMsg :: "fd \<Rightarrow> tx_msg \<Rightarrow> 'w \<Rightarrow> int \<times> u32 \<times> 'w"
  ws_WSARecvMsg :: "fd \<Rightarrow> bytes \<Rightarrow> u32 \<Rightarrow> bytes \<Rightarrow> u32 \<Rightarrow> 'w \<Rightarrow> int \<times> u32 \<times> bytes \<times> bytes \<times> u32 \<times> 'w"
  ws_socket :: "int \<Rightarrow> int \<Rightarrow> int \<Rightarrow> 'w \<Rightarrow> fd \<times> 'w"
  ws_WSAIoctl :: "fd \<Rightarrow> nat option \<Rightarrow> 'w \<Rightarrow> int \<times> nat option \<times> 'w"
  ws_ptr :: "'w \<Rightarrow> nat option option"
  ws_set_ptr :: "nat option \<Rightarrow> 'w \<Rightarrow> 'w"

text \<open>A family (\<^verbatim>\<open>ADDRESS_FAMILY\<close>) is a \<^verbatim>\<open>u16\<close>.\<close>

definition windows_abi :: "libc \<Rightarrow> bool" where
  "windows_abi c \<longleftrightarrow> libc_ok c \<and> \<not> family_u8 c"

definition windows_libc :: libc where
  "windows_libc = linux_libc
     \<lparr>EAGAIN := 10035, EWOULDBLOCK := 10035, EINTR := 10004, ENOSYS := 10045, AF_INET6 := 23,
      SOL_SOCKET := 65535, SO_SNDBUF := 4097, SO_RCVBUF := 4098, IP_TTL := 4\<rparr>"

lemma windows_libc_ok: "libc_ok windows_libc" "windows_abi windows_libc" "errno_ok windows_libc"
  by (simp_all add: windows_abi_def libc_ok_def errno_ok_def windows_libc_def linux_libc_def apart_def family_width_def)

section \<open>Addresses\<close>

fun win_encode_sockaddr :: "libc \<Rightarrow> SocketAddr \<Rightarrow> bytes \<Rightarrow> bytes \<times> u32" where
  "win_encode_sockaddr c (V4 ip port) st =
     (let le = little_endian c; s_addr = of_ne_bytes32 le (v4_octets ip)
      in (write_struct st (size_sockaddr_in c)
            [(off_family c, ne_bytes16 le (word_of_int (AF_INET c))),
             (off_sin_port c, ne_bytes16 le (to_be16 le port)),
             (off_sin_addr c, ne_bytes32 le s_addr),
             (off_sin_zero c, replicate 8 0)],
          of_nat (size_sockaddr_in c)))"
| "win_encode_sockaddr c (V6 ip port flowinfo scope_id) st =
     (let le = little_endian c
      in (write_struct st (size_sockaddr_in6 c)
            [(off_family c, ne_bytes16 le (word_of_int (AF_INET6 c))),
             (off_sin6_port c, ne_bytes16 le (to_be16 le port)),
             (off_sin6_flowinfo c, ne_bytes32 le flowinfo),
             (off_sin6_addr c, v6_octets ip),
             (off_sin6_scope_id c, ne_bytes32 le scope_id)],
          of_nat (size_sockaddr_in6 c)))"

text \<open>\<^verbatim>\<open>storage.ss_family as i32\<close>, of a \<^verbatim>\<open>u16\<close>.\<close>

definition win_ss_family :: "libc \<Rightarrow> bytes \<Rightarrow> int" where
  "win_ss_family c st = uint (of_ne_bytes16 (little_endian c) (get_bytes st (off_family c) 2))"

definition win_decode_sockaddr :: "libc \<Rightarrow> bytes \<Rightarrow> u32 \<Rightarrow> SocketAddr" where
  "win_decode_sockaddr c st len =
     (if len = 0 then V4 (Ipv4Addr 0 0 0 0) 0
      else let le = little_endian c in
      if win_ss_family c st = AF_INET c then
        (let ip = v4_from_u32 (from_be32 le (of_ne_bytes32 le (get_bytes st (off_sin_addr c) 4)));
             port = from_be16 le (of_ne_bytes16 le (get_bytes st (off_sin_port c) 2))
         in V4 ip port)
      else if win_ss_family c st = AF_INET6 c then
        (let ip = Ipv6Addr (get_bytes st (off_sin6_addr c) 16);
             port = from_be16 le (of_ne_bytes16 le (get_bytes st (off_sin6_port c) 2))
         in V6 ip port (of_ne_bytes32 le (get_bytes st (off_sin6_flowinfo c) 4))
              (of_ne_bytes32 le (get_bytes st (off_sin6_scope_id c) 4)))
      else V4 (Ipv4Addr 0 0 0 0) 0)"

section \<open>Raw calls\<close>

definition win_is_connected :: "'w kernel \<Rightarrow> fd \<Rightarrow> 'w \<Rightarrow> bool \<times> 'w" where
  "win_is_connected k fd w =
     (let c = k_libc k;
          (ret, _, _, w') = k_getpeername k fd (zeroed_storage c) (of_nat (size_storage c)) w
      in (ret = 0, w'))"

definition win_raw_getsockname :: "'w kernel \<Rightarrow> fd \<Rightarrow> 'w \<Rightarrow> SocketAddr io_result \<times> 'w" where
  "win_raw_getsockname k fd w =
     (let c = k_libc k;
          (ret, st, len, w') = k_getsockname k fd (zeroed_storage c) (of_nat (size_storage c)) w
      in (if ret = 0 then Inr (win_decode_sockaddr c st len) else Inl (last_os_error k w'), w'))"

definition win_raw_connect :: "'w kernel \<Rightarrow> fd \<Rightarrow> SocketAddr \<Rightarrow> 'w \<Rightarrow> unit io_result \<times> 'w" where
  "win_raw_connect k fd addr w =
     (let (st, addr_len) = win_encode_sockaddr (k_libc k) addr (zeroed_storage (k_libc k));
          (ret, w') = k_connect k fd st addr_len w
      in (if ret = 0 then Inr () else Inl (last_os_error k w'), w'))"

definition win_raw_setsockopt :: "'w kernel \<Rightarrow> fd \<Rightarrow> int \<Rightarrow> int \<Rightarrow> u32 \<Rightarrow> 'w \<Rightarrow> unit io_result \<times> 'w" where
  "win_raw_setsockopt k fd level optname val w =
     (let (ret, w') = k_setsockopt k fd level optname val 4 w
      in (if ret = 0 then Inr () else Inl (last_os_error k w'), w'))"

definition win_raw_sendto ::
    "'w winsock \<Rightarrow> 'w kernel \<Rightarrow> fd \<Rightarrow> bytes \<Rightarrow> SocketAddr \<Rightarrow> 'w \<Rightarrow> nat io_result \<times> 'w" where
  "win_raw_sendto W k fd data addr w =
     (let (st, addr_len) = win_encode_sockaddr (k_libc k) addr (zeroed_storage (k_libc k));
          (ret, w') = ws_sendto W fd data (of_nat (length data)) st addr_len w
      in (if 0 \<le> ret then Inr (nat ret) else Inl (last_os_error k w'), w'))"

definition win_raw_send :: "'w winsock \<Rightarrow> 'w kernel \<Rightarrow> fd \<Rightarrow> bytes \<Rightarrow> 'w \<Rightarrow> nat io_result \<times> 'w" where
  "win_raw_send W k fd data w =
     (let (ret, w') = ws_send W fd data (of_nat (length data)) w
      in (if 0 \<le> ret then Inr (nat ret) else Inl (last_os_error k w'), w'))"

definition win_raw_recvfrom ::
    "'w winsock \<Rightarrow> 'w kernel \<Rightarrow> fd \<Rightarrow> bytes \<Rightarrow> 'w \<Rightarrow> (nat \<times> SocketAddr) io_result \<times> bytes \<times> 'w" where
  "win_raw_recvfrom W k fd buf w =
     (let c = k_libc k;
          (ret, buf', st, addr_len, w') =
            ws_recvfrom W fd buf (of_nat (length buf)) (zeroed_storage c) (of_nat (size_storage c)) w
      in (if 0 \<le> ret then Inr (nat ret, win_decode_sockaddr c st addr_len)
          else Inl (last_os_error k w'), buf', w'))"

definition win_raw_getsockopt :: "'w kernel \<Rightarrow> fd \<Rightarrow> int \<Rightarrow> int \<Rightarrow> 'w \<Rightarrow> u32 io_result \<times> 'w" where
  "win_raw_getsockopt k fd level optname w =
     (let (ret, val, w') = k_getsockopt k fd level optname 0 4 w
      in (if ret = 0 then Inr val else Inl (last_os_error k w'), w'))"

text \<open>\<^verbatim>\<open>closesocket\<close>.\<close>

definition win_close_fd :: "'w kernel \<Rightarrow> fd \<Rightarrow> 'w \<Rightarrow> 'w" where
  "win_close_fd k fd w = k_close k fd w"

section \<open>The two implementations agree\<close>

lemma win_encode_eq: "\<not> family_u8 c \<Longrightarrow> win_encode_sockaddr c a st = encode_sockaddr c a st"
  by (cases a) (simp_all add: family_bytes_def Let_def)

lemma win_decode_eq: "\<not> family_u8 c \<Longrightarrow> win_decode_sockaddr c st len = decode_sockaddr c st len"
  by (simp add: win_decode_sockaddr_def decode_sockaddr_def win_ss_family_def ss_family_def family_width_def
      UNSPECIFIED_V4_def Let_def)

interpretation windows_codec: addr_codec
  "win_encode_sockaddr windows_libc" "win_decode_sockaddr windows_libc" "\<lambda>st. length st = size_storage windows_libc"
proof -
  have u: "\<not> family_u8 windows_libc" by (simp add: windows_libc_def linux_libc_def)
  have "win_encode_sockaddr windows_libc = encode_sockaddr windows_libc"
    "win_decode_sockaddr windows_libc = decode_sockaddr windows_libc"
    by (intro ext win_encode_eq win_decode_eq u)+
  with unix_addr_codec [OF windows_libc_ok(1)] show "addr_codec (win_encode_sockaddr windows_libc)
    (win_decode_sockaddr windows_libc) (\<lambda>st. length st = size_storage windows_libc)" by simp
qed

text \<open>POSIX and WinSock calls that only succeed or fail: 0 or a negative number.\<close>

definition binary_calls :: "'w kernel \<Rightarrow> bool" where
  "binary_calls k \<longleftrightarrow>
     (\<forall>fd st l w. fst (k_getsockname k fd st l w) \<in> {- 1, 0}) \<and>
     (\<forall>fd st l w. fst (k_connect k fd st l w) \<in> {- 1, 0}) \<and>
     (\<forall>fd level name v l w. fst (k_setsockopt k fd level name v l w) \<in> {- 1, 0}) \<and>
     (\<forall>fd level name v l w. fst (k_getsockopt k fd level name v l w) \<in> {- 1, 0})"

lemma ret_zero: "ret \<in> {- 1, 0 :: int} \<Longrightarrow> ret = 0 \<longleftrightarrow> \<not> ret < 0"
  by auto

end
