(* ===== verification/Windows_Io.thy ===== *)
theory Windows_Io
  imports Fallback Sockaddr_Windows
begin

text \<open>
  \<^verbatim>\<open>platform/windows.rs\<close>: \<^verbatim>\<open>WSASendMsg\<close> and \<^verbatim>\<open>WSARecvMsg\<close> in loops, one datagram per call, with the
  module's own copies of the address codec and the loading of \<^verbatim>\<open>WSARecvMsg\<close>.
\<close>

section \<open>Address helpers\<close>

fun encode_addr_into :: "libc \<Rightarrow> SocketAddr \<Rightarrow> bytes \<Rightarrow> u32 \<Rightarrow> bytes \<times> u32" where
  "encode_addr_into c (V4 ip port) storage namelen =
     (let le = little_endian c; s_addr = of_ne_bytes32 le (v4_octets ip);
          storage' = write_struct storage (size_sockaddr_in c)
            [(off_family c, ne_bytes16 le (word_of_int (AF_INET c))),
             (off_sin_port c, ne_bytes16 le (to_be16 le port)),
             (off_sin_addr c, ne_bytes32 le s_addr),
             (off_sin_zero c, replicate 8 0)];
          namelen' = of_nat (size_sockaddr_in c)
      in (storage', namelen'))"
| "encode_addr_into c (V6 ip port flowinfo scope_id) storage namelen =
     (let le = little_endian c;
          storage' = write_struct storage (size_sockaddr_in6 c)
            [(off_family c, ne_bytes16 le (word_of_int (AF_INET6 c))),
             (off_sin6_port c, ne_bytes16 le (to_be16 le port)),
             (off_sin6_flowinfo c, ne_bytes32 le flowinfo),
             (off_sin6_addr c, v6_octets ip),
             (off_sin6_scope_id c, ne_bytes32 le scope_id)];
          namelen' = of_nat (size_sockaddr_in6 c)
      in (storage', namelen'))"

text \<open>The module's own \<^verbatim>\<open>decode_sockaddr\<close>.\<close>

definition windows_decode_sockaddr :: "libc \<Rightarrow> bytes \<Rightarrow> u32 \<Rightarrow> SocketAddr" where
  "windows_decode_sockaddr c storage namelen =
     (if namelen = 0 then V4 (Ipv4Addr 0 0 0 0) 0
      else let le = little_endian c; x = win_ss_family c storage in
      if x = AF_INET c then
        (let ip = v4_from_u32 (from_be32 le (of_ne_bytes32 le (get_bytes storage (off_sin_addr c) 4)));
             port = from_be16 le (of_ne_bytes16 le (get_bytes storage (off_sin_port c) 2))
         in V4 ip port)
      else if x = AF_INET6 c then
        (let ip = Ipv6Addr (get_bytes storage (off_sin6_addr c) 16);
             port = from_be16 le (of_ne_bytes16 le (get_bytes storage (off_sin6_port c) 2))
         in V6 ip port (of_ne_bytes32 le (get_bytes storage (off_sin6_flowinfo c) 4))
              (of_ne_bytes32 le (get_bytes storage (off_sin6_scope_id c) 4)))
      else V4 (Ipv4Addr 0 0 0 0) 0)"

section \<open>Loading WSARecvMsg\<close>

definition SOCK_DGRAM :: int where
  "SOCK_DGRAM = 2"

definition INVALID_SOCKET :: fd where
  "INVALID_SOCKET = 2 ^ 64 - 1"

definition SOCKET_ERROR :: int where
  "SOCKET_ERROR = - 1"

definition get_wsa_recvmsg :: "'w winsock \<Rightarrow> 'w kernel \<Rightarrow> 'w \<Rightarrow> nat option \<times> 'w" where
  "get_wsa_recvmsg W k w =
     (case ws_ptr W w of
        Some p \<Rightarrow> (p, w)
      | None \<Rightarrow>
          let (p, w') =
                (let (s, w1) = ws_socket W (AF_INET (k_libc k)) SOCK_DGRAM 0 w in
                 if s = INVALID_SOCKET then (None, w1)
                 else let (rc, func_ptr, w2) = ws_WSAIoctl W s None w1; w3 = k_close k s w2
                   in (if rc = SOCKET_ERROR then None else func_ptr, w3))
          in (p, ws_set_ptr W p w'))"

section \<open>try_send_batch\<close>

text \<open>The message of one entry: \<^verbatim>\<open>data.len() as u32\<close> bytes of it, and a name unless the socket is
  connected.\<close>

definition wsa_tx_msg :: "libc \<Rightarrow> memory \<Rightarrow> bool \<Rightarrow> slice \<Rightarrow> SocketAddr option \<Rightarrow> tx_msg" where
  "wsa_tx_msg c m is_conn data addr =
     (let (addr_storage, namelen) =
            (case addr of
               Some target \<Rightarrow> if \<not> is_conn then encode_addr_into c target (zeroed_storage c) 0
                               else (zeroed_storage c, 0)
             | None \<Rightarrow> (zeroed_storage c, 0));
          use_addr = (\<not> is_conn \<and> addr \<noteq> None)
      in \<lparr>tx_name = (if use_addr then Some (addr_storage, namelen) else None),
          tx_data = take (unat (of_nat (slice_len data) :: u32)) (payload m data)\<rparr>)"

fun windows_send_loop ::
    "'w winsock \<Rightarrow> 'w kernel \<Rightarrow> fd \<Rightarrow> memory \<Rightarrow> SendBatchRaw \<Rightarrow> bool \<Rightarrow> nat list \<Rightarrow> nat \<Rightarrow> 'w
       \<Rightarrow> (nat io_result \<times> 'w) outcome" where
  "windows_send_loop W k fd m b is_conn [] sent w = Returns (Inr sent, w)"
| "windows_send_loop W k fd m b is_conn (i # is) sent w =
     outcome_bind (SendBatchRaw_entry m b i) (\<lambda>(data, addr).
       let (rc, _, w') = ws_WSASendMsg W fd (wsa_tx_msg (k_libc k) m is_conn data addr) w in
       if rc = 0 then windows_send_loop W k fd m b is_conn is (sent + 1) w'
       else let err = last_os_error k w' in
         if kind (k_libc k) err = WouldBlock then Returns (Inr sent, w')
         else if 0 < sent then Returns (Inr sent, w')
         else Returns (Inl err, w'))"

definition windows_try_send_batch ::
    "'w winsock \<Rightarrow> 'w kernel \<Rightarrow> fd \<Rightarrow> memory \<Rightarrow> SendBatchRaw \<Rightarrow> 'w \<Rightarrow> (nat io_result \<times> 'w) outcome" where
  "windows_try_send_batch W k fd m b w =
     (let len = SendBatchRaw_len b in
      if len = 0 then Returns (Inr 0, w)
      else let (is_conn, w1) = win_is_connected k fd w
        in windows_send_loop W k fd m b is_conn [0 ..< len] 0 w1)"

section \<open>try_recv_batch\<close>

text \<open>
  One receive: result, address length, address storage, the buffer afterwards. An \<^verbatim>\<open>i32\<close> cast
  to \<^verbatim>\<open>usize\<close> is sign-extended.
\<close>

definition windows_recv_one ::
    "'w winsock \<Rightarrow> 'w kernel \<Rightarrow> fd \<Rightarrow> bytes \<Rightarrow> 'w \<Rightarrow> nat io_result \<times> u32 \<times> bytes \<times> bytes \<times> 'w" where
  "windows_recv_one W k fd buf w =
     (let c = k_libc k; source = zeroed_storage c; size = of_nat (size_storage c) in
      case get_wsa_recvmsg W k w of
        (Some _, w1) \<Rightarrow>
          let (rc, bytes_recv, buf', source', namelen, w2) =
                ws_WSARecvMsg W fd buf (of_nat (length buf)) source size w1
          in if rc = SOCKET_ERROR then (Inl (last_os_error k w2), 0, source', buf', w2)
             else (Inr (unat bytes_recv), namelen, source', buf', w2)
      | (None, w1) \<Rightarrow>
          let (rc, buf', source', addr_len, w2) = ws_recvfrom W fd buf (of_nat (length buf)) source size w1
          in if rc = SOCKET_ERROR then (Inl (last_os_error k w2), 0, source', buf', w2)
             else (Inr (nat (rc mod 2 ^ 64)), addr_len, source', buf', w2))"

fun windows_recv_loop ::
    "'w winsock \<Rightarrow> 'w kernel \<Rightarrow> fd \<Rightarrow> nat list \<Rightarrow> nat \<Rightarrow> RecvBatchRaw \<Rightarrow> 'w
       \<Rightarrow> (nat io_result \<times> RecvBatchRaw \<times> 'w) outcome" where
  "windows_recv_loop W k fd [] received b w = Returns (Inr received, b, w)"
| "windows_recv_loop W k fd (i # is) received b w =
     outcome_bind (RecvBatchRaw_buffer_mut b i) (\<lambda>(buf, _).
       let (result, addr_len, source, buf', w') = windows_recv_one W k fd buf w in
       outcome_bind (write_buffer b i buf') (\<lambda>b0.
         case result of
           Inr n \<Rightarrow>
             let decoded = windows_decode_sockaddr (k_libc k) source addr_len in
             outcome_bind (RecvBatchRaw_set_recv_len b0 i n) (\<lambda>b1.
               outcome_bind (write_addr b1 i decoded) (\<lambda>b2.
                 windows_recv_loop W k fd is (received + 1) (RecvBatchRaw_set_len b2 (i + 1)) w'))
         | Inl e \<Rightarrow> if kind (k_libc k) e = WouldBlock then Returns (Inr received, b0, w')
                   else Returns (Inl e, b0, w')))"

definition windows_try_recv_batch ::
    "'w winsock \<Rightarrow> 'w kernel \<Rightarrow> fd \<Rightarrow> RecvBatchRaw \<Rightarrow> 'w \<Rightarrow> (nat io_result \<times> RecvBatchRaw \<times> 'w) outcome" where
  "windows_try_recv_batch W k fd b w =
     (let capacity = RecvBatchRaw_capacity b in
      if capacity = 0 then Returns (Inr 0, b, w)
      else windows_recv_loop W k fd [0 ..< capacity] 0 b w)"

section \<open>What WinSock promises\<close>

text \<open>
  \<^verbatim>\<open>WSASendMsg\<close> on a socket without an overlapped operation: 0 means the datagram was taken, any
  other result that it was not.
\<close>

definition winsock_log :: "'w winsock \<Rightarrow> 'w kernel \<Rightarrow> ('w \<Rightarrow> tx_msg list) \<Rightarrow> bool" where
  "winsock_log W k txlog \<longleftrightarrow> windows_abi (k_libc k) \<and>
     (\<forall>fd msg w rc n w'. ws_WSASendMsg W fd msg w = (rc, n, w') \<longrightarrow>
        txlog w' = txlog w @ (if rc = 0 then [msg] else [])) \<and>
     (\<forall>fd st l w n st' l' w'. k_getpeername k fd st l w = (n, st', l', w') \<longrightarrow> txlog w' = txlog w)"

text \<open>
  Receives: never more bytes than the length given, the buffer keeps its size, and
  \<^verbatim>\<open>recvfrom\<close> returns a length or \<^verbatim>\<open>SOCKET_ERROR\<close>.
\<close>

definition winsock_rx_ok :: "'w winsock \<Rightarrow> 'w kernel \<Rightarrow> bool" where
  "winsock_rx_ok W k \<longleftrightarrow>
     (\<forall>fd buf l st sl w rc n buf' st' sl' w'. ws_WSARecvMsg W fd buf l st sl w = (rc, n, buf', st', sl', w') \<longrightarrow>
        length buf' = length buf \<and> (rc \<noteq> SOCKET_ERROR \<longrightarrow> n \<le> l)) \<and>
     (\<forall>fd buf l st sl w rc buf' st' sl' w'. ws_recvfrom W fd buf l st sl w = (rc, buf', st', sl', w') \<longrightarrow>
        length buf' = length buf \<and> (rc \<noteq> SOCKET_ERROR \<longrightarrow> 0 \<le> rc \<and> rc \<le> uint l))"

text \<open>
  Against a queue: a datagram that fits is taken off and stored with its source; an empty
  queue is \<^verbatim>\<open>WSAEWOULDBLOCK\<close>. A datagram longer than the buffer fails with \<^verbatim>\<open>WSAEMSGSIZE\<close>: the
  start of it is stored and the rest is lost, and it leaves the queue. Finding the extension function
  leaves the queue alone.
\<close>

definition WSAEMSGSIZE :: int where
  "WSAEMSGSIZE = 10040"

definition winsock_take ::
    "'w kernel \<Rightarrow> ('w \<Rightarrow> (bytes \<times> SocketAddr) list) \<Rightarrow> bytes \<Rightarrow> u32 \<Rightarrow> bytes \<Rightarrow> 'w
       \<Rightarrow> bool \<Rightarrow> nat \<Rightarrow> bytes \<Rightarrow> bytes \<Rightarrow> u32 \<Rightarrow> 'w \<Rightarrow> bool" where
  "winsock_take k rxq buf l st w ok n buf' st' sl' w' \<longleftrightarrow>
     (case rxq w of
        [] \<Rightarrow> \<not> ok \<and> k_errno k w' = EAGAIN (k_libc k) \<and> rxq w' = []
      | p # q \<Rightarrow> rxq w' = q \<and>
          (if length (fst p) \<le> unat l
           then ok \<and> n = length (fst p) \<and> buf' = deposit buf (fst p) \<and>
             encode_sockaddr (k_libc k) (snd p) st = (st', sl')
           else \<not> ok \<and> k_errno k w' = WSAEMSGSIZE))"

definition winsock_queue :: "'w winsock \<Rightarrow> 'w kernel \<Rightarrow> ('w \<Rightarrow> (bytes \<times> SocketAddr) list) \<Rightarrow> bool" where
  "winsock_queue W k rxq \<longleftrightarrow> windows_abi (k_libc k) \<and> errno_ok (k_libc k) \<and>
     WSAEMSGSIZE \<notin> {EAGAIN (k_libc k), EWOULDBLOCK (k_libc k), EINTR (k_libc k)} \<and>
     (\<forall>w. \<forall>p \<in> set (rxq w). length (fst p) < 65536 \<and> wf_addr (snd p)) \<and>
     (\<forall>fam ty proto w. rxq (snd (ws_socket W fam ty proto w)) = rxq w) \<and>
     (\<forall>s p w. rxq (snd (snd (ws_WSAIoctl W s p w))) = rxq w) \<and>
     (\<forall>s w. rxq (k_close k s w) = rxq w) \<and> (\<forall>p w. rxq (ws_set_ptr W p w) = rxq w) \<and>
     (\<forall>fd buf l st sl w rc n buf' st' sl' w'. ws_WSARecvMsg W fd buf l st sl w = (rc, n, buf', st', sl', w') \<longrightarrow>
        winsock_take k rxq buf l st w (rc \<noteq> SOCKET_ERROR) (unat n) buf' st' sl' w') \<and>
     (\<forall>fd buf l st sl w rc buf' st' sl' w'. ws_recvfrom W fd buf l st sl w = (rc, buf', st', sl', w') \<longrightarrow>
        unat l < 2 ^ 31 \<longrightarrow> winsock_take k rxq buf l st w (rc \<noteq> SOCKET_ERROR) (nat rc) buf' st' sl' w' \<and>
          (rc \<noteq> SOCKET_ERROR \<longrightarrow> 0 \<le> rc \<and> rc < 2 ^ 31))"

section \<open>The codec copies\<close>

lemma encode_addr_into_eq: "encode_addr_into c a st l = win_encode_sockaddr c a st"
  by (cases a) (simp_all add: Let_def)

lemma windows_decode_eq: "windows_decode_sockaddr c st l = win_decode_sockaddr c st l"
  by (simp add: windows_decode_sockaddr_def win_decode_sockaddr_def Let_def)

section \<open>The send\<close>

text \<open>\<^verbatim>\<open>WSABUF\<close> holds lengths of 32 bits.\<close>

definition wsa_sendable :: "SendBatchRaw \<Rightarrow> bool" where
  "wsa_sendable b \<longleftrightarrow> list_all (\<lambda>e. slice_len (fst e) < 2 ^ 32) (sb_entries b)"

lemma wsa_tx_msg_datagram:
  assumes "\<not> family_u8 c" and "slice_len d < 2 ^ 32" and "length (payload m d) \<le> slice_len d"
  shows "wsa_tx_msg c m is_conn d a = strip_name is_conn (datagram c m (d, a))"
  using assms
  by (cases a) (auto simp: wsa_tx_msg_def datagram_def strip_name_def encode_addr_into_eq win_encode_eq unat_of_nat_u32
      split: prod.splits)

lemma length_payload: "length (payload m d) \<le> slice_len d"
  by (auto simp: payload_def dest: read_mem_length split: option.splits)

text \<open>An error is returned only when nothing was sent before it.\<close>

lemma windows_send_loop_log:
  assumes "winsock_log W k txlog" and "sb_inv b" and "sb_readable m b" and "wsa_sendable b"
    and "i + length is = sb_len b" and "is = [i ..< sb_len b]"
  shows "\<exists>r w' n. windows_send_loop W k fd m b is_conn is sent w = Returns (r, w') \<and> n \<le> length is \<and>
     txlog w' = txlog w @ take n (drop i (map (strip_name is_conn) (datagrams (k_libc k) m b))) \<and>
     (r = Inr (sent + n) \<or>
      (\<exists>e. r = Inl e \<and> kind (k_libc k) e \<noteq> WouldBlock \<and> sent = 0 \<and> n = 0 \<and> is \<noteq> []))"
  using assms(5,6)
proof (induction "is" arbitrary: i sent w)
  case Nil
  then show ?case by simp
next
  case (Cons j js)
  let ?c = "k_libc k"
  let ?ds = "map (strip_name is_conn) (datagrams ?c m b)"
  have j: "j = i" "i < sb_len b" and js: "js = [Suc i ..< sb_len b]"
    using Cons.prems(2) [symmetric] by (auto simp: upt_eq_Cons_conv)
  obtain d a where e: "sb_entries b ! i = (d, a)" by (cases "sb_entries b ! i")
  note entry = entry_readable [OF assms(2,3) j(2), unfolded e]
  have "slice_len d < 2 ^ 32"
    using assms(2,4) j(2) e by (auto simp: wsa_sendable_def list_all_length length_sb_entries)
  then have msg: "wsa_tx_msg ?c m is_conn d a = strip_name is_conn (datagram ?c m (d, a))"
    using assms(1) length_payload by (intro wsa_tx_msg_datagram) (simp_all add: winsock_log_def windows_abi_def)
  obtain rc n0 w1 where step: "ws_WSASendMsg W fd (wsa_tx_msg ?c m is_conn d a) w = (rc, n0, w1)"
    by (metis surj_pair)
  with assms(1) have log1: "txlog w1 = txlog w @ (if rc = 0 then [wsa_tx_msg ?c m is_conn d a] else [])"
    unfolding winsock_log_def by blast
  have "i < length ?ds" and nth: "?ds ! i = wsa_tx_msg ?c m is_conn d a"
    using j(2) assms(2) e msg by (simp_all add: length_datagrams nth_datagrams)
  then have drop: "drop i ?ds = wsa_tx_msg ?c m is_conn d a # drop (Suc i) ?ds"
    by (metis Cons_nth_drop_Suc)
  show ?case
  proof (cases "rc = 0")
    case False
    with entry step j log1 show ?thesis
      by (auto simp: Let_def intro!: exI [of _ "0 :: nat"])
  next
    case True
    have "Suc i + length js = sb_len b" using j js by simp
    from Cons.IH [OF this js, of "Suc sent" w1] obtain r' w' n where ih:
      "windows_send_loop W k fd m b is_conn js (Suc sent) w1 = Returns (r', w')" "n \<le> length js"
      "txlog w' = txlog w1 @ take n (drop (Suc i) ?ds)" "r' = Inr (Suc sent + n)"
      by blast
    with entry step j True log1 drop show ?thesis
      by (auto intro!: exI [of _ "Suc n"])
  qed
qed

lemma windows_send_loop_returns:
  assumes "sb_inv b" and "sb_readable m b" and "\<forall>i \<in> set is. i < sb_len b"
  shows "\<exists>r w'. windows_send_loop W k fd m b is_conn is sent w = Returns (r, w') \<and>
     (\<forall>n. r = Inr n \<longrightarrow> n \<le> sent + length is)"
  using assms(3)
proof (induction "is" arbitrary: sent w)
  case Nil
  then show ?case by simp
next
  case (Cons i rest)
  obtain d a where e: "sb_entries b ! i = (d, a)" by (cases "sb_entries b ! i")
  have "SendBatchRaw_entry m b i = Returns (d, a)"
    using entry_readable [OF assms(1,2)] Cons.prems e by simp
  moreover obtain rc n w1 where "ws_WSASendMsg W fd (wsa_tx_msg (k_libc k) m is_conn d a) w = (rc, n, w1)"
    by (metis surj_pair)
  ultimately show ?case
    using Cons.IH [of "Suc sent" w1] Cons.prems by (auto simp: Let_def)
qed

lemma windows_send_log:
  assumes "winsock_log W k txlog" and "sb_inv b" and "sb_readable m b" and "wsa_sendable b"
  shows "\<exists>r w' n. windows_try_send_batch W k fd m b w = Returns (r, w') \<and> n \<le> SendBatchRaw_len b \<and>
     txlog w' = txlog w @
       take n (map (strip_name (fst (win_is_connected k fd w))) (datagrams (k_libc k) m b)) \<and>
     (r = Inr n \<or> (\<exists>e. r = Inl e \<and> kind (k_libc k) e \<noteq> WouldBlock \<and> n = 0 \<and> 0 < SendBatchRaw_len b))"
proof (cases "sb_len b = 0")
  case True
  then show ?thesis
    by (auto simp: windows_try_send_batch_def SendBatchRaw_len_def intro!: exI [of _ "0 :: nat"])
next
  case False
  obtain is_conn w1 where c: "win_is_connected k fd w = (is_conn, w1)" by (metis surj_pair)
  then have "txlog w1 = txlog w"
    using assms(1) unfolding winsock_log_def
    by (auto simp: win_is_connected_def Let_def split: prod.splits)
  moreover have "0 + length [0 ..< sb_len b] = sb_len b" by simp
  note windows_send_loop_log [OF assms this refl, of fd is_conn 0 w1]
  ultimately show ?thesis
    using c False by (auto simp: windows_try_send_batch_def SendBatchRaw_len_def)
qed

interpretation windows_send: prefix_backend "windows_try_send_batch W" "\<lambda>_. True" wsa_sendable "winsock_log W"
  for W :: "'w winsock"
proof unfold_locales
  fix b :: SendBatchRaw and k :: "'w kernel" and fd m w
  show "SendBatchRaw_len b = 0 \<Longrightarrow> windows_try_send_batch W k fd m b w = Returns (Inr 0, w)"
    by (simp add: windows_try_send_batch_def)
  assume "sb_inv b" and "sb_readable m b"
  note l = windows_send_loop_returns [OF this, of "[0 ..< sb_len b]" W k fd _ 0]
  obtain is_conn w1 where "win_is_connected k fd w = (is_conn, w1)" by (metis surj_pair)
  with l [of is_conn w1] have r: "\<exists>r w'. windows_try_send_batch W k fd m b w = Returns (r, w') \<and> (\<forall>n. r = Inr n \<longrightarrow> n \<le> sb_len b)"
    by (auto simp: windows_try_send_batch_def SendBatchRaw_len_def Let_def)
  then show "\<exists>r w'. windows_try_send_batch W k fd m b w = Returns (r, w')" by blast
  fix n w'
  assume "windows_try_send_batch W k fd m b w = Returns (Inr n, w')"
  with r show "n \<le> SendBatchRaw_len b" by (auto simp: SendBatchRaw_len_def)
next
  fix k :: "'w kernel" and txlog b m fd w
  assume "winsock_log W k txlog" and "sb_inv b" and "sb_readable m b" and "wsa_sendable b"
  from windows_send_log [OF this, of fd w]
  show "\<exists>r w' n is_conn. windows_try_send_batch W k fd m b w = Returns (r, w') \<and> n \<le> SendBatchRaw_len b \<and>
        txlog w' = txlog w @ take n (map (strip_name is_conn) (datagrams (k_libc k) m b)) \<and>
        (r = Inr n \<or> (\<exists>e. r = Inl e \<and> n < SendBatchRaw_len b \<and> (kind (k_libc k) e = WouldBlock \<longrightarrow> n = 0)))"
    by metis
qed

section \<open>The receive\<close>

text \<open>One receive with its address decoded, as the loop sees it.\<close>

definition windows_recv1 ::
    "'w winsock \<Rightarrow> 'w kernel \<Rightarrow> fd \<Rightarrow> bytes \<Rightarrow> 'w \<Rightarrow> (nat \<times> SocketAddr) io_result \<times> bytes \<times> 'w" where
  "windows_recv1 W k fd buf w =
     (let (result, addr_len, source, buf', w') = windows_recv_one W k fd buf w
      in (map_sum id (\<lambda>n. (n, windows_decode_sockaddr (k_libc k) source addr_len)) result, buf', w'))"

lemma case_map_sum: "(case map_sum f g x of Inl e \<Rightarrow> A e | Inr y \<Rightarrow> B y) = (case x of Inl e \<Rightarrow> A (f e) | Inr y \<Rightarrow> B (g y))"
  by (cases x) simp_all

lemma windows_recv_slots:
  "windows_recv_loop W k fd is received b w = recv_slots (k_libc k) (windows_recv1 W k fd) is received b w"
proof (induction "is" arbitrary: received b w)
  case (Cons i rest)
  show ?case
    unfolding windows_recv_loop.simps recv_slots.simps Cons.IH windows_recv1_def Let_def split_beta case_map_sum
      fst_conv snd_conv id_apply ..
qed simp

lemma windows_recv_slots_fun:
  "windows_try_recv_batch W =
     (\<lambda>k fd b. recv_slots (k_libc k) (windows_recv1 W k fd) [0 ..< RecvBatchRaw_capacity b] 0 b)"
  by (intro ext) (simp add: windows_try_recv_batch_def windows_recv_slots Let_def)

lemma windows_recv1_bounds:
  assumes "winsock_rx_ok W k" and "windows_recv1 W k fd buf w = (r, buf', w')"
  shows "length buf' = length buf \<and> (\<forall>n a. r = Inr (n, a) \<longrightarrow> n \<le> length buf)"
proof -
  obtain p w1 where p: "get_wsa_recvmsg W k w = (p, w1)" by (metis surj_pair)
  let ?l = "of_nat (length buf) :: u32"
  have l: "unat ?l \<le> length buf" by (rule unat_of_nat_le) simp
  show ?thesis
  proof (cases p)
    case (Some f)
    obtain rc n b1 st sl w2 where r: "ws_WSARecvMsg W fd buf ?l (zeroed_storage (k_libc k))
        (of_nat (size_storage (k_libc k))) w1 = (rc, n, b1, st, sl, w2)" by (metis surj_pair)
    from assms(1) r have ok: "length b1 = length buf" "rc \<noteq> SOCKET_ERROR \<longrightarrow> n \<le> ?l"
      unfolding winsock_rx_ok_def by blast+
    with assms(2) p Some r l show ?thesis
      by (auto simp: windows_recv1_def windows_recv_one_def Let_def word_le_nat_alt split: if_splits)
  next
    case None
    obtain rc b1 st sl w2 where r: "ws_recvfrom W fd buf ?l (zeroed_storage (k_libc k))
        (of_nat (size_storage (k_libc k))) w1 = (rc, b1, st, sl, w2)" by (metis surj_pair)
    from assms(1) r have ok: "length b1 = length buf" "rc \<noteq> SOCKET_ERROR \<longrightarrow> 0 \<le> rc \<and> rc \<le> uint ?l"
      unfolding winsock_rx_ok_def by metis+
    have "nat (rc mod 2 ^ 64) \<le> length buf" if "rc \<noteq> SOCKET_ERROR"
    proof -
      from ok(2) that have "nat rc \<le> unat ?l" and "0 \<le> rc" by (auto intro: nat_le_unat)
      moreover have "rc mod 2 ^ 64 \<le> rc" using \<open>0 \<le> rc\<close> by (rule zmod_le_nonneg_dividend)
      ultimately show ?thesis using l by linarith
    qed
    with assms(2) p None r ok(1) show ?thesis
      by (auto simp: windows_recv1_def windows_recv_one_def Let_def split: if_splits)
  qed
qed

lemma winsock_queue_packets:
  assumes "winsock_queue W k rxq" and "p \<in> set (rxq w)"
  shows "length (fst p) < 65536" and "wf_addr (snd p)"
proof -
  from assms(1) have "\<forall>w. \<forall>p \<in> set (rxq w). length (fst p) < 65536 \<and> wf_addr (snd p)"
    unfolding winsock_queue_def by (elim conjE)
  with assms(2) show "length (fst p) < 65536" and "wf_addr (snd p)" by simp_all
qed

lemma get_wsa_recvmsg_quiet:
  assumes "winsock_queue W k rxq" and "get_wsa_recvmsg W k w = (p, w')"
  shows "rxq w' = rxq w"
proof -
  note q = assms(1) [unfolded winsock_queue_def]
  have "rxq w1 = rxq w0" if "ws_socket W fam ty proto w0 = (s, w1)" for fam ty proto w0 s w1
    using q that by (metis snd_conv)
  moreover have "rxq w1 = rxq w0" if "ws_WSAIoctl W s p0 w0 = (rc, p1, w1)" for s p0 w0 rc p1 w1
    using q that by (metis snd_conv)
  ultimately show ?thesis
    using assms(2) q
    by (auto simp: get_wsa_recvmsg_def Let_def split: option.splits prod.splits if_splits)
qed

text \<open>Whichever of the two calls is made, a receive does what \<open>winsock_take\<close> says.\<close>

lemma windows_recv1_call:
  assumes "winsock_queue W k rxq" and "length buf < 2 ^ 31" and "windows_recv1 W k fd buf w = (r, buf', w')"
  shows "\<exists>w1 ok n st sl. rxq w1 = rxq w \<and>
     winsock_take k rxq buf (of_nat (length buf)) (zeroed_storage (k_libc k)) w1 ok n buf' st sl w' \<and>
     r = (if ok then Inr (n, windows_decode_sockaddr (k_libc k) st sl) else Inl (last_os_error k w'))"
proof -
  let ?c = "k_libc k" and ?l = "of_nat (length buf) :: u32"
  note q = assms(1) [unfolded winsock_queue_def]
  have l: "unat ?l < 2 ^ 31" using assms(2) by (simp add: unat_of_nat_u32)
  obtain p0 w1 where p0: "get_wsa_recvmsg W k w = (p0, w1)" by (metis surj_pair)
  have w1: "rxq w1 = rxq w" by (rule get_wsa_recvmsg_quiet [OF assms(1) p0])
  show ?thesis
  proof (cases p0)
    case (Some f)
    obtain rc n b1 st sl w2 where rv: "ws_WSARecvMsg W fd buf ?l (zeroed_storage ?c) (of_nat (size_storage ?c)) w1
        = (rc, n, b1, st, sl, w2)" by (metis surj_pair)
    with q have "winsock_take k rxq buf ?l (zeroed_storage ?c) w1 (rc \<noteq> SOCKET_ERROR) (unat n) b1 st sl w2" by blast
    moreover from assms(3) p0 Some rv have "b1 = buf'" "w2 = w'"
      "r = (if rc \<noteq> SOCKET_ERROR then Inr (unat n, windows_decode_sockaddr ?c st sl) else Inl (last_os_error k w'))"
      by (auto simp: windows_recv1_def windows_recv_one_def Let_def split: if_splits)
    ultimately show ?thesis using w1 by blast
  next
    case None
    obtain rc b1 st sl w2 where rv: "ws_recvfrom W fd buf ?l (zeroed_storage ?c) (of_nat (size_storage ?c)) w1
        = (rc, b1, st, sl, w2)" by (metis surj_pair)
    with q l have t: "winsock_take k rxq buf ?l (zeroed_storage ?c) w1 (rc \<noteq> SOCKET_ERROR) (nat rc) b1 st sl w2"
      "rc \<noteq> SOCKET_ERROR \<longrightarrow> 0 \<le> rc \<and> rc < 2 ^ 31" by metis+
    from assms(3) p0 None rv t(2) have "b1 = buf'" "w2 = w'"
      "r = (if rc \<noteq> SOCKET_ERROR then Inr (nat rc, windows_decode_sockaddr ?c st sl) else Inl (last_os_error k w'))"
      by (auto simp: windows_recv1_def windows_recv_one_def Let_def split: if_splits)
    with t(1) w1 show ?thesis by blast
  qed
qed

lemma windows_recv1_takes:
  assumes "winsock_queue W k rxq" and "length buf < 2 ^ 31" and "windows_recv1 W k fd buf w = (r, buf', w')"
  shows "case rxq w of
       [] \<Rightarrow> r = Inl (Os (EAGAIN (k_libc k))) \<and> rxq w' = []
     | p # q \<Rightarrow> rxq w' = q \<and>
         (if length (fst p) \<le> length buf then r = Inr (length (fst p), snd p) \<and> buf' = deposit buf (fst p)
          else r = Inl (Os WSAEMSGSIZE))"
proof -
  let ?c = "k_libc k" and ?l = "of_nat (length buf) :: u32"
  have c: "libc_ok ?c" "\<not> family_u8 ?c" using assms(1) by (simp_all add: winsock_queue_def windows_abi_def)
  have l: "unat ?l = length buf" using assms(2) by (simp add: unat_of_nat_u32)
  from windows_recv1_call [OF assms] obtain w1 ok n st sl where w1: "rxq w1 = rxq w"
    and t: "winsock_take k rxq buf ?l (zeroed_storage ?c) w1 ok n buf' st sl w'"
    and r: "r = (if ok then Inr (n, windows_decode_sockaddr ?c st sl) else Inl (last_os_error k w'))" by blast
  show ?thesis
  proof (cases "rxq w")
    case Nil
    with t r w1 show ?thesis by (simp add: winsock_take_def last_os_error_def)
  next
    case (Cons p ps)
    have "wf_addr (snd p)" using winsock_queue_packets(2) [OF assms(1), of p w] Cons by simp
    then have "windows_decode_sockaddr ?c st sl = snd p"
      if "encode_sockaddr ?c (snd p) (zeroed_storage ?c) = (st, sl)"
      unfolding windows_decode_eq win_decode_eq [OF c(2)]
      using that by (intro decode_encode [OF c(1)]) simp_all
    with t r w1 Cons l show ?thesis by (auto simp: winsock_take_def last_os_error_def)
  qed
qed

lemma winsock_queue_errno:
  assumes "winsock_queue W k rxq"
  shows "kind (k_libc k) (Os (EAGAIN (k_libc k))) = WouldBlock" and "kind (k_libc k) (Os WSAEMSGSIZE) = OtherKind"
proof -
  note q = assms [unfolded winsock_queue_def]
  show "kind (k_libc k) (Os (EAGAIN (k_libc k))) = WouldBlock" by (rule kind_EAGAIN) (use q in blast)
  have "WSAEMSGSIZE \<notin> {EAGAIN (k_libc k), EWOULDBLOCK (k_libc k), EINTR (k_libc k)}" using q by blast
  then show "kind (k_libc k) (Os WSAEMSGSIZE) = OtherKind" by simp
qed

text \<open>The slot sizes an \<^verbatim>\<open>i32\<close> can express, and the datagrams that fit in a slot.\<close>

definition wsa_roomy :: "nat \<Rightarrow> bool" where
  "wsa_roomy n \<longleftrightarrow> n < 2 ^ 31"

definition wsa_admits :: "nat \<Rightarrow> bytes \<times> SocketAddr \<Rightarrow> bool" where
  "wsa_admits n p \<longleftrightarrow> length (fst p) \<le> n"

interpretation windows_source: slot_source "windows_recv1 W" "winsock_rx_ok W" "winsock_queue W" wsa_roomy
  wsa_admits for W :: "'w winsock"
proof unfold_locales
  fix k :: "'w kernel" and fd buf w r buf' w'
  assume rf: "windows_recv1 W k fd buf w = (r, buf', w')"
  show "winsock_rx_ok W k \<Longrightarrow> length buf' = length buf \<and> (\<forall>n a. r = Inr (n, a) \<longrightarrow> n \<le> length buf)"
    by (rule windows_recv1_bounds [OF _ rf])
  fix rxq
  assume q: "winsock_queue W k rxq" and r: "wsa_roomy (length buf)"
  then have n: "length buf < 2 ^ 31" by (simp add: wsa_roomy_def)
  show "\<exists>e. r = Inl e \<and> kind (k_libc k) e = WouldBlock \<and> rxq w' = []" if "rxq w = []"
    using windows_recv1_takes [OF q n rf] winsock_queue_errno(1) [OF q] that by (simp del: kind.simps)
  fix p qs
  show "r = Inr (min (length (fst p)) (length buf), snd p) \<and> buf' = deposit buf (fst p) \<and> rxq w' = qs"
    if "rxq w = p # qs" and "wsa_admits (length buf) p"
    using windows_recv1_takes [OF q n rf] that by (simp add: wsa_admits_def)
qed (rule winsock_queue_packets(1))

interpretation windows_recv: queue_backend "windows_try_recv_batch W" "winsock_rx_ok W" "winsock_queue W"
  wsa_roomy wsa_admits for W :: "'w winsock"
  unfolding windows_recv_slots_fun by (rule windows_source.slots.queue_backend_axioms)

text \<open>
  A datagram that is too long ends the receive with an error; the datagrams taken before it
  are in the batch, but the caller is not told.
\<close>

lemma windows_recv_too_long:
  assumes "winsock_queue W k rxq" and "rb_inv n b" and "wsa_roomy n" and "length ps < RecvBatchRaw_capacity b"
    and "rxq w = ps @ p # q" and "list_all (wsa_admits n) ps" and "\<not> wsa_admits n p"
  shows "\<exists>b' w'. windows_try_recv_batch W k fd b w = Returns (Inl (Os WSAEMSGSIZE), b', w') \<and> rxq w' = q \<and>
     map slot_packet (take (length ps) (rb_slots b')) = ps \<and> rb_len b' = (if ps = [] then rb_len b else length ps)"
proof -
  let ?loop = "recv_slots (k_libc k) (windows_recv1 W k fd)" and ?cap = "length (rb_slots b)"
  have cap: "length ps < ?cap" using assms(4) by (simp add: RecvBatchRaw_capacity_def)
  from windows_source.recv_slots_prefix [OF assms(1,3,2) _ assms(5,6), of 0 fd] cap obtain b1 w1 where
    l: "?loop [0 ..< ?cap] 0 b w = ?loop [length ps ..< ?cap] (length ps) b1 w1" and b1: "rb_inv n b1"
      "length (rb_slots b1) = ?cap" "rxq w1 = p # q"
      "map slot_packet (take (length ps) (rb_slots b1)) = map (cut_to n) ps"
      "rb_len b1 = (if ps = [] then rb_len b else length ps)"
    by auto
  let ?s = "rb_slots b1 ! length ps"
  obtain r buf' w2 where r: "windows_recv1 W k fd (rs_buf ?s) w1 = (r, buf', w2)" by (metis surj_pair)
  have len: "length (rs_buf ?s) = n" using b1(1,2) cap by (simp add: rb_inv_def list_all_length)
  from windows_recv1_takes [OF assms(1) _ r] len assms(3,7) [unfolded wsa_roomy_def] b1(3)
  have e: "r = Inl (Os WSAEMSGSIZE)" "rxq w2 = q" by (auto simp: wsa_admits_def)
  have i: "length ps < length (rb_slots b1)" using cap b1(2) by simp
  have "?loop [length ps ..< ?cap] (length ps) b1 w1 = Returns (Inl (Os WSAEMSGSIZE),
      b1\<lparr>rb_slots := (rb_slots b1)[length ps := ?s\<lparr>rs_buf := buf'\<rparr>]\<rparr>, w2)"
    using recv_slots_step [of _ b1 "windows_recv1 W k fd", OF i r] e(1) winsock_queue_errno(2) [OF assms(1)]
    by (simp add: upt_conv_Cons [OF cap] del: recv_slots.simps kind.simps)
  moreover have "map (cut_to n) ps = ps"
    using assms(6) by (intro map_idI) (auto simp: list_all_iff wsa_admits_def cut_to_def)
  ultimately show ?thesis
    using l b1(4,5) e(2) by (auto simp: windows_recv_slots_fun RecvBatchRaw_capacity_def)
qed

section \<open>A concrete system\<close>

text \<open>WinSock on the loopback of \<open>Delivery\<close>; \<open>present\<close>: the extension function can be loaded.\<close>

definition loopback_wsa_take ::
    "libc \<Rightarrow> bytes \<Rightarrow> u32 \<Rightarrow> bytes \<Rightarrow> u32 \<Rightarrow> world \<Rightarrow> int \<times> bytes \<times> bytes \<times> u32 \<times> world" where
  "loopback_wsa_take c buf l st sl w =
     (case arrived w of
        [] \<Rightarrow> (- 1, buf, st, sl, w\<lparr>w_errno := EAGAIN c\<rparr>)
      | p # q \<Rightarrow>
          if length (fst p) \<le> unat l
          then let (st', sl') = encode_sockaddr c (snd p) st
            in (int (length (fst p)), deposit buf (fst p), st', sl', w\<lparr>w_queue := q\<rparr>)
          else (- 1, deposit buf (fst p), st, sl, w\<lparr>w_queue := q, w_errno := WSAEMSGSIZE\<rparr>))"

definition loopback_ws :: "bool \<Rightarrow> libc \<Rightarrow> world winsock" where
  "loopback_ws present c =
     \<lparr>ws_sendto = (\<lambda>_ data l st sl w. loopback_send \<lparr>tx_name = Some (st, sl), tx_data = take (unat l) data\<rparr> w),
      ws_send = (\<lambda>_ data l w. loopback_send \<lparr>tx_name = None, tx_data = take (unat l) data\<rparr> w),
      ws_recvfrom = (\<lambda>_ buf l st sl w. loopback_wsa_take c buf l st sl w),
      ws_WSASendMsg = (\<lambda>_ msg w. let (n, w') = loopback_send msg w in (if n < 0 then - 1 else 0, word_of_int n, w')),
      ws_WSARecvMsg = (\<lambda>_ buf l st sl w. let (n, buf', st', sl', w') = loopback_wsa_take c buf l st sl w
         in (if n < 0 then - 1 else 0, word_of_int n, buf', st', sl', w')),
      ws_socket = (\<lambda>_ _ _ w. (7, w)),
      ws_WSAIoctl = (\<lambda>_ _ w. (0, if present then Some 4096 else None, w)),
      ws_ptr = (\<lambda>_. None), ws_set_ptr = (\<lambda>_ w. w)\<rparr>"

lemma loopback_ws_sel:
  "ws_WSASendMsg (loopback_ws present c) fd msg w =
     (let (n, w') = loopback_send msg w in (if n < 0 then - 1 else 0, word_of_int n, w'))"
  "ws_WSARecvMsg (loopback_ws present c) fd buf l st sl w =
     (let (n, buf', st', sl', w') = loopback_wsa_take c buf l st sl w
      in (if n < 0 then - 1 else 0, word_of_int n, buf', st', sl', w'))"
  "ws_recvfrom (loopback_ws present c) fd buf l st sl w = loopback_wsa_take c buf l st sl w"
  "ws_socket (loopback_ws present c) fam ty proto w = (7, w)"
  "ws_WSAIoctl (loopback_ws present c) s p w = (0, if present then Some 4096 else None, w)"
  "ws_set_ptr (loopback_ws present c) a w = w"
  by (simp_all add: loopback_ws_def)

lemma loopback_ws_log:
  assumes "windows_abi c"
  shows "winsock_log (loopback_ws present c) (loopback c) w_sent"
  using assms unfolding winsock_log_def loopback_ws_sel
  by (auto simp: loopback_def loopback_send_def refuse_def accept_def split: if_splits)

lemma arrived_ok: "p \<in> set (arrived w) \<Longrightarrow> length (fst p) < 65536 \<and> wf_addr (snd p)"
  by (simp add: arrived_def)

lemma loopback_take_ok:
  assumes "loopback_wsa_take c buf l st sl w = (n, buf', st', sl', w')"
  shows "length buf' = length buf" and "n = - 1 \<or> (0 \<le> n \<and> n \<le> uint l \<and> n < 65536)"
    and "winsock_take (loopback c) arrived buf l st w (n \<noteq> - 1) (nat n) buf' st' sl' w'"
proof -
  have q: "length (fst p) < 65536" "arrived (w\<lparr>w_queue := q\<rparr>) = q" if "arrived w = p # q" for p q
    using arrived_tl [OF that] arrived_ok [of p w] that by simp_all
  have e: "arrived (v\<lparr>w_errno := x\<rparr>) = arrived v" for v x by (simp add: arrived_def)
  show "length buf' = length buf"
    using assms by (auto simp: loopback_wsa_take_def split: list.splits if_splits prod.splits)
  show "n = - 1 \<or> (0 \<le> n \<and> n \<le> uint l \<and> n < 65536)"
    using assms q(1)
    by (auto simp: loopback_wsa_take_def intro!: int_le_uint split: list.splits if_splits prod.splits)
  show "winsock_take (loopback c) arrived buf l st w (n \<noteq> - 1) (nat n) buf' st' sl' w'"
    using assms q(2)
    by (auto simp: loopback_wsa_take_def winsock_take_def loopback_sel e split: list.splits if_splits prod.splits)
qed

lemma loopback_ws_queue:
  assumes "windows_abi c" and "errno_ok c" and "WSAEMSGSIZE \<notin> {EAGAIN c, EWOULDBLOCK c, EINTR c}"
  shows "winsock_queue (loopback_ws present c) (loopback c) arrived"
  unfolding winsock_queue_def loopback_sel
proof (intro conjI allI ballI impI)
  show "windows_abi c" "errno_ok c" "WSAEMSGSIZE \<notin> {EAGAIN c, EWOULDBLOCK c, EINTR c}" by (rule assms)+
  fix w :: world
  show "length (fst p) < 65536" "wf_addr (snd p)" if "p \<in> set (arrived w)" for p
    using arrived_ok [OF that] by simp_all
  show "arrived (snd (ws_socket (loopback_ws present c) fam ty proto w)) = arrived w"
    "arrived (snd (snd (ws_WSAIoctl (loopback_ws present c) s p w))) = arrived w"
    "arrived (k_close (loopback c) s w) = arrived w" "arrived (ws_set_ptr (loopback_ws present c) p w) = arrived w"
    for fam ty proto s p
    by (simp_all add: loopback_ws_sel loopback_def)
  fix fd :: fd and buf l st sl
  obtain n buf1 st1 sl1 w1 where t: "loopback_wsa_take c buf l st sl w = (n, buf1, st1, sl1, w1)" by (metis surj_pair)
  note ok = loopback_take_ok [OF t]
  have n: "unat (word_of_int n :: u32) = nat n" "n < 0 \<longleftrightarrow> n = - 1" if "n \<noteq> - 1"
    using ok(2) that by (auto simp: uint_word_of_int simp flip: nat_uint_eq)
  show "winsock_take (loopback c) arrived buf l st w (rc \<noteq> SOCKET_ERROR) (unat m) buf' st' sl' w'"
    if "ws_WSARecvMsg (loopback_ws present c) fd buf l st sl w = (rc, m, buf', st', sl', w')" for rc m buf' st' sl' w'
    using that t ok(3) n by (cases "n = - 1") (auto simp: loopback_ws_sel SOCKET_ERROR_def winsock_take_def split: list.splits if_splits)
  show "winsock_take (loopback c) arrived buf l st w (rc \<noteq> SOCKET_ERROR) (nat rc) buf' st' sl' w'"
    "rc \<noteq> SOCKET_ERROR \<Longrightarrow> 0 \<le> rc" "rc \<noteq> SOCKET_ERROR \<Longrightarrow> rc < 2 ^ 31"
    if "ws_recvfrom (loopback_ws present c) fd buf l st sl w = (rc, buf', st', sl', w')" for rc buf' st' sl' w'
    using that t ok by (auto simp: loopback_ws_sel SOCKET_ERROR_def)
qed

lemma loopback_ws_recv: "winsock_rx_ok (loopback_ws present c) (loopback c)"
  unfolding winsock_rx_ok_def
proof (intro conjI allI impI)
  fix fd :: fd and buf l st sl and w :: world
  obtain n buf1 st1 sl1 w1 where t: "loopback_wsa_take c buf l st sl w = (n, buf1, st1, sl1, w1)" by (metis surj_pair)
  note ok = loopback_take_ok(1,2) [OF t]
  have n: "word_of_int n \<le> l" "\<not> n < 0" if "n \<noteq> - 1"
    using ok(2) that by (auto simp: word_le_def uint_word_of_int)
  show "length buf' = length buf" "rc \<noteq> SOCKET_ERROR \<Longrightarrow> m \<le> l"
    if "ws_WSARecvMsg (loopback_ws present c) fd buf l st sl w = (rc, m, buf', st', sl', w')" for rc m buf' st' sl' w'
    using that t ok n by (cases "n = - 1"; auto simp: loopback_ws_sel SOCKET_ERROR_def)+
  show "length buf' = length buf" "rc \<noteq> SOCKET_ERROR \<Longrightarrow> 0 \<le> rc" "rc \<noteq> SOCKET_ERROR \<Longrightarrow> rc \<le> uint l"
    if "ws_recvfrom (loopback_ws present c) fd buf l st sl w = (rc, buf', st', sl', w')" for rc buf' st' sl' w'
    using that t ok by (auto simp: loopback_ws_sel SOCKET_ERROR_def)
qed

lemma windows_loopback:
  "winsock_log (loopback_ws present windows_libc) (loopback windows_libc) w_sent"
  "winsock_queue (loopback_ws present windows_libc) (loopback windows_libc) arrived"
  "winsock_rx_ok (loopback_ws present windows_libc) (loopback windows_libc)"
  using loopback_ws_log [OF windows_libc_ok(2)] loopback_ws_queue [OF windows_libc_ok(2,3)] loopback_ws_recv
  by (simp_all add: windows_libc_def linux_libc_def WSAEMSGSIZE_def)

section \<open>Properties\<close>

text \<open>C28. On a target whose \<^verbatim>\<open>sa_family\<close> has 16 bits, and with calls that return 0 or -1, the Windows
  and the unix module compute the same: encoding and decoding,
  in both copies that Windows has of them, \<^verbatim>\<open>is_connected\<close>, \<^verbatim>\<open>raw_getsockname\<close>,
  \<^verbatim>\<open>raw_connect\<close>, \<^verbatim>\<open>raw_setsockopt\<close> and \<^verbatim>\<open>raw_getsockopt\<close>, although one tests for 0 and the other
  for a negative result. The socket layer therefore needs no case distinction.\<close>

theorem windows_unix_agree:
  assumes "\<not> family_u8 (k_libc k)" and "binary_calls k"
  shows "win_encode_sockaddr (k_libc k) = encode_sockaddr (k_libc k) \<and>
     win_decode_sockaddr (k_libc k) = decode_sockaddr (k_libc k) \<and>
     (\<lambda>a st. encode_addr_into (k_libc k) a st 0) = encode_sockaddr (k_libc k) \<and>
     windows_decode_sockaddr (k_libc k) = decode_sockaddr (k_libc k) \<and>
     win_is_connected k = is_connected k \<and> win_raw_getsockname k = raw_getsockname k \<and>
     win_raw_connect k = raw_connect k \<and> win_raw_setsockopt k = raw_setsockopt k \<and>
     win_raw_getsockopt k = raw_getsockopt k"
proof (intro conjI ext)
  note b = assms(2) [unfolded binary_calls_def]
  fix fd and addr :: SocketAddr and level optname :: int and st v w
  show "win_encode_sockaddr (k_libc k) addr st = encode_sockaddr (k_libc k) addr st"
    by (rule win_encode_eq [OF assms(1)])
  show "win_decode_sockaddr (k_libc k) st v = decode_sockaddr (k_libc k) st v"
    by (rule win_decode_eq [OF assms(1)])
  show "encode_addr_into (k_libc k) addr st 0 = encode_sockaddr (k_libc k) addr st"
    unfolding encode_addr_into_eq by (rule win_encode_eq [OF assms(1)])
  show "windows_decode_sockaddr (k_libc k) st v = decode_sockaddr (k_libc k) st v"
    unfolding windows_decode_eq by (rule win_decode_eq [OF assms(1)])
  show "win_is_connected k fd w = is_connected k fd w"
    by (simp add: win_is_connected_def is_connected_def)
  have "fst (k_getsockname k fd st l w) \<in> {- 1, 0}" for st l using b by blast
  from this [THEN ret_zero] show "win_raw_getsockname k fd w = raw_getsockname k fd w"
    by (simp add: win_raw_getsockname_def raw_getsockname_def win_decode_eq [OF assms(1)] split_beta Let_def)
  have "fst (k_connect k fd st l w) \<in> {- 1, 0}" for st l using b by blast
  from this [THEN ret_zero] show "win_raw_connect k fd addr w = raw_connect k fd addr w"
    by (simp add: win_raw_connect_def raw_connect_def win_encode_eq [OF assms(1)] split_beta Let_def)
  have "fst (k_setsockopt k fd level optname v l w) \<in> {- 1, 0}" for l using b by blast
  from this [THEN ret_zero] show "win_raw_setsockopt k fd level optname v w = raw_setsockopt k fd level optname v w"
    by (simp add: win_raw_setsockopt_def raw_setsockopt_def split_beta)
  have "fst (k_getsockopt k fd level optname v l w) \<in> {- 1, 0}" for v l using b by blast
  from this [THEN ret_zero] show "win_raw_getsockopt k fd level optname w = raw_getsockopt k fd level optname w"
    by (simp add: win_raw_getsockopt_def raw_getsockopt_def split_beta)
qed

lemma loopback_binary: "binary_calls (loopback c)"
  by (simp add: binary_calls_def loopback_def)

theorem windows_unix_agree_witness:
  "win_raw_connect (loopback windows_libc) = raw_connect (loopback windows_libc) \<and>
   win_decode_sockaddr windows_libc = decode_sockaddr windows_libc"
proof -
  have "\<not> family_u8 (k_libc (loopback windows_libc))"
    by (simp add: loopback_sel windows_libc_def linux_libc_def)
  from windows_unix_agree [OF this loopback_binary] show ?thesis by (simp add: loopback_sel)
qed

text \<open>C26. \<^verbatim>\<open>try_send_batch\<close> on Windows, for buffers shorter than \<open>2 ^ 32\<close> bytes: it returns, what has
  left the socket is a prefix of the batch's datagrams, in order (without destinations on a
  connected socket), and \<^verbatim>\<open>Ok(n)\<close> says how many. Other than the portable loop it never hides
  packets behind an error: \<^verbatim>\<open>Err\<close> means that nothing was sent. \<^verbatim>\<open>WouldBlock\<close> is not returned.\<close>

theorem windows_send_prefix:
  assumes "winsock_log W k txlog" and "sb_inv b" and "sb_readable m b" and "wsa_sendable b"
  shows "\<exists>r w' n. windows_try_send_batch W k fd m b w = Returns (r, w') \<and> n \<le> SendBatchRaw_len b \<and>
     txlog w' = txlog w @
       take n (map (strip_name (fst (win_is_connected k fd w))) (datagrams (k_libc k) m b)) \<and>
     (r = Inr n \<or> (\<exists>e. r = Inl e \<and> kind (k_libc k) e \<noteq> WouldBlock \<and> n = 0 \<and> 0 < SendBatchRaw_len b))"
  using assms by (rule windows_send_log)

theorem windows_send_prefix_witness:
  "\<exists>r w' n. windows_try_send_batch (loopback_ws True windows_libc) (loopback windows_libc) 3
       (\<lambda>a. Some (of_nat a)) (byte_batch 3) idle = Returns (r, w') \<and> n \<le> 3 \<and>
     w_sent w' = take n (datagrams windows_libc (\<lambda>a. Some (of_nat a)) (byte_batch 3))"
proof -
  have "\<not> fst (win_is_connected (loopback windows_libc) 3 idle)"
    by (simp add: win_is_connected_def loopback_def idle_def)
  then have s: "strip_name (fst (win_is_connected (loopback windows_libc) 3 idle)) = id"
    by (auto simp: strip_name_def)
  have l: "SendBatchRaw_len (byte_batch 3) = 3" "w_sent idle = []" "k_libc (loopback windows_libc) = windows_libc"
    "wsa_sendable (byte_batch 3)"
    by (simp_all add: SendBatchRaw_len_def byte_batch_def idle_def loopback_def wsa_sendable_def sb_entries_def
        list_all_iff slot_slice_def)
  from windows_send_prefix [OF windows_loopback(1) byte_batch_ok l(4), of True 3 idle] show ?thesis
    unfolding s l by auto
qed

text \<open>C27. \<^verbatim>\<open>try_recv_batch\<close> on Windows, with \<^verbatim>\<open>WSARecvMsg\<close> or with \<^verbatim>\<open>recvfrom\<close>, when the next datagrams
  fit in the slots: it takes as many as the batch has slots off the queue, and the user reads
  exactly these, in order, with their source addresses.\<close>

theorem windows_recv_delivers:
  assumes "winsock_queue W k rxq" and "winsock_rx_ok W k" and "rb_inv n b"
    and "RecvBatchRaw_capacity b < 2 ^ 32" and "0 < RecvBatchRaw_capacity b" and "rxq w \<noteq> []"
    and "wsa_roomy n" and "list_all (wsa_admits n) (take (RecvBatchRaw_capacity b) (rxq w))"
  shows "\<exists>b' w'. windows_try_recv_batch W k fd b w =
       Returns (Inr (min (RecvBatchRaw_capacity b) (length (rxq w))), b', w') \<and>
     rxq w' = drop (RecvBatchRaw_capacity b) (rxq w) \<and>
     rb_packets b' = take (RecvBatchRaw_capacity b) (rxq w)"
proof -
  have "map (cut_to n) (take (RecvBatchRaw_capacity b) (rxq w)) = take (RecvBatchRaw_capacity b) (rxq w)"
    using assms(8) by (intro map_idI) (auto simp: list_all_iff wsa_admits_def cut_to_def)
  with windows_recv.delivers [OF assms, of fd] show ?thesis by simp
qed

theorem windows_recv_delivers_witness:
  "\<exists>b' w'. windows_try_recv_batch (loopback_ws False windows_libc) (loopback windows_libc) 3
       (RecvBatchRaw_with_capacity 8 6) two_arrived = Returns (Inr 2, b', w') \<and> rb_packets b' = w_queue two_arrived"
proof -
  have "RecvBatchRaw_capacity (RecvBatchRaw_with_capacity 8 6) = 8" "length (arrived two_arrived) = 2"
    "arrived two_arrived \<noteq> []" "list_all (wsa_admits 6) (take 8 (arrived two_arrived))" "wsa_roomy 6"
    unfolding two_arrived
    by (simp_all add: RecvBatchRaw_capacity_def RecvBatchRaw_with_capacity_def two_arrived_def idle_def wsa_admits_def wsa_roomy_def)
  with windows_recv_delivers [OF windows_loopback(2,3) rb_inv_with_capacity, of 8 6 two_arrived False 3] two_arrived(1)
  show ?thesis by auto
qed

text \<open>C36. A datagram longer than the slots makes \<^verbatim>\<open>try_recv_batch\<close> on Windows fail with \<^verbatim>\<open>WSAEMSGSIZE\<close>,
  where the other backends cut it: the datagrams received by the same call before it are in
  the batch, with its length set, but reported as an error, and the long one is lost.\<close>

theorem windows_recv_oversized:
  assumes "winsock_queue W k rxq" and "rb_inv n b" and "wsa_roomy n" and "length ps < RecvBatchRaw_capacity b"
    and "rxq w = ps @ p # q" and "list_all (wsa_admits n) ps" and "n < length (fst p)" and "ps \<noteq> []"
  shows "\<exists>b' w'. windows_try_recv_batch W k fd b w = Returns (Inl (Os WSAEMSGSIZE), b', w') \<and> rxq w' = q \<and>
     rb_packets b' = ps"
  using windows_recv_too_long [OF assms(1-6), of fd] assms(7,8) by (auto simp: wsa_admits_def rb_packets_def)

theorem windows_recv_oversized_witness:
  "\<exists>b' w'. windows_try_recv_batch (loopback_ws True windows_libc) (loopback windows_libc) 3
       (RecvBatchRaw_with_capacity 8 4) two_arrived = Returns (Inl (Os 10040), b', w') \<and> arrived w' = [] \<and>
     rb_packets b' = [([104, 105], V4 (Ipv4Addr 127 0 0 1) 9000)]"
proof -
  let ?p = "([104, 105], V4 (Ipv4Addr 127 0 0 1) 9000)"
  have q: "arrived two_arrived = [?p] @ ([1, 2, 3, 4, 5, 6], V4 (Ipv4Addr 10 0 0 1) 53) # []"
    using two_arrived(1) by (simp add: two_arrived_def)
  have "length [?p] < RecvBatchRaw_capacity (RecvBatchRaw_with_capacity 8 4)" "list_all (wsa_admits 4) [?p]"
    by (simp_all add: RecvBatchRaw_capacity_def RecvBatchRaw_with_capacity_def wsa_admits_def)
  from windows_recv_oversized [OF windows_loopback(2) rb_inv_with_capacity _ this(1) q this(2), of True 3]
  show ?thesis by (simp add: WSAEMSGSIZE_def wsa_roomy_def)
qed

end
