(* ===== verification/Float64.thy ===== *)
theory Float64
  imports Prelude "HOL-Library.Log_Nat"
begin

text \<open>
  The double-precision arithmetic of \<^verbatim>\<open>metrics.rs\<close> and of the adaptive state in \<^verbatim>\<open>socket.rs\<close>:
  conversion of a \<^verbatim>\<open>u64\<close>, division and comparison. A double is the rational number it stands
  for; every operation rounds to nearest, ties to even, to 53 significant bits (IEEE 754).
  All values here are zero or between \<open>2 ^ -64\<close> and \<open>2 ^ 65\<close>, inside the range of normal
  doubles, so there are no infinities and no subnormal numbers.
\<close>

section \<open>Rounding\<close>

type_synonym f64 = rat

definition round_half_even :: "rat \<Rightarrow> int" where
  "round_half_even x =
     (let f = \<lfloor>x\<rfloor>; d = x - of_int f in
      if d < 1 / 2 then f else if 1 / 2 < d then f + 1 else if even f then f else f + 1)"

text \<open>The exponent of the leading bit: \<open>2 powi e \<le> q < 2 powi (e + 1)\<close>.\<close>

definition leading_exp :: "rat \<Rightarrow> int" where
  "leading_exp q =
     (let (n, d) = quotient_of q;
          k = int (floorlog 2 (nat n)) - int (floorlog 2 (nat d))
      in if 2 powi k \<le> q then k else k - 1)"

definition rnd :: "rat \<Rightarrow> f64" where
  "rnd q =
     (if q \<le> 0 then 0
      else let u = 2 powi (leading_exp q - 52) in of_int (round_half_even (q / u)) * u)"

definition f64_of_u64 :: "u64 \<Rightarrow> f64" where
  "f64_of_u64 x = rnd (of_nat (unat x))"

definition f64_div :: "f64 \<Rightarrow> f64 \<Rightarrow> f64" where
  "f64_div a b = rnd (a / b)"

section \<open>The rounding error\<close>

lemma round_half_even_error: "\<bar>of_int (round_half_even x) - x\<bar> \<le> 1 / 2"
proof -
  have "of_int \<lfloor>x\<rfloor> \<le> x" "x < of_int \<lfloor>x\<rfloor> + 1" by linarith+
  then show ?thesis by (auto simp: round_half_even_def Let_def)
qed

lemma round_half_even_int [simp]: "round_half_even (of_int n) = n"
  by (simp add: round_half_even_def)

lemma powi_pos [simp]: "0 < (2 :: rat) powi e"
  by (simp add: zero_less_power_int)

lemma floorlog_rat:
  assumes "0 < x"
  shows "(2 :: rat) ^ floorlog 2 x \<le> 2 * of_nat x" and "(of_nat x :: rat) < 2 ^ floorlog 2 x"
proof -
  note b = floorlog_bounds [OF assms, of 2, simplified]
  have "0 < floorlog 2 x" using b assms by (intro gr0I) auto
  then have "(2 :: nat) ^ floorlog 2 x = 2 * 2 ^ (floorlog 2 x - 1)"
    by (simp add: power_eq_if)
  with b have "(2 :: nat) ^ floorlog 2 x \<le> 2 * x" by simp
  then have "(of_nat (2 ^ floorlog 2 x) :: rat) \<le> of_nat (2 * x)" by (simp only: of_nat_le_iff)
  then show "(2 :: rat) ^ floorlog 2 x \<le> 2 * of_nat x" by simp
  from b have "(of_nat x :: rat) < of_nat (2 ^ floorlog 2 x)" by (simp only: of_nat_less_iff)
  then show "(of_nat x :: rat) < 2 ^ floorlog 2 x" by simp
qed

lemma leading_exp_bounds:
  assumes "0 < q"
  shows "2 powi leading_exp q \<le> q" and "q < 2 powi (leading_exp q + 1)"
proof -
  obtain n d where nd: "quotient_of q = (n, d)" by (metis surj_pair)
  then have q: "q = of_int n / of_int d" and d: "0 < d"
    by (rule quotient_of_div, rule quotient_of_denom_pos)
  with assms have n: "0 < n" by (simp add: zero_less_divide_iff)
  define a b where "a = floorlog 2 (nat n)" and "b = floorlog 2 (nat d)"
  define A B :: rat where "A = 2 ^ a" and "B = 2 ^ b"
  have AB: "A \<le> 2 * of_int n" "of_int n < A" "B \<le> 2 * of_int d" "of_int d < B" "0 < A" "0 < B"
    using floorlog_rat [of "nat n"] floorlog_rat [of "nat d"] n d
    by (simp_all add: A_def B_def a_def b_def)
  have k: "(2 :: rat) powi (int a - int b) = A / B"
    by (simp add: A_def B_def power_int_diff)
  have lo: "A / (2 * B) \<le> q"
    using frac_le [of "2 * of_int n" A "2 * of_int d" "2 * B"] AB q n d by simp
  have hi: "q < 2 * A / B"
    using frac_less [of "of_int n" A "B / 2" "of_int d"] AB q n d by (simp add: mult.commute)
  have e: "leading_exp q = (if A / B \<le> q then int a - int b else int a - int b - 1)"
    using nd by (simp add: leading_exp_def a_def b_def k [unfolded a_def b_def])
  have m1: "(2 :: rat) powi (int a - int b - 1) = A / (2 * B)"
    using k by (simp add: power_int_diff)
  have p1: "(2 :: rat) powi (int a - int b + 1) = 2 * A / B"
    using k by (simp add: power_int_add)
  show "2 powi leading_exp q \<le> q"
    using e k m1 lo by simp
  show "q < 2 powi (leading_exp q + 1)"
    using e k p1 hi by simp
qed

lemma rnd_error: "0 \<le> q \<Longrightarrow> \<bar>rnd q - q\<bar> \<le> q / 2 ^ 53"
proof (cases "q = 0")
  case True
  then show ?thesis by (simp add: rnd_def)
next
  case False
  assume "0 \<le> q"
  with False have q: "0 < q" by simp
  define u :: rat where "u = 2 powi (leading_exp q - 52)"
  have u: "0 < u" by (simp add: u_def)
  have "rnd q - q = (of_int (round_half_even (q / u)) - q / u) * u"
    using q u by (simp add: rnd_def u_def [symmetric] Let_def field_simps)
  then have "\<bar>rnd q - q\<bar> = \<bar>of_int (round_half_even (q / u)) - q / u\<bar> * u"
    using u by (simp add: abs_mult)
  also have "\<dots> \<le> 1 / 2 * u"
    using round_half_even_error u by (intro mult_right_mono) simp_all
  also have "\<dots> = 2 powi leading_exp q / 2 ^ 53"
    by (simp add: u_def power_int_diff)
  also have "\<dots> \<le> q / 2 ^ 53"
    using leading_exp_bounds(1) [OF q] by (intro divide_right_mono) simp_all
  finally show ?thesis .
qed

lemma rnd_bounds:
  assumes "0 \<le> q"
  shows "q * (1 - 1 / 2 ^ 53) \<le> rnd q" and "rnd q \<le> q * (1 + 1 / 2 ^ 53)"
proof -
  have "rnd q - q \<le> q / 2 ^ 53" "q - rnd q \<le> q / 2 ^ 53"
    using rnd_error [OF assms] by (simp_all only: abs_le_iff minus_diff_eq)
  then show "q * (1 - 1 / 2 ^ 53) \<le> rnd q" and "rnd q \<le> q * (1 + 1 / 2 ^ 53)"
    by (simp_all add: algebra_simps)
qed

text \<open>Numbers that need no more than 53 bits are not changed.\<close>

lemma rnd_exact:
  assumes "0 < q" and "q = of_int m * 2 powi (leading_exp q - 52)"
  shows "rnd q = q"
proof -
  have "q / 2 powi (leading_exp q - 52) = of_int m"
    using assms(2) by (metis nonzero_mult_div_cancel_right powi_pos less_irrefl)
  with assms show ?thesis by (simp add: rnd_def Let_def)
qed

lemma rnd_of_nat:
  assumes "n \<le> 2 ^ 53"
  shows "rnd (of_nat n) = of_nat n"
proof (cases "n = 0")
  case True
  then show ?thesis by (simp add: rnd_def)
next
  case False
  define q :: rat where "q = of_nat n"
  define e where "e = leading_exp q"
  have q: "0 < q" using False by (simp add: q_def)
  note b = leading_exp_bounds [OF q, folded e_def]
  have "(of_nat n :: rat) \<le> of_nat (2 ^ 53)" using assms by (simp only: of_nat_le_iff)
  then have top: "q \<le> 2 powi 53" by (simp add: q_def)
  have "rnd q = q"
  proof (cases "e \<le> 52")
    case True
    define j where "j = nat (52 - e)"
    have "e - 52 = - int j" using True by (simp add: j_def)
    then have "(2 :: rat) powi (e - 52) = 1 / 2 ^ j"
      by (simp only: power_int_minus power_int_of_nat divide_inverse mult_1)
    then have "q = of_int (int n * 2 ^ j) * 2 powi (e - 52)" by (simp add: q_def)
    then show ?thesis by (intro rnd_exact [OF q, of "int n * 2 ^ j"]) (simp only: e_def)
  next
    case big: False
    then have "(2 :: rat) powi 53 \<le> 2 powi e" by (intro power_int_increasing) simp_all
    with b(1) top have "q = 2 powi 53" by simp
    moreover have "e = 53"
    proof (rule ccontr)
      assume "e \<noteq> 53"
      with big have "(2 :: rat) powi 54 \<le> 2 powi e" by (intro power_int_increasing) simp_all
      with b(1) top show False by simp
    qed
    ultimately show ?thesis using rnd_exact [OF q, of "2 ^ 52"] by (simp add: e_def)
  qed
  then show ?thesis by (simp add: q_def)
qed

section \<open>Comparing a rounded ratio with a rounded threshold\<close>

lemma rnd_strict:
  assumes "0 \<le> x" and "0 \<le> y" and "x * (1 + 1 / 2 ^ 53) < y * (1 - 1 / 2 ^ 53)"
  shows "rnd x < rnd y"
  using rnd_bounds(2) [OF assms(1)] rnd_bounds(1) [OF assms(2)] assms(3) by linarith

text \<open>
  For up to \<open>2 ^ 50\<close> events the comparison of the rounded rate \<open>w / t\<close> with a tenth, two
  tenths or three tenths is exact: rounding never decides it.
\<close>

lemma rate_less:
  assumes "0 < t" and "t \<le> 2 ^ 50" and "p \<le> 3" and "10 * w < p * t"
  shows "rnd (of_nat w / of_nat t) < rnd (of_nat p / 10)"
proof (rule rnd_strict)
  let ?e = "1 / 2 ^ 53 :: rat"
  define x y T :: rat where "x = of_nat w / of_nat t" and "y = of_nat p / 10" and "T = of_nat t"
  have T: "0 < T" "T \<le> 2 ^ 50" using assms(1,2) by (simp_all add: T_def)
  have "10 * of_nat w + 1 \<le> (of_nat p * of_nat t :: rat)"
    using assms(4) by (metis Suc_eq_plus1 Suc_leI of_nat_1 of_nat_add of_nat_le_iff of_nat_mult of_nat_numeral)
  then have gap: "10 * (x * T) + 1 \<le> 10 * (y * T)"
    using T by (simp add: x_def y_def T_def field_simps)
  have y: "0 \<le> y" "y \<le> 3 / 10" using assms(3) by (simp_all add: y_def)
  have "10 * (y * T) * ?e \<le> 3 * 2 ^ 50 * ?e"
    using y T mult_mono [of "10 * y" 3 T "2 ^ 50"] by (intro mult_right_mono) simp_all
  then have "2 * (10 * (y * T)) * ?e < 1" by simp
  moreover have "10 * (x * T) * ?e \<le> 10 * (y * T) * ?e"
    using gap by (intro mult_right_mono) simp_all
  ultimately have "10 * (x * T) * (1 + ?e) < 10 * (y * T) * (1 - ?e)"
    using gap by (simp add: algebra_simps)
  then have "(x * (1 + ?e)) * T < (y * (1 - ?e)) * T" by (simp add: algebra_simps)
  then show "of_nat w / of_nat t * (1 + 1 / 2 ^ 53) < of_nat p / 10 * (1 - 1 / 2 ^ 53 :: rat)"
    using T by (simp only: x_def y_def mult_less_cancel_right_pos)
qed simp_all

lemma rate_greater:
  assumes "0 < t" and "t \<le> 2 ^ 50" and "p \<le> 3" and "p * t < 10 * w"
  shows "rnd (of_nat p / 10) < rnd (of_nat w / of_nat t)"
proof (rule rnd_strict)
  let ?e = "1 / 2 ^ 53 :: rat"
  define x y T :: rat where "x = of_nat w / of_nat t" and "y = of_nat p / 10" and "T = of_nat t"
  have T: "0 < T" "T \<le> 2 ^ 50" using assms(1,2) by (simp_all add: T_def)
  have "(of_nat p * of_nat t :: rat) + 1 \<le> 10 * of_nat w"
    using assms(4) by (metis Suc_eq_plus1 Suc_leI of_nat_1 of_nat_add of_nat_le_iff of_nat_mult of_nat_numeral)
  then have gap: "10 * (y * T) + 1 \<le> 10 * (x * T)"
    using T by (simp add: x_def y_def T_def field_simps)
  have y: "0 \<le> y" "y \<le> 3 / 10" using assms(3) by (simp_all add: y_def)
  have "10 * (y * T) * ?e \<le> 3 * 2 ^ 50 * ?e"
    using y T mult_mono [of "10 * y" 3 T "2 ^ 50"] by (intro mult_right_mono) simp_all
  then have "2 * (10 * (y * T)) * ?e + ?e < 1" by simp
  moreover have "(10 * (y * T) + 1) * (1 - ?e) \<le> 10 * (x * T) * (1 - ?e)"
    using gap by (intro mult_right_mono) simp_all
  ultimately have "10 * (y * T) * (1 + ?e) < 10 * (x * T) * (1 - ?e)"
    by (simp add: algebra_simps)
  then have "(y * (1 + ?e)) * T < (x * (1 - ?e)) * T" by (simp add: algebra_simps)
  then show "of_nat p / 10 * (1 + 1 / 2 ^ 53) < of_nat w / of_nat t * (1 - 1 / 2 ^ 53 :: rat)"
    using T by (simp only: x_def y_def mult_less_cancel_right_pos)
qed simp_all

lemma rate_equal:
  assumes "0 < t" and "10 * w = p * t"
  shows "rnd (of_nat w / of_nat t) = rnd (of_nat p / 10)"
proof -
  have "(10 * of_nat w :: rat) = of_nat p * of_nat t"
    using assms(2) by (metis of_nat_mult of_nat_numeral)
  with assms(1) have "(of_nat w / of_nat t :: rat) = of_nat p / 10"
    by (simp only: frac_eq_eq of_nat_eq_0_iff not_gr_zero [symmetric] zero_neq_numeral [symmetric]
        not_False_eq_True not_not mult.commute)
  then show ?thesis by (rule arg_cong)
qed

lemma rate_exact:
  assumes "0 < t" and "t \<le> 2 ^ 50" and "p \<le> 3"
  shows "rnd (of_nat p / 10) < rnd (of_nat w / of_nat t) \<longleftrightarrow> p * t < 10 * w"
    and "rnd (of_nat w / of_nat t) < rnd (of_nat p / 10) \<longleftrightarrow> 10 * w < p * t"
proof -
  note l = rate_less [OF assms, of w] and g = rate_greater [OF assms, of w] and e = rate_equal [OF assms(1), of w p]
  consider "10 * w < p * t" | "10 * w = p * t" | "p * t < 10 * w" by linarith
  then have "(rnd (of_nat p / 10) < rnd (of_nat w / of_nat t) \<longleftrightarrow> p * t < 10 * w) \<and>
    (rnd (of_nat w / of_nat t) < rnd (of_nat p / 10) \<longleftrightarrow> 10 * w < p * t)"
    by cases (use l g e in auto)
  then show "rnd (of_nat p / 10) < rnd (of_nat w / of_nat t) \<longleftrightarrow> p * t < 10 * w"
    and "rnd (of_nat w / of_nat t) < rnd (of_nat p / 10) \<longleftrightarrow> 10 * w < p * t"
    by blast+
qed

end
