(* ===== verification/Adaptive.thy ===== *)
theory Adaptive
  imports Sys Float64
begin

text \<open>
  \<^verbatim>\<open>AdaptiveState\<close> of \<^verbatim>\<open>socket.rs\<close>: the batch size that follows the rate of \<^verbatim>\<open>WouldBlock\<close>
  events. The clock is the kernel parameter's. The counters are \<^verbatim>\<open>u64\<close>; their \<^verbatim>\<open>+= 1\<close> wraps, as
  in a release build. \<^verbatim>\<open>target_size\<close> stays within 1 and 1024, so a natural number holds it.
\<close>

section \<open>The state and its operations\<close>

record AdaptiveState =
  target_size :: nat
  would_block_count :: u64
  total_send_count :: u64
  last_adjustment :: nat

definition MIN_BATCH :: nat where
  "MIN_BATCH = 1"

definition MAX_BATCH :: nat where
  "MAX_BATCH = 1024"

text \<open>100 ms, in the nanoseconds of the clock.\<close>

definition ADJUSTMENT_INTERVAL :: nat where
  "ADJUSTMENT_INTERVAL = 100000000"

definition clamp :: "nat \<Rightarrow> nat \<Rightarrow> nat \<Rightarrow> nat" where
  "clamp lo hi n = (if n < lo then lo else if hi < n then hi else n)"

definition AdaptiveState_new :: "'w kernel \<Rightarrow> nat \<Rightarrow> 'w \<Rightarrow> AdaptiveState \<times> 'w" where
  "AdaptiveState_new k initial w =
     (let (now, w') = k_now k w in
      (\<lparr>target_size = clamp MIN_BATCH MAX_BATCH initial, would_block_count = 0, total_send_count = 0,
        last_adjustment = now\<rparr>, w'))"

definition record_would_block :: "AdaptiveState \<Rightarrow> AdaptiveState" where
  "record_would_block s =
     s\<lparr>would_block_count := would_block_count s + 1, total_send_count := total_send_count s + 1\<rparr>"

definition record_event :: "AdaptiveState \<Rightarrow> AdaptiveState" where
  "record_event s = s\<lparr>total_send_count := total_send_count s + 1\<rparr>"

text \<open>The literals \<^verbatim>\<open>0.3\<close> and \<^verbatim>\<open>0.1\<close> are the doubles nearest to them.\<close>

definition next_target :: "nat \<Rightarrow> f64 \<Rightarrow> nat" where
  "next_target target wb_rate =
     (if rnd (3 / 10) < wb_rate then max (target div 2) MIN_BATCH
      else if wb_rate < rnd (1 / 10) \<and> target < MAX_BATCH then min (target * 3 div 2) MAX_BATCH
      else target)"

text \<open>\<^verbatim>\<open>elapsed\<close> is zero if the clock reads less than the stored instant. The clock is read
  again for the new \<^verbatim>\<open>last_adjustment\<close>.\<close>

definition maybe_adjust :: "'w kernel \<Rightarrow> AdaptiveState \<Rightarrow> 'w \<Rightarrow> AdaptiveState \<times> 'w" where
  "maybe_adjust k s w =
     (let (now, w1) = k_now k w in
      if now - last_adjustment s < ADJUSTMENT_INTERVAL then (s, w1)
      else if total_send_count s = 0 then (s, w1)
      else
        let wb_rate = f64_div (f64_of_u64 (would_block_count s)) (f64_of_u64 (total_send_count s));
            (now2, w2) = k_now k w1
        in (s\<lparr>target_size := next_target (target_size s) wb_rate, would_block_count := 0,
              total_send_count := 0, last_adjustment := now2\<rparr>, w2))"

definition recommended_size :: "AdaptiveState \<Rightarrow> nat" where
  "recommended_size s = target_size s"

section \<open>The target stays in range\<close>

definition target_ok :: "AdaptiveState \<Rightarrow> bool" where
  "target_ok s \<longleftrightarrow> MIN_BATCH \<le> target_size s \<and> target_size s \<le> MAX_BATCH"

lemma clamp_bounds: "lo \<le> hi \<Longrightarrow> lo \<le> clamp lo hi n \<and> clamp lo hi n \<le> hi"
  by (simp add: clamp_def)

lemma next_target_ok:
  "MIN_BATCH \<le> t \<Longrightarrow> t \<le> MAX_BATCH \<Longrightarrow> MIN_BATCH \<le> next_target t r \<and> next_target t r \<le> MAX_BATCH"
  by (auto simp: next_target_def MIN_BATCH_def MAX_BATCH_def)

lemma maybe_adjust_ok: "target_ok s \<Longrightarrow> maybe_adjust k s w = (s', w') \<Longrightarrow> target_ok s'"
  by (auto simp: maybe_adjust_def Let_def target_ok_def next_target_ok split: prod.splits if_splits)

lemma records_ok: "target_ok s \<Longrightarrow> target_ok (record_event s)" "target_ok s \<Longrightarrow> target_ok (record_would_block s)"
  by (simp_all add: target_ok_def record_event_def record_would_block_def)

lemma new_ok: "AdaptiveState_new k n w = (s, w') \<Longrightarrow> target_ok s"
  using clamp_bounds [of MIN_BATCH MAX_BATCH n]
  by (auto simp: AdaptiveState_new_def target_ok_def MIN_BATCH_def MAX_BATCH_def split: prod.splits)

section \<open>Runs\<close>

text \<open>What happens to the state of one socket: a batch call succeeds, a batch call would block,
  or the world goes on without it.\<close>

inductive adaptive_step :: "'w kernel \<Rightarrow> AdaptiveState \<times> 'w \<Rightarrow> AdaptiveState \<times> 'w \<Rightarrow> bool" for k where
  event: "adaptive_step k (s, w) (record_event s, w)"
| blocked: "maybe_adjust k (record_would_block s) w = (s', w') \<Longrightarrow> adaptive_step k (s, w) (s', w')"
| other: "adaptive_step k (s, w) (s, w')"

inductive_cases adaptive_stepE: "adaptive_step k (s, w) c"

lemma adaptive_step_ok: "adaptive_step k c c' \<Longrightarrow> target_ok (fst c) \<Longrightarrow> target_ok (fst c')"
  by (induction rule: adaptive_step.induct) (auto intro: records_ok maybe_adjust_ok)

lemma adaptive_reachable_ok:
  "(adaptive_step k)\<^sup>*\<^sup>* c c' \<Longrightarrow> target_ok (fst c) \<Longrightarrow> target_ok (fst c')"
  by (induction rule: rtranclp_induct) (auto intro: adaptive_step_ok)

text \<open>A target of 1 cannot grow: half of 1 is raised to 1, and one and a half is rounded down.\<close>

lemma next_target_one: "next_target 1 r = 1"
  by (simp add: next_target_def MIN_BATCH_def MAX_BATCH_def)

lemma adaptive_step_one: "adaptive_step k c c' \<Longrightarrow> target_size (fst c) = 1 \<Longrightarrow> target_size (fst c') = 1"
  by (induction rule: adaptive_step.induct)
     (auto simp: record_event_def record_would_block_def maybe_adjust_def Let_def next_target_one [simplified]
       split: prod.splits if_splits)

section \<open>Properties\<close>

text \<open>Whatever the batch size asked for and whatever happens on the socket, the recommended
  batch size is between 1 and 1024 at every moment.\<close>

lemma adaptive_target_bounded:
  assumes "AdaptiveState_new k initial w0 = (s0, w)" and "(adaptive_step k)\<^sup>*\<^sup>* (s0, w) (s, w')"
  shows "1 \<le> recommended_size s \<and> recommended_size s \<le> 1024"
  using adaptive_reachable_ok [OF assms(2)] new_ok [OF assms(1)]
  by (simp add: target_ok_def recommended_size_def MIN_BATCH_def MAX_BATCH_def)

text \<open>A kernel that is nothing but a clock.\<close>

definition clock_kernel :: "nat kernel" where
  "clock_kernel =
     \<lparr>k_libc = linux_libc, k_errno = (\<lambda>_. 0), k_sendmmsg = (\<lambda>_ _ _ w. (- 1, w)),
      k_recvmmsg = (\<lambda>_ ms _ w. (- 1, ms, w)), k_sendmsg_gso = (\<lambda>_ _ _ w. (- 1, w)),
      k_sendto = (\<lambda>_ _ _ _ w. (- 1, w)), k_send = (\<lambda>_ _ w. (- 1, w)),
      k_recvfrom = (\<lambda>_ b st l w. (- 1, b, st, l, w)), k_getpeername = (\<lambda>_ st l w. (- 1, st, l, w)),
      k_getsockname = (\<lambda>_ st l w. (- 1, st, l, w)), k_connect = (\<lambda>_ _ _ w. (- 1, w)),
      k_setsockopt = (\<lambda>_ _ _ _ _ w. (- 1, w)), k_getsockopt = (\<lambda>_ _ _ v _ w. (- 1, v, w)),
      k_set_nonblocking = (\<lambda>_ w. (Inr (), w)), k_register = (\<lambda>_ w. (Inr (), w)), k_now = (\<lambda>w. (w, w)),
      k_writable = (\<lambda>_ w. (Inr (), w)), k_readable = (\<lambda>_ w. (Inr (), w)), k_close = (\<lambda>_ w. w)\<rparr>"

text \<open>C23. The adjustment decides exactly as documented, in spite of floating point: with at most
  \<open>2 ^ 50\<close> events recorded and the last adjustment at least 100 ms ago, the target is halved
  (not below 1) if more than 30% of the events would have blocked, raised by half (not above
  1024, rounding down) if fewer than 10% would, and kept otherwise; the counters start again
  from 0. Less than 100 ms after the last adjustment, or with no event, nothing changes.\<close>

theorem adaptive_decision_exact:
  assumes "k_now k w = (now, w1)" and "k_now k w1 = (now2, w2)"
    and "unat (total_send_count s) \<le> 2 ^ 50" and "unat (would_block_count s) \<le> 2 ^ 50"
  shows "fst (maybe_adjust k s w) =
     (if now - last_adjustment s < 100000000 \<or> total_send_count s = 0 then s
      else let wb = unat (would_block_count s); total = unat (total_send_count s); t = target_size s in
        \<lparr>target_size =
           (if 3 * total < 10 * wb then max (t div 2) 1
            else if 10 * wb < total \<and> t < 1024 then min (t * 3 div 2) 1024
            else t),
         would_block_count = 0, total_send_count = 0, last_adjustment = now2\<rparr>)"
proof (cases "now - last_adjustment s < 100000000 \<or> total_send_count s = 0")
  case True
  with assms(1) show ?thesis by (auto simp: maybe_adjust_def ADJUSTMENT_INTERVAL_def)
next
  case False
  let ?wb = "unat (would_block_count s)" and ?t = "unat (total_send_count s)"
  have t: "0 < ?t" using False by (simp add: unat_gt_0)
  have conv: "f64_of_u64 (would_block_count s) = of_nat ?wb" "f64_of_u64 (total_send_count s) = of_nat ?t"
    unfolding f64_of_u64_def by (rule rnd_of_nat, use assms(3,4) in simp)+
  define r where "r = f64_div (f64_of_u64 (would_block_count s)) (f64_of_u64 (total_send_count s))"
  have r: "r = rnd (of_nat ?wb / of_nat ?t)" by (simp only: r_def conv f64_div_def)
  have gt: "rnd (3 / 10) < r \<longleftrightarrow> 3 * ?t < 10 * ?wb"
    using rate_exact(1) [OF t assms(3), of 3 ?wb] by (simp only: r) simp
  have lt: "r < rnd (1 / 10) \<longleftrightarrow> 10 * ?wb < ?t"
    using rate_exact(2) [OF t assms(3), of 1 ?wb] by (simp only: r) simp
  have "next_target (target_size s) r =
     (if 3 * ?t < 10 * ?wb then max (target_size s div 2) 1
      else if 10 * ?wb < ?t \<and> target_size s < 1024 then min (target_size s * 3 div 2) 1024
      else target_size s)"
    by (simp only: next_target_def gt lt MIN_BATCH_def MAX_BATCH_def)
  with False assms(1,2) show ?thesis
    by (simp add: maybe_adjust_def ADJUSTMENT_INTERVAL_def r_def [symmetric] Let_def)
qed

theorem adaptive_decision_exact_witness:
  "target_size (fst (maybe_adjust clock_kernel
     \<lparr>target_size = 32, would_block_count = 3, total_send_count = 10, last_adjustment = 0\<rparr> 200000000)) = 32 \<and>
   target_size (fst (maybe_adjust clock_kernel
     \<lparr>target_size = 32, would_block_count = 4, total_send_count = 10, last_adjustment = 0\<rparr> 200000000)) = 16"
  using adaptive_decision_exact [of clock_kernel 200000000 200000000 200000000 200000000 200000000
      "\<lparr>target_size = 32, would_block_count = 3, total_send_count = 10, last_adjustment = 0\<rparr>"]
    adaptive_decision_exact [of clock_kernel 200000000 200000000 200000000 200000000 200000000
      "\<lparr>target_size = 32, would_block_count = 4, total_send_count = 10, last_adjustment = 0\<rparr>"]
  by (simp add: clock_kernel_def)

text \<open>Once the target has come down to 1 it never grows again, however low the rate of
  blocking: half more than 1, rounded down, is 1.\<close>

lemma adaptive_stuck_at_one:
  assumes "target_size s = 1" and "(adaptive_step k)\<^sup>*\<^sup>* (s, w) (s', w')"
  shows "recommended_size s' = 1"
proof -
  have "target_size (fst c) = 1 \<Longrightarrow> target_size (fst c') = 1" if "(adaptive_step k)\<^sup>*\<^sup>* c c'" for c c'
    using that by (induction rule: rtranclp_induct) (assumption, blast intro: adaptive_step_one)
  from this [OF assms(2)] assms(1) show ?thesis by (simp add: recommended_size_def)
qed

end
