(* ===== verification/Metrics.thy ===== *)
theory Metrics
  imports Float64 "HOL-Library.Multiset"
begin

text \<open>
  \<^verbatim>\<open>metrics.rs\<close>: ten counters, each an \<^verbatim>\<open>AtomicU64\<close> used with relaxed ordering. A relaxed
  \<^verbatim>\<open>fetch_add\<close> is one indivisible step that wraps at \<open>2 ^ 64\<close>; what threads do to the counters
  is a sequence of such steps in some order, and the lemmas show that the order does not
  matter.
\<close>

section \<open>The counters\<close>

record BingerMetrics =
  c_packets_sent :: u64
  c_packets_received :: u64
  c_batches_sent :: u64
  c_batches_received :: u64
  c_send_syscalls :: u64
  c_recv_syscalls :: u64
  c_send_errors :: u64
  c_recv_errors :: u64
  c_send_would_block :: u64
  c_recv_would_block :: u64

definition BingerMetrics_default :: BingerMetrics where
  "BingerMetrics_default =
     \<lparr>c_packets_sent = 0, c_packets_received = 0, c_batches_sent = 0, c_batches_received = 0,
      c_send_syscalls = 0, c_recv_syscalls = 0, c_send_errors = 0, c_recv_errors = 0, c_send_would_block = 0, c_recv_would_block = 0\<rparr>"

definition packets_sent :: "BingerMetrics \<Rightarrow> u64" where
  "packets_sent m = c_packets_sent m"

definition packets_received :: "BingerMetrics \<Rightarrow> u64" where
  "packets_received m = c_packets_received m"

definition batches_sent :: "BingerMetrics \<Rightarrow> u64" where
  "batches_sent m = c_batches_sent m"

definition batches_received :: "BingerMetrics \<Rightarrow> u64" where
  "batches_received m = c_batches_received m"

definition send_syscalls :: "BingerMetrics \<Rightarrow> u64" where
  "send_syscalls m = c_send_syscalls m"

definition recv_syscalls :: "BingerMetrics \<Rightarrow> u64" where
  "recv_syscalls m = c_recv_syscalls m"

definition send_errors :: "BingerMetrics \<Rightarrow> u64" where
  "send_errors m = c_send_errors m"

definition recv_errors :: "BingerMetrics \<Rightarrow> u64" where
  "recv_errors m = c_recv_errors m"

definition send_would_block :: "BingerMetrics \<Rightarrow> u64" where
  "send_would_block m = c_send_would_block m"

definition recv_would_block :: "BingerMetrics \<Rightarrow> u64" where
  "recv_would_block m = c_recv_would_block m"

lemmas counter_loads = packets_sent_def packets_received_def batches_sent_def batches_received_def
  send_syscalls_def recv_syscalls_def send_errors_def recv_errors_def send_would_block_def
  recv_would_block_def

definition syscall_efficiency_ratio :: "BingerMetrics \<Rightarrow> f64" where
  "syscall_efficiency_ratio m =
     (let pkt = f64_of_u64 (packets_sent m); sc = f64_of_u64 (send_syscalls m) in
      if 0 < sc then f64_div pkt sc else 0)"

record MetricsSnapshot =
  s_packets_sent :: u64
  s_packets_received :: u64
  s_batches_sent :: u64
  s_batches_received :: u64
  s_send_syscalls :: u64
  s_recv_syscalls :: u64
  s_send_errors :: u64
  s_recv_errors :: u64
  s_send_would_block :: u64
  s_recv_would_block :: u64
  s_syscall_efficiency :: f64

definition snapshot :: "BingerMetrics \<Rightarrow> MetricsSnapshot" where
  "snapshot m =
     \<lparr>s_packets_sent = packets_sent m,
      s_packets_received = packets_received m,
      s_batches_sent = batches_sent m,
      s_batches_received = batches_received m,
      s_send_syscalls = send_syscalls m,
      s_recv_syscalls = recv_syscalls m,
      s_send_errors = send_errors m,
      s_recv_errors = recv_errors m,
      s_send_would_block = send_would_block m,
      s_recv_would_block = recv_would_block m,
      s_syscall_efficiency = syscall_efficiency_ratio m\<rparr>"

text \<open>Ten relaxed stores.\<close>

definition reset :: "BingerMetrics \<Rightarrow> BingerMetrics" where
  "reset m = m
     \<lparr>c_packets_sent := 0, c_packets_received := 0, c_batches_sent := 0, c_batches_received := 0,
      c_send_syscalls := 0, c_recv_syscalls := 0, c_send_errors := 0, c_recv_errors := 0, c_send_would_block := 0, c_recv_would_block := 0\<rparr>"

definition inc_packets_sent :: "u64 \<Rightarrow> BingerMetrics \<Rightarrow> BingerMetrics" where
  "inc_packets_sent n m = m\<lparr>c_packets_sent := c_packets_sent m + n\<rparr>"

definition inc_packets_received :: "u64 \<Rightarrow> BingerMetrics \<Rightarrow> BingerMetrics" where
  "inc_packets_received n m = m\<lparr>c_packets_received := c_packets_received m + n\<rparr>"

definition inc_batches_sent :: "BingerMetrics \<Rightarrow> BingerMetrics" where
  "inc_batches_sent m = m\<lparr>c_batches_sent := c_batches_sent m + 1\<rparr>"

definition inc_batches_received :: "BingerMetrics \<Rightarrow> BingerMetrics" where
  "inc_batches_received m = m\<lparr>c_batches_received := c_batches_received m + 1\<rparr>"

definition inc_send_syscalls :: "BingerMetrics \<Rightarrow> BingerMetrics" where
  "inc_send_syscalls m = m\<lparr>c_send_syscalls := c_send_syscalls m + 1\<rparr>"

definition inc_recv_syscalls :: "BingerMetrics \<Rightarrow> BingerMetrics" where
  "inc_recv_syscalls m = m\<lparr>c_recv_syscalls := c_recv_syscalls m + 1\<rparr>"

definition inc_send_errors :: "BingerMetrics \<Rightarrow> BingerMetrics" where
  "inc_send_errors m = m\<lparr>c_send_errors := c_send_errors m + 1\<rparr>"

definition inc_recv_errors :: "BingerMetrics \<Rightarrow> BingerMetrics" where
  "inc_recv_errors m = m\<lparr>c_recv_errors := c_recv_errors m + 1\<rparr>"

definition inc_send_would_block :: "BingerMetrics \<Rightarrow> BingerMetrics" where
  "inc_send_would_block m = m\<lparr>c_send_would_block := c_send_would_block m + 1\<rparr>"

definition inc_recv_would_block :: "BingerMetrics \<Rightarrow> BingerMetrics" where
  "inc_recv_would_block m = m\<lparr>c_recv_would_block := c_recv_would_block m + 1\<rparr>"

lemmas counter_incs = inc_packets_sent_def inc_packets_received_def inc_batches_sent_def
  inc_batches_received_def inc_send_syscalls_def inc_recv_syscalls_def inc_send_errors_def
  inc_recv_errors_def inc_send_would_block_def inc_recv_would_block_def

text \<open>What counts is exactly the updates after the last reset.\<close>

lemma reset_default: "reset m = BingerMetrics_default"
  by (simp add: reset_def BingerMetrics_default_def)

section \<open>Updates by several threads\<close>

text \<open>One atomic update, by whatever thread.\<close>

datatype metric_op =
    PacketsSent u64 | PacketsReceived u64 | BatchesSent | BatchesReceived | SendSyscalls
  | RecvSyscalls | SendErrors | RecvErrors | SendWouldBlock | RecvWouldBlock

fun apply_op :: "metric_op \<Rightarrow> BingerMetrics \<Rightarrow> BingerMetrics" where
  "apply_op (PacketsSent n) = inc_packets_sent n"
| "apply_op (PacketsReceived n) = inc_packets_received n"
| "apply_op BatchesSent = inc_batches_sent"
| "apply_op BatchesReceived = inc_batches_received"
| "apply_op SendSyscalls = inc_send_syscalls"
| "apply_op RecvSyscalls = inc_recv_syscalls"
| "apply_op SendErrors = inc_send_errors"
| "apply_op RecvErrors = inc_recv_errors"
| "apply_op SendWouldBlock = inc_send_would_block"
| "apply_op RecvWouldBlock = inc_recv_would_block"

lemma apply_op_commute: "apply_op x (apply_op y m) = apply_op y (apply_op x m)"
  by (cases x; cases y) (simp_all add: counter_incs add.commute add.left_commute)

lemma apply_ops_permute: "mset xs = mset ys \<Longrightarrow> fold apply_op xs m = fold apply_op ys m"
  by (rule fold_multiset_equiv [THEN fun_cong]) (auto simp: fun_eq_iff apply_op_commute)

text \<open>What an update adds to the count of packets sent.\<close>

fun sent_by :: "metric_op \<Rightarrow> u64" where
  "sent_by (PacketsSent n) = n"
| "sent_by _ = 0"

lemma packets_sent_apply: "packets_sent (apply_op x m) = packets_sent m + sent_by x"
  by (cases x) (simp_all add: counter_loads counter_incs)

lemma packets_sent_fold: "packets_sent (fold apply_op xs m) = packets_sent m + sum_list (map sent_by xs)"
  by (induction xs arbitrary: m) (simp_all add: packets_sent_apply add.assoc)

text \<open>The interleavings of two threads' updates.\<close>

inductive interleaved :: "'a list \<Rightarrow> 'a list \<Rightarrow> 'a list \<Rightarrow> bool" where
  stop: "interleaved [] [] []"
| left: "interleaved xs ys zs \<Longrightarrow> interleaved (x # xs) ys (x # zs)"
| right: "interleaved xs ys zs \<Longrightarrow> interleaved xs (y # ys) (y # zs)"

inductive_simps interleaved_simps [simp]:
  "interleaved [] [] zs" "interleaved xs ys []"

lemma interleaved_mset: "interleaved xs ys zs \<Longrightarrow> mset zs = mset xs + mset ys"
  by (induction rule: interleaved.induct) auto

section \<open>Properties\<close>

text \<open>However the updates of two threads interleave, the counters end up the same, as if one
  thread had run after the other: no update is lost. In particular the packets-sent counter
  has grown by the sum of all the additions, modulo \<open>2 ^ 64\<close>.\<close>

lemma metrics_interleave:
  assumes "interleaved xs ys zs"
  shows "fold apply_op zs m = fold apply_op ys (fold apply_op xs m) \<and>
     packets_sent (fold apply_op zs m) = packets_sent m + sum_list (map sent_by (xs @ ys))"
proof -
  have "mset zs = mset (xs @ ys)" using interleaved_mset [OF assms] by simp
  from apply_ops_permute [OF this, of m] show ?thesis
    by (simp add: packets_sent_fold add.assoc)
qed



end
