(* ===== verification/Socket.thy ===== *)
theory Socket
  imports Macos Windows_Io Adaptive Metrics
begin

text \<open>
  \<^verbatim>\<open>socket.rs\<close>: the configuration, the capabilities and the socket itself, on top of a platform
  backend. The asynchronous methods are loops around Tokio's readiness waits, which are
  parameters of the kernel: a method that never completes is \<open>Diverges\<close>. A \<^verbatim>\<open>std::sync::Mutex\<close>
  is its value and whether a panic has poisoned it. Metrics and adaptive state are updated
  through \<^verbatim>\<open>&self\<close>, so every method returns the socket. The raw calls are those of \<open>Sockaddr\<close>, with which
  the Windows ones agree (\<open>Windows_Io\<close>).
\<close>

section \<open>Config\<close>

record Config =
  batch_size :: nat
  send_buf_size :: "nat option"
  recv_os_buf_size :: "nat option"
  adaptive_batching :: bool
  metrics_enabled :: bool

definition Config_default :: Config where
  "Config_default =
     \<lparr>batch_size = 32, send_buf_size = None, recv_os_buf_size = None, adaptive_batching = False,
      metrics_enabled = False\<rparr>"

definition Config_new :: Config where
  "Config_new = Config_default"

definition with_batch_size :: "nat \<Rightarrow> Config \<Rightarrow> Config" where
  "with_batch_size n c = c\<lparr>batch_size := n\<rparr>"

definition with_send_buf_size :: "nat \<Rightarrow> Config \<Rightarrow> Config" where
  "with_send_buf_size n c = c\<lparr>send_buf_size := Some n\<rparr>"

definition with_recv_os_buf_size :: "nat \<Rightarrow> Config \<Rightarrow> Config" where
  "with_recv_os_buf_size n c = c\<lparr>recv_os_buf_size := Some n\<rparr>"

definition with_adaptive_batching :: "bool \<Rightarrow> Config \<Rightarrow> Config" where
  "with_adaptive_batching enabled c = c\<lparr>adaptive_batching := enabled\<rparr>"

definition with_metrics :: "bool \<Rightarrow> Config \<Rightarrow> Config" where
  "with_metrics enabled c = c\<lparr>metrics_enabled := enabled\<rparr>"

section \<open>PlatformCaps\<close>

datatype target_os = Linux | MacOS | Windows | OtherOS

text \<open>The cargo features; \<open>build_rx\<close> are the three that change the Linux receive.\<close>

record build =
  build_os :: target_os
  miri_safe :: bool
  has_tokio :: bool
  has_metrics :: bool
  has_gso :: bool
  has_busy_poll :: bool
  has_pacing :: bool
  build_rx :: features

text \<open>\<open>None\<close> for a field that the build does not have.\<close>

record PlatformCaps =
  supports_sendmmsg :: bool
  supports_recvmmsg :: bool
  supports_sendmsg_x :: "bool option"
  supports_recvmsg_x :: "bool option"
  supports_wsa_send_msg :: "bool option"
  supports_wsa_recv_msg :: "bool option"
  supports_gso :: bool
  supports_gro :: bool
  supports_busy_poll :: bool
  supports_pacing :: bool
  supports_timestamping :: "bool option"
  supports_pktinfo :: "bool option"
  max_batch_size :: nat
  backend_name :: string

fun backends :: "target_os \<Rightarrow> string" where
  "backends Linux = ''sendmmsg/recvmmsg (Linux)''"
| "backends MacOS = ''sendmsg_x/recvmsg_x (macOS)''"
| "backends Windows = ''WSASendMsg/WSARecvMsg (Windows)''"
| "backends OtherOS = ''fallback (loop sendto/recvfrom)''"

definition platform_capabilities :: "build \<Rightarrow> PlatformCaps" where
  "platform_capabilities bld =
     (let linux = (build_os bld = Linux); rx = build_rx bld in
      \<lparr>supports_sendmmsg = linux,
       supports_recvmmsg = linux,
       supports_sendmsg_x = (if build_os bld = MacOS then Some True else None),
       supports_recvmsg_x = (if build_os bld = MacOS then Some True else None),
       supports_wsa_send_msg = (if build_os bld = Windows then Some True else None),
       supports_wsa_recv_msg = (if build_os bld = Windows then Some True else None),
       supports_gso = (linux \<and> has_gso bld),
       supports_gro = (linux \<and> feat_gro rx),
       supports_busy_poll = (linux \<and> has_busy_poll bld),
       supports_pacing = (linux \<and> has_pacing bld),
       supports_timestamping =
         (if feat_timestamping rx then Some (linux \<and> feat_timestamping rx) else None),
       supports_pktinfo = (if feat_pktinfo rx then Some (linux \<and> feat_pktinfo rx) else None),
       max_batch_size = (if linux then 1024 else 32),
       backend_name = backends (build_os bld)\<rparr>)"

section \<open>BingerUdp\<close>

text \<open>What \<^verbatim>\<open>crate::platform\<close> exports.\<close>

record 'w backend =
  be_try_send :: "'w kernel \<Rightarrow> fd \<Rightarrow> memory \<Rightarrow> SendBatchRaw \<Rightarrow> 'w \<Rightarrow> (nat io_result \<times> 'w) outcome"
  be_try_recv :: "'w kernel \<Rightarrow> fd \<Rightarrow> RecvBatchRaw \<Rightarrow> 'w \<Rightarrow> (nat io_result \<times> RecvBatchRaw \<times> 'w) outcome"

definition linux_backend :: "features \<Rightarrow> 'w backend" where
  "linux_backend f = \<lparr>be_try_send = linux_try_send_batch, be_try_recv = linux_try_recv_batch f\<rparr>"

definition fallback_backend :: "'w backend" where
  "fallback_backend = \<lparr>be_try_send = fallback_try_send_batch, be_try_recv = fallback_try_recv_batch\<rparr>"

definition macos_backend :: "'w macos_api \<Rightarrow> 'w backend" where
  "macos_backend A = \<lparr>be_try_send = macos_try_send_batch A, be_try_recv = macos_try_recv_batch A\<rparr>"

definition windows_backend :: "'w winsock \<Rightarrow> 'w backend" where
  "windows_backend W = \<lparr>be_try_send = windows_try_send_batch W, be_try_recv = windows_try_recv_batch W\<rparr>"

text \<open>The feature \<^verbatim>\<open>miri-safe\<close> selects the portable backend on every system.\<close>

definition native :: "build \<Rightarrow> target_os" where
  "native bld = (if miri_safe bld then OtherOS else build_os bld)"

definition imp :: "build \<Rightarrow> 'w macos_api \<Rightarrow> 'w winsock \<Rightarrow> 'w backend" where
  "imp bld A W =
     (case native bld of
        Linux \<Rightarrow> linux_backend (build_rx bld)
      | MacOS \<Rightarrow> macos_backend A
      | Windows \<Rightarrow> windows_backend W
      | OtherOS \<Rightarrow> fallback_backend)"

record 'a mutex =
  mx_poisoned :: bool
  mx_value :: 'a

record BingerUdp =
  udp_fd :: fd
  udp_metrics :: "BingerMetrics option"
  adaptive_send :: "AdaptiveState mutex option"
  adaptive_recv :: "AdaptiveState mutex option"

text \<open>
  \<^verbatim>\<open>from_std\<close> owns the standard socket: an early return drops it, which closes the
  descriptor. \<^verbatim>\<open>size as c_int\<close> keeps the low 32 bits.
\<close>

definition set_buf_size :: "'w kernel \<Rightarrow> fd \<Rightarrow> int \<Rightarrow> nat option \<Rightarrow> 'w \<Rightarrow> unit io_result \<times> 'w" where
  "set_buf_size k fd optname sz w =
     (case sz of
        None \<Rightarrow> (Inr (), w)
      | Some n \<Rightarrow> raw_setsockopt k fd (SOL_SOCKET (k_libc k)) optname (of_nat n) w)"

definition adaptive_new ::
    "'w kernel \<Rightarrow> Config \<Rightarrow> 'w \<Rightarrow> AdaptiveState mutex option \<times> 'w" where
  "adaptive_new k config w =
     (if adaptive_batching config
      then let (s, w') = AdaptiveState_new k (batch_size config) w
        in (Some \<lparr>mx_poisoned = False, mx_value = s\<rparr>, w')
      else (None, w))"

text \<open>A \<^verbatim>\<open>std::net::UdpSocket\<close> is its descriptor. The second function gives up the ownership, so
  that nothing closes the descriptor when the standard socket goes out of scope.\<close>

definition raw_fd_std :: "fd \<Rightarrow> fd" where
  "raw_fd_std socket = socket"

definition raw_fd_std_owned :: "fd \<Rightarrow> fd" where
  "raw_fd_std_owned socket = socket"

declare raw_fd_std_def [simp] raw_fd_std_owned_def [simp]

definition from_std :: "'w kernel \<Rightarrow> build \<Rightarrow> fd \<Rightarrow> Config \<Rightarrow> 'w \<Rightarrow> BingerUdp io_result \<times> 'w" where
  "from_std k bld socket config w =
     (case k_set_nonblocking k socket w of
        (Inl e, w1) \<Rightarrow> (Inl e, k_close k socket w1)
      | (Inr _, w1) \<Rightarrow>
     (case set_buf_size k (raw_fd_std socket) (SO_SNDBUF (k_libc k)) (send_buf_size config) w1 of
        (Inl e, w2) \<Rightarrow> (Inl e, k_close k socket w2)
      | (Inr _, w2) \<Rightarrow>
     (case set_buf_size k (raw_fd_std socket) (SO_RCVBUF (k_libc k)) (recv_os_buf_size config) w2 of
        (Inl e, w3) \<Rightarrow> (Inl e, k_close k socket w3)
      | (Inr _, w3) \<Rightarrow>
     (case (if has_tokio bld then k_register k socket w3 else (Inr (), w3)) of
        (Inl e, w4) \<Rightarrow> (Inl e, k_close k socket w4)
      | (Inr _, w4) \<Rightarrow>
          (let metrics = (if has_metrics bld \<and> metrics_enabled config then Some BingerMetrics_default else None);
               (snd_state, w5) = adaptive_new k config w4;
               (rcv_state, w6) = adaptive_new k config w5;
               fd = (if has_tokio bld then raw_fd_std socket else raw_fd_std_owned socket)
           in (Inr \<lparr>udp_fd = fd, udp_metrics = metrics, adaptive_send = snd_state,
                    adaptive_recv = rcv_state\<rparr>, w6))))))"

section \<open>The non-blocking batch calls\<close>

definition on_metrics :: "(BingerMetrics \<Rightarrow> BingerMetrics) \<Rightarrow> BingerUdp \<Rightarrow> BingerUdp" where
  "on_metrics f u = u\<lparr>udp_metrics := map_option f (udp_metrics u)\<rparr>"

text \<open>\<^verbatim>\<open>if let Ok(mut s) = state.lock()\<close>: a poisoned mutex is left alone.\<close>

definition locked :: "('a \<Rightarrow> 'a) \<Rightarrow> 'a mutex \<Rightarrow> 'a mutex" where
  "locked f mx = (if mx_poisoned mx then mx else mx\<lparr>mx_value := f (mx_value mx)\<rparr>)"

definition try_send_batch ::
    "'w backend \<Rightarrow> 'w kernel \<Rightarrow> memory \<Rightarrow> BingerUdp \<Rightarrow> SendBatchRaw \<Rightarrow> 'w \<Rightarrow> (nat io_result \<times> BingerUdp \<times> 'w) outcome" where
  "try_send_batch be k m u batch w =
     outcome_bind (be_try_send be k (udp_fd u) m batch w) (\<lambda>(r, w').
       case r of
         Inl e \<Rightarrow>
           let u1 = on_metrics inc_send_errors u;
               u2 = (if kind (k_libc k) e = WouldBlock then on_metrics inc_send_would_block u1 else u1)
           in Returns (Inl e, u2, w')
       | Inr sent \<Rightarrow>
           let u1 = u\<lparr>adaptive_send := map_option (locked record_event) (adaptive_send u)\<rparr>;
               u2 = on_metrics (\<lambda>mt. inc_send_syscalls (inc_batches_sent (inc_packets_sent (of_nat sent) mt))) u1
           in Returns (Inr sent, u2, w'))"

definition try_recv_batch ::
    "'w backend \<Rightarrow> 'w kernel \<Rightarrow> BingerUdp \<Rightarrow> RecvBatchRaw \<Rightarrow> 'w
       \<Rightarrow> (nat io_result \<times> BingerUdp \<times> RecvBatchRaw \<times> 'w) outcome" where
  "try_recv_batch be k u batch w =
     outcome_bind (be_try_recv be k (udp_fd u) batch w) (\<lambda>(r, batch', w').
       case r of
         Inl e \<Rightarrow>
           let u1 = on_metrics inc_recv_errors u;
               u2 = (if kind (k_libc k) e = WouldBlock then on_metrics inc_recv_would_block u1 else u1)
           in Returns (Inl e, u2, batch', w')
       | Inr received \<Rightarrow>
           let u1 = u\<lparr>adaptive_recv := map_option (locked record_event) (adaptive_recv u)\<rparr>;
               u2 = on_metrics (\<lambda>mt. inc_recv_syscalls (inc_batches_received (inc_packets_received (of_nat received) mt))) u1
           in Returns (Inr received, u2, batch', w'))"

section \<open>The asynchronous batch calls\<close>

definition wait_writable :: "build \<Rightarrow> 'w kernel \<Rightarrow> BingerUdp \<Rightarrow> 'w \<Rightarrow> unit io_result \<times> 'w" where
  "wait_writable bld k u w =
     (if has_tokio bld then k_writable k (udp_fd u) w else (Inl (Custom ''tokio feature disabled''), w))"

definition wait_readable :: "build \<Rightarrow> 'w kernel \<Rightarrow> BingerUdp \<Rightarrow> 'w \<Rightarrow> unit io_result \<times> 'w" where
  "wait_readable bld k u w =
     (if has_tokio bld then k_readable k (udp_fd u) w else (Inl (Custom ''tokio feature disabled''), w))"

text \<open>\<^verbatim>\<open>record_would_block\<close> and \<^verbatim>\<open>maybe_adjust\<close> under the lock.\<close>

definition note_blocked ::
    "'w kernel \<Rightarrow> AdaptiveState mutex option \<Rightarrow> 'w \<Rightarrow> AdaptiveState mutex option \<times> 'w" where
  "note_blocked k state w =
     (case state of
        None \<Rightarrow> (None, w)
      | Some mx \<Rightarrow>
          if mx_poisoned mx then (Some mx, w)
          else let (s, w') = maybe_adjust k (record_would_block (mx_value mx)) w
            in (Some (mx\<lparr>mx_value := s\<rparr>), w'))"

definition would_block :: "libc \<Rightarrow> 'a io_result \<Rightarrow> bool" where
  "would_block c r \<longleftrightarrow> (case r of Inl e \<Rightarrow> kind c e = WouldBlock | Inr _ \<Rightarrow> False)"

partial_function (option) send_batch_loop ::
    "'w backend \<Rightarrow> build \<Rightarrow> 'w kernel \<Rightarrow> memory \<Rightarrow> BingerUdp \<Rightarrow> SendBatchRaw \<Rightarrow> 'w
       \<Rightarrow> (nat io_result \<times> BingerUdp \<times> 'w) outcome option" where
  "send_batch_loop be bld k m u batch w =
     (case try_send_batch be k m u batch w of
        Returns (r, u1, w1) \<Rightarrow>
          if would_block (k_libc k) r then
            (let (st, w2) = note_blocked k (adaptive_send u1) w1; u2 = u1\<lparr>adaptive_send := st\<rparr>
             in case wait_writable bld k u2 w2 of
                  (Inl e', w3) \<Rightarrow> Some (Returns (Inl e', u2, w3))
                | (Inr _, w3) \<Rightarrow> send_batch_loop be bld k m u2 batch w3)
          else Some (Returns (r, u1, w1))
      | Panics \<Rightarrow> Some Panics
      | Undefined \<Rightarrow> Some Undefined
      | Diverges \<Rightarrow> None)"

definition send_batch ::
    "'w backend \<Rightarrow> build \<Rightarrow> 'w kernel \<Rightarrow> memory \<Rightarrow> BingerUdp \<Rightarrow> SendBatchRaw \<Rightarrow> 'w
       \<Rightarrow> (nat io_result \<times> BingerUdp \<times> 'w) outcome" where
  "send_batch be bld k m u batch w =
     (case send_batch_loop be bld k m u batch w of None \<Rightarrow> Diverges | Some r \<Rightarrow> r)"

partial_function (option) recv_batch_loop ::
    "'w backend \<Rightarrow> build \<Rightarrow> 'w kernel \<Rightarrow> BingerUdp \<Rightarrow> RecvBatchRaw \<Rightarrow> 'w
       \<Rightarrow> (nat io_result \<times> BingerUdp \<times> RecvBatchRaw \<times> 'w) outcome option" where
  "recv_batch_loop be bld k u batch w =
     (case try_recv_batch be k u batch w of
        Returns (r, u1, b1, w1) \<Rightarrow>
          if r = Inr 0 \<or> would_block (k_libc k) r then
            (let (st, w2) = note_blocked k (adaptive_recv u1) w1; u2 = u1\<lparr>adaptive_recv := st\<rparr>
             in case wait_readable bld k u2 w2 of
                  (Inl e', w3) \<Rightarrow> Some (Returns (Inl e', u2, b1, w3))
                | (Inr _, w3) \<Rightarrow> recv_batch_loop be bld k u2 b1 w3)
          else Some (Returns (r, u1, b1, w1))
      | Panics \<Rightarrow> Some Panics
      | Undefined \<Rightarrow> Some Undefined
      | Diverges \<Rightarrow> None)"

definition recv_batch ::
    "'w backend \<Rightarrow> build \<Rightarrow> 'w kernel \<Rightarrow> BingerUdp \<Rightarrow> RecvBatchRaw \<Rightarrow> 'w
       \<Rightarrow> (nat io_result \<times> BingerUdp \<times> RecvBatchRaw \<times> 'w) outcome" where
  "recv_batch be bld k u batch w =
     (case recv_batch_loop be bld k u batch w of None \<Rightarrow> Diverges | Some r \<Rightarrow> r)"

section \<open>Single packets\<close>

text \<open>\<^verbatim>\<open>.expect("capacity 1")\<close> panics on an error.\<close>

definition one_packet :: "(nat \<Rightarrow> nat) \<Rightarrow> slice \<Rightarrow> SocketAddr \<Rightarrow> SendBatchRaw outcome" where
  "one_packet vec_alloc buf addr =
     (case SendBatchRaw_push (SendBatchRaw_with_capacity vec_alloc 1) buf (Some addr) of
        (Inl _, _) \<Rightarrow> Panics
      | (Inr _, batch) \<Rightarrow> Returns batch)"

text \<open>\<^verbatim>\<open>r?; Ok(buf.len())\<close>.\<close>

definition sent_all :: "slice \<Rightarrow> nat io_result \<Rightarrow> nat io_result" where
  "sent_all buf r = (case r of Inl e \<Rightarrow> Inl e | Inr _ \<Rightarrow> Inr (slice_len buf))"

definition send_to ::
    "'w backend \<Rightarrow> build \<Rightarrow> 'w kernel \<Rightarrow> (nat \<Rightarrow> nat) \<Rightarrow> memory \<Rightarrow> BingerUdp \<Rightarrow> slice \<Rightarrow> SocketAddr \<Rightarrow> 'w
       \<Rightarrow> (nat io_result \<times> BingerUdp \<times> 'w) outcome" where
  "send_to be bld k vec_alloc m u buf addr w =
     outcome_bind (one_packet vec_alloc buf addr) (\<lambda>batch.
       outcome_bind (send_batch be bld k m u batch w) (\<lambda>(r, u', w'). Returns (sent_all buf r, u', w')))"

definition try_send_to ::
    "'w backend \<Rightarrow> 'w kernel \<Rightarrow> (nat \<Rightarrow> nat) \<Rightarrow> memory \<Rightarrow> BingerUdp \<Rightarrow> slice \<Rightarrow> SocketAddr \<Rightarrow> 'w
       \<Rightarrow> (nat io_result \<times> BingerUdp \<times> 'w) outcome" where
  "try_send_to be k vec_alloc m u buf addr w =
     outcome_bind (one_packet vec_alloc buf addr) (\<lambda>batch.
       outcome_bind (try_send_batch be k m u batch w) (\<lambda>(r, u', w'). Returns (sent_all buf r, u', w')))"

text \<open>The caller's buffer comes back with the received bytes at its start.\<close>

definition recv_from ::
    "'w backend \<Rightarrow> build \<Rightarrow> 'w kernel \<Rightarrow> BingerUdp \<Rightarrow> bytes \<Rightarrow> 'w
       \<Rightarrow> ((nat \<times> SocketAddr) io_result \<times> bytes \<times> BingerUdp \<times> 'w) outcome" where
  "recv_from be bld k u buf w =
     outcome_bind (recv_batch be bld k u (RecvBatchRaw_with_capacity 1 (length buf)) w) (\<lambda>(r, u', batch, w').
       case r of
         Inl e \<Rightarrow> Returns (Inl e, buf, u', w')
       | Inr _ \<Rightarrow>
           outcome_bind (RecvBatchRaw_data batch 0) (\<lambda>data.
             outcome_bind (RecvBatchRaw_addr batch 0) (\<lambda>addr.
               let len = min (length data) (length buf)
               in Returns (Inr (len, addr), put_bytes buf 0 (take len data), u', w'))))"

section \<open>Addresses and socket options\<close>

definition connect :: "'w kernel \<Rightarrow> BingerUdp \<Rightarrow> SocketAddr \<Rightarrow> 'w \<Rightarrow> unit io_result \<times> 'w" where
  "connect k u addr w = raw_connect k (udp_fd u) addr w"

definition local_addr :: "'w kernel \<Rightarrow> BingerUdp \<Rightarrow> 'w \<Rightarrow> SocketAddr io_result \<times> 'w" where
  "local_addr k u w = raw_getsockname k (udp_fd u) w"

text \<open>\<^verbatim>\<open>v as u32\<close> keeps the bits.\<close>

definition ttl :: "'w kernel \<Rightarrow> BingerUdp \<Rightarrow> 'w \<Rightarrow> u32 io_result \<times> 'w" where
  "ttl k u w = raw_getsockopt k (udp_fd u) (IPPROTO_IP (k_libc k)) (IP_TTL (k_libc k)) w"

definition set_ttl :: "'w kernel \<Rightarrow> BingerUdp \<Rightarrow> u32 \<Rightarrow> 'w \<Rightarrow> unit io_result \<times> 'w" where
  "set_ttl k u v w = raw_setsockopt k (udp_fd u) (IPPROTO_IP (k_libc k)) (IP_TTL (k_libc k)) v w"

definition as_raw_fd :: "BingerUdp \<Rightarrow> fd" where
  "as_raw_fd u = udp_fd u"

definition set_gso :: "'w kernel \<Rightarrow> BingerUdp \<Rightarrow> bool \<Rightarrow> 'w \<Rightarrow> unit io_result \<times> 'w" where
  "set_gso k u enabled w =
     raw_setsockopt k (udp_fd u) (IPPROTO_UDP (k_libc k)) (UDP_SEGMENT (k_libc k)) (of_bool enabled) w"

definition set_gro :: "'w kernel \<Rightarrow> BingerUdp \<Rightarrow> bool \<Rightarrow> 'w \<Rightarrow> unit io_result \<times> 'w" where
  "set_gro k u enabled w =
     raw_setsockopt k (udp_fd u) (IPPROTO_UDP (k_libc k)) (UDP_GRO (k_libc k)) (of_bool enabled) w"

definition set_pacing_rate :: "'w kernel \<Rightarrow> BingerUdp \<Rightarrow> u32 \<Rightarrow> 'w \<Rightarrow> unit io_result \<times> 'w" where
  "set_pacing_rate k u bytes_per_sec w =
     raw_setsockopt_u32 k (udp_fd u) (SOL_SOCKET (k_libc k)) SO_MAX_PACING_RATE bytes_per_sec w"

definition set_busy_poll :: "'w kernel \<Rightarrow> BingerUdp \<Rightarrow> u32 \<Rightarrow> 'w \<Rightarrow> unit io_result \<times> 'w" where
  "set_busy_poll k u usecs w =
     raw_setsockopt k (udp_fd u) (SOL_SOCKET (k_libc k)) SO_BUSY_POLL usecs w"

definition enable_timestamping :: "'w kernel \<Rightarrow> BingerUdp \<Rightarrow> bool \<Rightarrow> 'w \<Rightarrow> unit io_result \<times> 'w" where
  "enable_timestamping k u enabled w =
     raw_setsockopt k (udp_fd u) (SOL_SOCKET (k_libc k)) (SO_TIMESTAMPNS (k_libc k)) (of_bool enabled) w"

definition enable_pktinfo :: "'w kernel \<Rightarrow> BingerUdp \<Rightarrow> bool \<Rightarrow> 'w \<Rightarrow> unit io_result \<times> 'w" where
  "enable_pktinfo k u enabled w =
     (case raw_setsockopt k (udp_fd u) (IPPROTO_IP (k_libc k)) (IP_PKTINFO (k_libc k)) (of_bool enabled) w of
        (Inl e, w1) \<Rightarrow> (Inl e, w1)
      | (Inr _, w1) \<Rightarrow>
          raw_setsockopt k (udp_fd u) (IPPROTO_IPV6 (k_libc k)) (IPV6_RECVPKTINFO (k_libc k)) (of_bool enabled) w1)"

section \<open>GSO\<close>

definition udp_try_send_gso :: "'w kernel \<Rightarrow> BingerUdp \<Rightarrow> bytes \<Rightarrow> u16 \<Rightarrow> 'w \<Rightarrow> nat io_result \<times> 'w" where
  "udp_try_send_gso k u data segment_size w = try_send_gso k (udp_fd u) data segment_size w"

partial_function (option) send_gso_loop ::
    "build \<Rightarrow> 'w kernel \<Rightarrow> BingerUdp \<Rightarrow> bytes \<Rightarrow> u16 \<Rightarrow> 'w \<Rightarrow> (nat io_result \<times> 'w) option" where
  "send_gso_loop bld k u data segment_size w =
     (let (r, w1) = udp_try_send_gso k u data segment_size w in
      if would_block (k_libc k) r then
        (case wait_writable bld k u w1 of
           (Inl e', w2) \<Rightarrow> Some (Inl e', w2)
         | (Inr _, w2) \<Rightarrow> send_gso_loop bld k u data segment_size w2)
      else Some (r, w1))"

definition send_gso :: "build \<Rightarrow> 'w kernel \<Rightarrow> BingerUdp \<Rightarrow> bytes \<Rightarrow> u16 \<Rightarrow> 'w \<Rightarrow> (nat io_result \<times> 'w) outcome" where
  "send_gso bld k u data segment_size w = option_outcome (send_gso_loop bld k u data segment_size w)"

section \<open>Queries and drop\<close>

definition capabilities :: "build \<Rightarrow> BingerUdp \<Rightarrow> PlatformCaps" where
  "capabilities bld u = platform_capabilities bld"

definition recommended_batch_size :: "BingerUdp \<Rightarrow> nat" where
  "recommended_batch_size u =
     (case adaptive_send u of
        None \<Rightarrow> 32
      | Some mx \<Rightarrow> if mx_poisoned mx then 32 else recommended_size (mx_value mx))"

definition metrics :: "BingerUdp \<Rightarrow> BingerMetrics option" where
  "metrics u = udp_metrics u"

definition readable :: "'w kernel \<Rightarrow> BingerUdp \<Rightarrow> 'w \<Rightarrow> unit io_result \<times> 'w" where
  "readable k u w = k_readable k (udp_fd u) w"

definition writable :: "'w kernel \<Rightarrow> BingerUdp \<Rightarrow> 'w \<Rightarrow> unit io_result \<times> 'w" where
  "writable k u w = k_writable k (udp_fd u) w"

text \<open>Without Tokio the wrapper closes the descriptor itself; with Tokio, dropping the field
  \<^verbatim>\<open>tokio_sock\<close> does.\<close>

definition BingerUdp_drop :: "build \<Rightarrow> 'w kernel \<Rightarrow> BingerUdp \<Rightarrow> 'w \<Rightarrow> 'w" where
  "BingerUdp_drop bld k u w = (if has_tokio bld then k_close k (udp_fd u) w else close_fd k (udp_fd u) w)"

end
