(* ===== verification/Socket_Runs.thy ===== *)
theory Socket_Runs
  imports Socket
begin

text \<open>
  What the methods of \<^verbatim>\<open>BingerUdp\<close> do, whatever the backend. The retry loops of \<^verbatim>\<open>send_batch\<close>
  and \<^verbatim>\<open>recv_batch\<close> are characterised by step relations: \<open>send_waits\<close> and \<open>recv_waits\<close> are one
  blocked attempt followed by a wait that succeeded, \<open>send_stops\<close> and \<open>recv_stops\<close> the ways a
  loop ends. The locale \<open>udp_backend\<close> states what the socket needs from a platform, and its
  lemmas are proved once for all backends.
\<close>

section \<open>One call through the wrapper\<close>

lemma try_send_batch_Returns:
  assumes "try_send_batch be k m u b w = Returns (r, u', w')"
  shows "be_try_send be k (udp_fd u) m b w = Returns (r, w')" and "udp_fd u' = udp_fd u"
  using assms unfolding try_send_batch_def
  by (auto elim!: outcome_bind_ReturnsE simp: on_metrics_def Let_def split: sum.split_asm if_split_asm)

lemma try_send_batch_run:
  assumes "be_try_send be k (udp_fd u) m b w = Returns (r, w')"
  shows "\<exists>u'. try_send_batch be k m u b w = Returns (r, u', w')"
  using assms by (auto simp: try_send_batch_def Let_def split: sum.splits)

lemma try_recv_batch_Returns:
  assumes "try_recv_batch be k u b w = Returns (r, u', b', w')"
  shows "be_try_recv be k (udp_fd u) b w = Returns (r, b', w')" and "udp_fd u' = udp_fd u"
  using assms unfolding try_recv_batch_def
  by (auto elim!: outcome_bind_ReturnsE simp: on_metrics_def Let_def split: sum.split_asm if_split_asm)

lemma try_recv_batch_run:
  assumes "be_try_recv be k (udp_fd u) b w = Returns (r, b', w')"
  shows "\<exists>u'. try_recv_batch be k u b w = Returns (r, u', b', w')"
  using assms by (auto simp: try_recv_batch_def Let_def split: sum.splits)

lemma would_blockE:
  assumes "would_block c r"
  obtains e where "r = Inl e" and "kind c e = WouldBlock"
  using assms by (auto simp: would_block_def split: sum.splits)

lemma would_block_simps [simp]:
  "\<not> would_block c (Inr x)" "would_block c (Inl e) \<longleftrightarrow> kind c e = WouldBlock"
  by (simp_all add: would_block_def)

section \<open>The send loop as steps\<close>

inductive send_waits ::
    "'w backend \<Rightarrow> build \<Rightarrow> 'w kernel \<Rightarrow> memory \<Rightarrow> SendBatchRaw \<Rightarrow> BingerUdp \<times> 'w \<Rightarrow> BingerUdp \<times> 'w \<Rightarrow> bool"
  for be bld k m b where
  wait: "try_send_batch be k m u b w = Returns (r, u1, w1) \<Longrightarrow> would_block (k_libc k) r \<Longrightarrow>
    note_blocked k (adaptive_send u1) w1 = (st, w2) \<Longrightarrow>
    wait_writable bld k (u1\<lparr>adaptive_send := st\<rparr>) w2 = (Inr (), w3) \<Longrightarrow>
    send_waits be bld k m b (u, w) (u1\<lparr>adaptive_send := st\<rparr>, w3)"

inductive send_stops ::
    "'w backend \<Rightarrow> build \<Rightarrow> 'w kernel \<Rightarrow> memory \<Rightarrow> SendBatchRaw \<Rightarrow> BingerUdp \<times> 'w
       \<Rightarrow> (nat io_result \<times> BingerUdp \<times> 'w) outcome \<Rightarrow> bool"
  for be bld k m b where
  answer: "try_send_batch be k m u b w = Returns (r, u1, w1) \<Longrightarrow> \<not> would_block (k_libc k) r \<Longrightarrow>
    send_stops be bld k m b (u, w) (Returns (r, u1, w1))"
| failed: "try_send_batch be k m u b w = Returns (r, u1, w1) \<Longrightarrow> would_block (k_libc k) r \<Longrightarrow>
    note_blocked k (adaptive_send u1) w1 = (st, w2) \<Longrightarrow>
    wait_writable bld k (u1\<lparr>adaptive_send := st\<rparr>) w2 = (Inl e, w3) \<Longrightarrow>
    send_stops be bld k m b (u, w) (Returns (Inl e, u1\<lparr>adaptive_send := st\<rparr>, w3))"
| crash: "try_send_batch be k m u b w = r \<Longrightarrow> r = Panics \<or> r = Undefined \<Longrightarrow>
    send_stops be bld k m b (u, w) r"

inductive_cases send_waitsE: "send_waits be bld k m b (u, w) s"
inductive_cases send_stopsE: "send_stops be bld k m b (u, w) r"

lemma send_loop_sound:
  "send_batch_loop be bld k m u b w = Some r \<Longrightarrow>
     \<exists>s. (send_waits be bld k m b)\<^sup>*\<^sup>* (u, w) s \<and> send_stops be bld k m b s r"
proof (erule send_batch_loop.raw_induct [where P = "\<lambda>be bld k m u b w r.
    \<exists>s. (send_waits be bld k m b)\<^sup>*\<^sup>* (u, w) s \<and> send_stops be bld k m b s r", rotated])
  fix g be bld k m u b w r
  assume ih: "\<And>be bld k m u b w r. g be bld k m u b w = Some r \<Longrightarrow>
      \<exists>s. (send_waits be bld k m b)\<^sup>*\<^sup>* (u, w) s \<and> send_stops be bld k m b s r"
    and g: "(case try_send_batch be k m u b w of
        Returns (r, u1, w1) \<Rightarrow>
          if would_block (k_libc k) r then
            (let (st, w2) = note_blocked k (adaptive_send u1) w1; u2 = u1\<lparr>adaptive_send := st\<rparr>
             in case wait_writable bld k u2 w2 of
                  (Inl e', w3) \<Rightarrow> Some (Returns (Inl e', u2, w3))
                | (Inr _, w3) \<Rightarrow> g be bld k m u2 b w3)
          else Some (Returns (r, u1, w1))
      | Panics \<Rightarrow> Some Panics
      | Undefined \<Rightarrow> Some Undefined
      | Diverges \<Rightarrow> None) = Some r"
  show "\<exists>s. (send_waits be bld k m b)\<^sup>*\<^sup>* (u, w) s \<and> send_stops be bld k m b s r"
  proof (cases "try_send_batch be k m u b w")
    case (Returns x)
    obtain r1 u1 w1 where t: "try_send_batch be k m u b w = Returns (r1, u1, w1)"
      using Returns by (cases x) auto
    obtain st w2 where nb: "note_blocked k (adaptive_send u1) w1 = (st, w2)" by (metis surj_pair)
    obtain v w3 where wt: "wait_writable bld k (u1\<lparr>adaptive_send := st\<rparr>) w2 = (v, w3)" by (metis surj_pair)
    show ?thesis
    proof (cases "would_block (k_libc k) r1")
      case False
      with g t show ?thesis by (auto intro: answer)
    next
      case blocked: True
      show ?thesis
      proof (cases v)
        case (Inl e)
        with g t nb wt blocked have "r = Returns (Inl e, u1\<lparr>adaptive_send := st\<rparr>, w3)" by (simp add: Let_def)
        with failed [OF t blocked nb] wt Inl show ?thesis by blast
      next
        case (Inr x)
        with g t nb wt blocked have "g be bld k m (u1\<lparr>adaptive_send := st\<rparr>) b w3 = Some r"
          by (simp add: Let_def)
        from ih [OF this] wait [OF t blocked nb] wt Inr show ?thesis
          by (metis converse_rtranclp_into_rtranclp unit.exhaust)
      qed
    qed
  qed (use g in \<open>auto intro: crash\<close>)
qed

lemma send_loop_stops: "send_stops be bld k m b s r \<Longrightarrow> send_batch_loop be bld k m (fst s) b (snd s) = Some r"
  by (erule send_stops.cases) (auto simp: send_batch_loop.simps Let_def)

lemma send_loop_waits:
  "send_waits be bld k m b s s' \<Longrightarrow>
     send_batch_loop be bld k m (fst s) b (snd s) = send_batch_loop be bld k m (fst s') b (snd s')"
  by (erule send_waits.cases) (subst send_batch_loop.simps, simp add: Let_def)

lemma send_loop_iff:
  "send_batch_loop be bld k m u b w = Some r \<longleftrightarrow>
     (\<exists>s. (send_waits be bld k m b)\<^sup>*\<^sup>* (u, w) s \<and> send_stops be bld k m b s r)"
proof
  assume "\<exists>s. (send_waits be bld k m b)\<^sup>*\<^sup>* (u, w) s \<and> send_stops be bld k m b s r"
  then obtain s where "(send_waits be bld k m b)\<^sup>*\<^sup>* (u, w) s" and stop: "send_stops be bld k m b s r" by blast
  then have "send_batch_loop be bld k m (fst (u, w)) b (snd (u, w)) = Some r"
    by (induction rule: converse_rtranclp_induct) (simp_all add: send_loop_stops send_loop_waits)
  then show "send_batch_loop be bld k m u b w = Some r" by simp
qed (rule send_loop_sound)

lemma send_stops_not_Diverges: "\<not> send_stops be bld k m b s Diverges"
  by (auto elim: send_stops.cases)

lemma send_batch_Returns_iff:
  "send_batch be bld k m u b w = Returns x \<longleftrightarrow>
     (\<exists>s. (send_waits be bld k m b)\<^sup>*\<^sup>* (u, w) s \<and> send_stops be bld k m b s (Returns x))"
  unfolding send_loop_iff [symmetric] by (auto simp: send_batch_def split: option.splits)

lemma send_batch_Diverges_iff:
  "send_batch be bld k m u b w = Diverges \<longleftrightarrow>
     (\<nexists>s r. (send_waits be bld k m b)\<^sup>*\<^sup>* (u, w) s \<and> send_stops be bld k m b s r)"
proof -
  have ex: "(\<exists>s r. (send_waits be bld k m b)\<^sup>*\<^sup>* (u, w) s \<and> send_stops be bld k m b s r) \<longleftrightarrow>
      (\<exists>r. send_batch_loop be bld k m u b w = Some r)"
    unfolding send_loop_iff by blast
  have "send_batch_loop be bld k m u b w \<noteq> Some Diverges"
    unfolding send_loop_iff by (simp add: send_stops_not_Diverges)
  then have "send_batch be bld k m u b w = Diverges \<longleftrightarrow> (\<nexists>r. send_batch_loop be bld k m u b w = Some r)"
    by (cases "send_batch_loop be bld k m u b w") (simp_all add: send_batch_def)
  then show ?thesis unfolding ex .
qed

section \<open>The receive loop as steps\<close>

definition recv_blocked :: "libc \<Rightarrow> nat io_result \<Rightarrow> bool" where
  "recv_blocked c r \<longleftrightarrow> r = Inr 0 \<or> would_block c r"

inductive recv_waits ::
    "'w backend \<Rightarrow> build \<Rightarrow> 'w kernel \<Rightarrow> BingerUdp \<times> RecvBatchRaw \<times> 'w \<Rightarrow> BingerUdp \<times> RecvBatchRaw \<times> 'w \<Rightarrow> bool"
  for be bld k where
  wait: "try_recv_batch be k u b w = Returns (r, u1, b1, w1) \<Longrightarrow> recv_blocked (k_libc k) r \<Longrightarrow>
    note_blocked k (adaptive_recv u1) w1 = (st, w2) \<Longrightarrow>
    wait_readable bld k (u1\<lparr>adaptive_recv := st\<rparr>) w2 = (Inr (), w3) \<Longrightarrow>
    recv_waits be bld k (u, b, w) (u1\<lparr>adaptive_recv := st\<rparr>, b1, w3)"

inductive recv_stops ::
    "'w backend \<Rightarrow> build \<Rightarrow> 'w kernel \<Rightarrow> BingerUdp \<times> RecvBatchRaw \<times> 'w
       \<Rightarrow> (nat io_result \<times> BingerUdp \<times> RecvBatchRaw \<times> 'w) outcome \<Rightarrow> bool"
  for be bld k where
  answer: "try_recv_batch be k u b w = Returns (r, u1, b1, w1) \<Longrightarrow> \<not> recv_blocked (k_libc k) r \<Longrightarrow>
    recv_stops be bld k (u, b, w) (Returns (r, u1, b1, w1))"
| failed: "try_recv_batch be k u b w = Returns (r, u1, b1, w1) \<Longrightarrow> recv_blocked (k_libc k) r \<Longrightarrow>
    note_blocked k (adaptive_recv u1) w1 = (st, w2) \<Longrightarrow>
    wait_readable bld k (u1\<lparr>adaptive_recv := st\<rparr>) w2 = (Inl e, w3) \<Longrightarrow>
    recv_stops be bld k (u, b, w) (Returns (Inl e, u1\<lparr>adaptive_recv := st\<rparr>, b1, w3))"
| crash: "try_recv_batch be k u b w = r \<Longrightarrow> r = Panics \<or> r = Undefined \<Longrightarrow>
    recv_stops be bld k (u, b, w) r"

inductive_cases recv_waitsE: "recv_waits be bld k (u, b, w) s"
inductive_cases recv_stopsE: "recv_stops be bld k (u, b, w) r"

lemma recv_loop_sound:
  "recv_batch_loop be bld k u b w = Some r \<Longrightarrow>
     \<exists>s. (recv_waits be bld k)\<^sup>*\<^sup>* (u, b, w) s \<and> recv_stops be bld k s r"
proof (erule recv_batch_loop.raw_induct [where P = "\<lambda>be bld k u b w r.
    \<exists>s. (recv_waits be bld k)\<^sup>*\<^sup>* (u, b, w) s \<and> recv_stops be bld k s r", rotated])
  fix g be bld k u b w r
  assume ih: "\<And>be bld k u b w r. g be bld k u b w = Some r \<Longrightarrow>
      \<exists>s. (recv_waits be bld k)\<^sup>*\<^sup>* (u, b, w) s \<and> recv_stops be bld k s r"
    and g: "(case try_recv_batch be k u b w of
        Returns (r, u1, b1, w1) \<Rightarrow>
          if r = Inr 0 \<or> would_block (k_libc k) r then
            (let (st, w2) = note_blocked k (adaptive_recv u1) w1; u2 = u1\<lparr>adaptive_recv := st\<rparr>
             in case wait_readable bld k u2 w2 of
                  (Inl e', w3) \<Rightarrow> Some (Returns (Inl e', u2, b1, w3))
                | (Inr _, w3) \<Rightarrow> g be bld k u2 b1 w3)
          else Some (Returns (r, u1, b1, w1))
      | Panics \<Rightarrow> Some Panics
      | Undefined \<Rightarrow> Some Undefined
      | Diverges \<Rightarrow> None) = Some r"
  show "\<exists>s. (recv_waits be bld k)\<^sup>*\<^sup>* (u, b, w) s \<and> recv_stops be bld k s r"
  proof (cases "try_recv_batch be k u b w")
    case (Returns x)
    obtain r1 u1 b1 w1 where t: "try_recv_batch be k u b w = Returns (r1, u1, b1, w1)"
      using Returns by (cases x) auto
    obtain st w2 where nb: "note_blocked k (adaptive_recv u1) w1 = (st, w2)" by (metis surj_pair)
    obtain v w3 where wt: "wait_readable bld k (u1\<lparr>adaptive_recv := st\<rparr>) w2 = (v, w3)" by (metis surj_pair)
    show ?thesis
    proof (cases "recv_blocked (k_libc k) r1")
      case False
      with g t have "r = Returns (r1, u1, b1, w1)" by (auto simp: recv_blocked_def)
      with answer [OF t False] show ?thesis by blast
    next
      case blocked: True
      show ?thesis
      proof (cases v)
        case (Inl e)
        with g t nb wt blocked have "r = Returns (Inl e, u1\<lparr>adaptive_recv := st\<rparr>, b1, w3)"
          by (simp add: Let_def recv_blocked_def)
        with failed [OF t blocked nb] wt Inl show ?thesis by blast
      next
        case (Inr x)
        with g t nb wt blocked have "g be bld k (u1\<lparr>adaptive_recv := st\<rparr>) b1 w3 = Some r"
          by (simp add: Let_def recv_blocked_def)
        from ih [OF this] wait [OF t blocked nb] wt Inr show ?thesis
          by (metis converse_rtranclp_into_rtranclp unit.exhaust)
      qed
    qed
  qed (use g in \<open>auto intro: crash\<close>)
qed

lemma recv_loop_stops:
  "recv_stops be bld k (u, b, w) r \<Longrightarrow> recv_batch_loop be bld k u b w = Some r"
  by (erule recv_stopsE) (auto simp: recv_batch_loop.simps Let_def recv_blocked_def)

lemma recv_loop_waits:
  "recv_waits be bld k (u, b, w) (u', b', w') \<Longrightarrow>
     recv_batch_loop be bld k u b w = recv_batch_loop be bld k u' b' w'"
  by (erule recv_waitsE) (subst recv_batch_loop.simps, simp add: Let_def recv_blocked_def)

lemma recv_loop_iff:
  "recv_batch_loop be bld k u b w = Some r \<longleftrightarrow>
     (\<exists>s. (recv_waits be bld k)\<^sup>*\<^sup>* (u, b, w) s \<and> recv_stops be bld k s r)"
proof
  assume "\<exists>s. (recv_waits be bld k)\<^sup>*\<^sup>* (u, b, w) s \<and> recv_stops be bld k s r"
  then obtain s where "(recv_waits be bld k)\<^sup>*\<^sup>* (u, b, w) s" and stop: "recv_stops be bld k s r" by blast
  then have "case (u, b, w) of (u, b, w) \<Rightarrow> recv_batch_loop be bld k u b w = Some r"
    by (induction rule: converse_rtranclp_induct)
       (auto simp: recv_loop_stops recv_loop_waits split: prod.splits)
  then show "recv_batch_loop be bld k u b w = Some r" by simp
qed (rule recv_loop_sound)

lemma recv_batch_Returns_iff:
  "recv_batch be bld k u b w = Returns x \<longleftrightarrow>
     (\<exists>s. (recv_waits be bld k)\<^sup>*\<^sup>* (u, b, w) s \<and> recv_stops be bld k s (Returns x))"
  unfolding recv_loop_iff [symmetric] by (auto simp: recv_batch_def split: option.splits)


section \<open>What waiting leaves alone\<close>

text \<open>Waiting for writability and reading the clock send nothing.\<close>

definition quiet_contract :: "'w kernel \<Rightarrow> ('w \<Rightarrow> tx_msg list) \<Rightarrow> bool" where
  "quiet_contract k txlog \<longleftrightarrow>
     (\<forall>fd w. txlog (snd (k_writable k fd w)) = txlog w) \<and> (\<forall>w. txlog (snd (k_now k w)) = txlog w)"

lemma loopback_quiet: "quiet_contract (loopback c) w_sent"
  by (simp add: quiet_contract_def loopback_def)

lemma maybe_adjust_quiet:
  assumes "quiet_contract k txlog" and "maybe_adjust k s w = (s', w')"
  shows "txlog w' = txlog w"
proof -
  have "txlog w2 = txlog w1" if "k_now k w1 = (t, w2)" for t w1 w2
    using assms(1) that unfolding quiet_contract_def by (metis snd_conv)
  with assms(2) show ?thesis
    by (auto simp: maybe_adjust_def Let_def split: prod.splits if_splits)
qed

lemma note_blocked_quiet:
  assumes "quiet_contract k txlog" and "note_blocked k st w = (st', w')"
  shows "txlog w' = txlog w"
  using assms(2) maybe_adjust_quiet [OF assms(1)]
  by (auto simp: note_blocked_def Let_def split: option.splits if_splits prod.splits)

lemma wait_writable_quiet:
  assumes "quiet_contract k txlog" and "wait_writable bld k u w = (r, w')"
  shows "txlog w' = txlog w"
proof -
  have "txlog w2 = txlog w1" if "k_writable k fd w1 = (t, w2)" for fd t w1 w2
    using assms(1) that unfolding quiet_contract_def by (metis snd_conv)
  with assms(2) show ?thesis by (auto simp: wait_writable_def split: if_splits)
qed

lemmas quiet_steps = note_blocked_quiet wait_writable_quiet

text \<open>
  Progress of the environment, measured by a number that cannot fall for ever. \<open>wakes\<close>: the
  spurious wake-ups that Tokio's \<^verbatim>\<open>readable()\<close> may still make before a datagram is there.
  \<open>stalls\<close>: the times the socket may still refuse a send after \<^verbatim>\<open>writable()\<close>.
\<close>

definition ready_contract :: "'w kernel \<Rightarrow> ('w \<Rightarrow> (bytes \<times> SocketAddr) list) \<Rightarrow> ('w \<Rightarrow> nat) \<Rightarrow> bool" where
  "ready_contract k rxq wakes \<longleftrightarrow>
     (\<forall>fd w r w'. k_readable k fd w = (r, w') \<longrightarrow> r = Inr () \<and> (rxq w' \<noteq> [] \<or> wakes w' < wakes w)) \<and>
     (\<forall>w. wakes (snd (k_now k w)) \<le> wakes w)"

definition drain_contract :: "'w kernel \<Rightarrow> ('w \<Rightarrow> nat) \<Rightarrow> bool" where
  "drain_contract k stalls \<longleftrightarrow>
     (\<forall>fd w r w'. k_writable k fd w = (r, w') \<longrightarrow> r = Inr () \<and> stalls w' \<le> stalls w) \<and>
     (\<forall>w. stalls (snd (k_now k w)) \<le> stalls w)"

lemma note_blocked_mono:
  assumes "\<forall>w. wakes (snd (k_now k w)) \<le> (wakes w :: nat)" and "note_blocked k st w = (st', w')"
  shows "wakes w' \<le> wakes w"
proof -
  have now: "wakes w2 \<le> wakes w1" if "k_now k w1 = (t, w2)" for t w1 w2
    using assms(1) that by (metis snd_conv)
  have "wakes w2 \<le> wakes w1" if m: "maybe_adjust k s w1 = (s', w2)" for s s' w1 w2
  proof -
    obtain t1 wa where a: "k_now k w1 = (t1, wa)" by (metis surj_pair)
    obtain t2 wb where b: "k_now k wa = (t2, wb)" by (metis surj_pair)
    have "w2 = wa \<or> w2 = wb" using m a b by (auto simp: maybe_adjust_def Let_def split: if_splits)
    with now [OF a] now [OF b] show ?thesis by auto
  qed
  with assms(2) show ?thesis
    by (auto simp: note_blocked_def Let_def split: option.splits if_splits prod.splits)
qed

section \<open>What the socket needs from a platform\<close>

locale udp_backend =
  send: prefix_backend "be_try_send be" tx_ok sendable tx_contract + recv: recv_backend "be_try_recv be" rx_ok
  for be :: "'w backend" and tx_ok sendable tx_contract rx_ok
begin

text \<open>A blocked attempt has sent nothing, so the loop starts again with the same log.\<close>

lemma send_waits_log:
  assumes "tx_contract k txlog" and "quiet_contract k txlog"
    and "sb_inv b" and "sb_readable m b" and "sendable b"
    and "send_waits be bld k m b s s'"
  shows "txlog (snd s') = txlog (snd s)"
  using assms(6)
proof cases
  case (wait u w r u1 w1 st w2 w3)
  from wait(4) obtain e where e: "r = Inl e" "kind (k_libc k) e = WouldBlock" by (rule would_blockE)
  from send.blocked_sends_nothing(1) [OF assms(1,3-5) _ e(2)] try_send_batch_Returns(1) [OF wait(3)] e(1)
  have "txlog w1 = txlog w" by blast
  with quiet_steps [OF assms(2)] wait show ?thesis by (metis snd_conv)
qed

lemma send_waits_log_star:
  assumes "tx_contract k txlog" and "quiet_contract k txlog"
    and "sb_inv b" and "sb_readable m b" and "sendable b"
    and "(send_waits be bld k m b)\<^sup>*\<^sup>* s s'"
  shows "txlog (snd s') = txlog (snd s)"
  using assms(6) by (induction rule: rtranclp_induct) (simp_all add: send_waits_log [OF assms(1-5)])

lemma send_batch_log:
  assumes "tx_contract k txlog" and "quiet_contract k txlog"
    and "sb_inv b" and "sb_readable m b" and "sendable b"
    and "send_batch be bld k m u b w = Returns (r, u', w')"
  shows "\<exists>n is_conn. n \<le> SendBatchRaw_len b \<and>
     txlog w' = txlog w @ take n (map (strip_name is_conn) (datagrams (k_libc k) m b)) \<and>
     (r = Inr n \<or> (\<exists>e. r = Inl e \<and> n < SendBatchRaw_len b))"
proof -
  from assms(6) obtain s where s: "(send_waits be bld k m b)\<^sup>*\<^sup>* (u, w) s"
    and stop: "send_stops be bld k m b s (Returns (r, u', w'))"
    by (auto simp: send_batch_Returns_iff)
  from send_waits_log_star [OF assms(1-5) s] have lg: "txlog (snd s) = txlog w" by simp
  from stop show ?thesis
  proof cases
    case (answer u1 w1)
    from send.prefix_result [OF assms(1,3-5) try_send_batch_Returns(1) [OF answer(2)]] answer(1) lg
    show ?thesis by fastforce
  next
    case (failed u1 w1 r1 u2 w2 st w3 e)
    with lg have w1: "txlog w1 = txlog w" by simp
    from failed(5) obtain e' where e: "r1 = Inl e'" "kind (k_libc k) e' = WouldBlock" by (rule would_blockE)
    from send.blocked_sends_nothing [OF assms(1,3-5) _ e(2)] try_send_batch_Returns(1) [OF failed(4)] e(1)
    have "txlog w2 = txlog w1" "0 < SendBatchRaw_len b" by blast+
    with w1 quiet_steps [OF assms(2)] failed have "txlog w' = txlog w" by metis
    with failed(2) \<open>0 < SendBatchRaw_len b\<close> show ?thesis by (intro exI [of _ 0]) simp
  qed simp
qed

text \<open>A batch whose buffers are alive never makes the loop panic.\<close>

lemma send_batch_safe:
  assumes "tx_ok k" and "sb_inv b" and "sb_readable m b"
  shows "send_batch be bld k m u b w \<noteq> Panics \<and> send_batch be bld k m u b w \<noteq> Undefined"
proof -
  have "\<exists>r u' w'. try_send_batch be k m u1 b w1 = Returns (r, u', w')" for u1 w1
    using send.returns [OF assms, of "udp_fd u1" w1] try_send_batch_run [of be k u1 m b w1] by blast
  then have "\<not> send_stops be bld k m b s r" if "r = Panics \<or> r = Undefined" for s r
    using that by (auto elim!: send_stops.cases) (metis outcome.distinct)+
  then have "send_batch_loop be bld k m u b w \<noteq> Some r" if "r = Panics \<or> r = Undefined" for r
    unfolding send_loop_iff using that by blast
  then show ?thesis by (auto simp: send_batch_def split: option.splits)
qed

lemma recv_waits_inv:
  assumes "rx_ok k" and "recv_waits be bld k (u, b, w) (u', b', w')" and "rb_inv n b"
  shows "rb_inv n b' \<and> RecvBatchRaw_capacity b' = RecvBatchRaw_capacity b"
proof -
  from assms(2) obtain r u1 w1 where "try_recv_batch be k u b w = Returns (r, u1, b', w1)"
    by (auto elim: recv_waitsE)
  from recv.keeps_inv [OF assms(1,3) try_recv_batch_Returns(1) [OF this]] show ?thesis .
qed

lemma recv_waits_inv_star:
  assumes "rx_ok k" and "(recv_waits be bld k)\<^sup>*\<^sup>* (u, b, w) (u', b', w')" and "rb_inv n b"
  shows "rb_inv n b' \<and> RecvBatchRaw_capacity b' = RecvBatchRaw_capacity b"
proof -
  have "(recv_waits be bld k)\<^sup>*\<^sup>* s s' \<Longrightarrow> rb_inv n (fst (snd s)) \<Longrightarrow>
      rb_inv n (fst (snd s')) \<and> RecvBatchRaw_capacity (fst (snd s')) = RecvBatchRaw_capacity (fst (snd s))" for s s'
    by (induction rule: rtranclp_induct) (simp, use recv_waits_inv [OF assms(1)] in fastforce)
  from this [OF assms(2)] assms(3) show ?thesis by simp
qed

text \<open>\<^verbatim>\<open>recv_batch\<close> hands over at least one packet, never more than there are slots.\<close>

lemma recv_batch_ok:
  assumes "rx_ok k" and "rb_inv n b"
    and "recv_batch be bld k u b w = Returns (Inr l, u', b', w')"
  shows "0 < l \<and> l \<le> RecvBatchRaw_capacity b \<and> RecvBatchRaw_len b' = l \<and> rb_inv n b' \<and>
     RecvBatchRaw_capacity b' = RecvBatchRaw_capacity b"
proof -
  from assms(3) obtain u1 b1 w1 where s: "(recv_waits be bld k)\<^sup>*\<^sup>* (u, b, w) (u1, b1, w1)"
    and stop: "recv_stops be bld k (u1, b1, w1) (Returns (Inr l, u', b', w'))"
    by (auto simp: recv_batch_Returns_iff)
  note inv = recv_waits_inv_star [OF assms(1) s assms(2)]
  from stop have "be_try_recv be k (udp_fd u1) b1 w1 = Returns (Inr l, b', w')" "0 < l"
    by (auto elim!: recv_stopsE dest: try_recv_batch_Returns(1) simp: recv_blocked_def)
  then show ?thesis
    using recv.keeps_inv [of k n b1] recv.received [of k n b1] recv.received_bounded [of k n b1]
      assms(1) inv by metis
qed

text \<open>Without a slot every attempt comes back with nothing: the loop waits for ever.\<close>

lemma recv_batch_no_room:
  assumes "RecvBatchRaw_capacity b = 0" and "has_tokio bld" and "\<forall>fd w. fst (k_readable k fd w) = Inr ()"
  shows "recv_batch be bld k u b w = Diverges"
proof -
  have attempt: "\<exists>u'. try_recv_batch be k u b w = Returns (Inr 0, u', b, w)" for u w
    by (rule try_recv_batch_run) (rule recv.no_room [OF assms(1)])
  have wt: "\<exists>w'. wait_readable bld k u w = (Inr (), w')" for u w
    using assms(2,3) by (metis wait_readable_def prod.collapse)
  have keep: "fst (snd s') = b" if "recv_waits be bld k s s'" "fst (snd s) = b" for s s'
    using that(1)
  proof cases
    case (wait u b0 w r u1 b1 w1 st w2 w3)
    with attempt [of u w] that(2) show ?thesis by auto
  qed
  have stuck: "fst (snd s') = b" if "(recv_waits be bld k)\<^sup>*\<^sup>* s s'" "fst (snd s) = b" for s s'
    using that by (induction rule: rtranclp_induct) (assumption, erule keep, blast)
  have "\<not> recv_stops be bld k (u, b, w) r" for u w r
    using attempt [of u w] wt by (auto elim!: recv_stopsE simp: recv_blocked_def) (metis Inl_Inr_False prod.inject)+
  with stuck have "recv_batch_loop be bld k u b w \<noteq> Some r" for r
    unfolding recv_loop_iff by (metis fst_conv snd_conv surj_pair)
  then show ?thesis by (auto simp: recv_batch_def split: option.splits)
qed

end

context udp_backend
begin

text \<open>If every blocked attempt brings the socket nearer to accepting, the loop returns.\<close>

lemma send_batch_terminates:
  assumes "tx_ok k" and "drain_contract k stalls" and "has_tokio bld" and "sb_inv b" and "sb_readable m b"
    and blocked: "\<And>fd w r w'. be_try_send be k fd m b w = Returns (r, w') \<Longrightarrow> would_block (k_libc k) r \<Longrightarrow>
      stalls w' < stalls w"
  shows "\<exists>r u' w'. send_batch be bld k m u b w = Returns (r, u', w')"
proof -
  have "\<exists>s x. (send_waits be bld k m b)\<^sup>*\<^sup>* (u, w) s \<and> send_stops be bld k m b s (Returns x)"
  proof (induction "stalls w" arbitrary: u w rule: less_induct)
    case less
    from send.returns [OF assms(1,4,5)] obtain r w1 where
      a: "be_try_send be k (udp_fd u) m b w = Returns (r, w1)" by blast
    from try_send_batch_run [OF a] obtain u1 where t: "try_send_batch be k m u b w = Returns (r, u1, w1)" ..
    show ?case
    proof (cases "would_block (k_libc k) r")
      case False
      with send_stops.answer [OF t] show ?thesis by blast
    next
      case True
      obtain st w2 where nb: "note_blocked k (adaptive_send u1) w1 = (st, w2)" by (metis surj_pair)
      obtain v w3 where wr: "k_writable k (udp_fd (u1\<lparr>adaptive_send := st\<rparr>)) w2 = (v, w3)" by (metis surj_pair)
      from assms(2) wr have v: "v = Inr ()" "stalls w3 \<le> stalls w2" and now: "\<forall>w. stalls (snd (k_now k w)) \<le> stalls w"
        unfolding drain_contract_def by blast+
      have "stalls w3 < stalls w"
        using blocked [OF a True] note_blocked_mono [OF now nb] v(2) by linarith
      from less [OF this] obtain s x where
        "(send_waits be bld k m b)\<^sup>*\<^sup>* (u1\<lparr>adaptive_send := st\<rparr>, w3) s" "send_stops be bld k m b s (Returns x)" by blast
      moreover have "send_waits be bld k m b (u, w) (u1\<lparr>adaptive_send := st\<rparr>, w3)"
        using send_waits.wait [OF t True nb] wr v(1) assms(3) by (simp add: wait_writable_def)
      ultimately show ?thesis by (meson converse_rtranclp_into_rtranclp)
    qed
  qed
  then obtain x where "send_batch be bld k m u b w = Returns x" unfolding send_batch_Returns_iff by blast
  then show ?thesis by (cases x) auto
qed

end

text \<open>With a backend that delivers a queue, the socket delivers it too.\<close>

locale queue_udp =
  udp_backend be tx_ok sendable tx_contract rx_ok + queue: queue_backend "be_try_recv be" rx_ok queue_ok roomy admits
  for be :: "'w backend" and tx_ok sendable tx_contract rx_ok queue_ok roomy admits
begin

text \<open>Whenever the loop comes to an attempt with a datagram in the queue, that attempt ends it.\<close>

lemma recv_batch_delivers:
  assumes "queue_ok k rxq" and "rx_ok k" and "rb_inv n b"
    and "RecvBatchRaw_capacity b < 2 ^ 32" and "0 < RecvBatchRaw_capacity b"
    and "(recv_waits be bld k)\<^sup>*\<^sup>* (u, b, w) (u1, b1, w1)" and "rxq w1 \<noteq> []"
    and "roomy n" and "list_all (admits n) (take (RecvBatchRaw_capacity b) (rxq w1))"
  shows "\<exists>u' b' w'. recv_batch be bld k u b w =
       Returns (Inr (min (RecvBatchRaw_capacity b) (length (rxq w1))), u', b', w') \<and>
     rxq w' = drop (RecvBatchRaw_capacity b) (rxq w1) \<and>
     rb_packets b' = map (cut_to n) (take (RecvBatchRaw_capacity b) (rxq w1))"
proof -
  let ?c = "RecvBatchRaw_capacity b"
  have inv: "rb_inv n b1" "RecvBatchRaw_capacity b1 = ?c"
    using recv_waits_inv_star [OF assms(2,6,3)] by simp_all
  from queue.delivers [OF assms(1,2) inv(1) _ _ assms(7), of "udp_fd u1"] inv(2) assms(4,5,8,9) obtain b' w' where
    r: "be_try_recv be k (udp_fd u1) b1 w1 = Returns (Inr (min ?c (length (rxq w1))), b', w')"
      "rxq w' = drop ?c (rxq w1)" "rb_packets b' = map (cut_to n) (take ?c (rxq w1))"
    by auto
  from try_recv_batch_run [OF r(1)] obtain u' where
    t: "try_recv_batch be k u1 b1 w1 = Returns (Inr (min ?c (length (rxq w1))), u', b', w')" ..
  have "\<not> recv_blocked (k_libc k) (Inr (min ?c (length (rxq w1))))"
    using assms(5,7) by (simp add: recv_blocked_def)
  from recv_stops.answer [OF t this] assms(6)
  have "recv_batch be bld k u b w = Returns (Inr (min ?c (length (rxq w1))), u', b', w')"
    unfolding recv_batch_Returns_iff by blast
  with r(2,3) show ?thesis by blast
qed

text \<open>And whatever it returns came off the queue, in order, after its last wait.\<close>

lemma recv_batch_from_queue:
  assumes "queue_ok k rxq" and "rx_ok k" and "rb_inv n b"
    and "RecvBatchRaw_capacity b < 2 ^ 32" and "0 < RecvBatchRaw_capacity b"
    and "recv_batch be bld k u b w = Returns (Inr l, u', b', w')"
    and "roomy n" and "\<And>w. list_all (admits n) (take (RecvBatchRaw_capacity b) (rxq w))"
  shows "\<exists>u1 b1 w1. (recv_waits be bld k)\<^sup>*\<^sup>* (u, b, w) (u1, b1, w1) \<and> rxq w1 \<noteq> [] \<and>
     l = min (RecvBatchRaw_capacity b) (length (rxq w1)) \<and>
     rb_packets b' = map (cut_to n) (take (RecvBatchRaw_capacity b) (rxq w1)) \<and>
     rxq w' = drop (RecvBatchRaw_capacity b) (rxq w1)"
proof -
  from assms(6) obtain u1 b1 w1 where s: "(recv_waits be bld k)\<^sup>*\<^sup>* (u, b, w) (u1, b1, w1)"
    and stop: "recv_stops be bld k (u1, b1, w1) (Returns (Inr l, u', b', w'))"
    by (auto simp: recv_batch_Returns_iff)
  have inv: "rb_inv n b1" "RecvBatchRaw_capacity b1 < 2 ^ 32" "0 < RecvBatchRaw_capacity b1"
    using recv_waits_inv_star [OF assms(2) s assms(3)] assms(4,5) by simp_all
  from stop have l: "be_try_recv be k (udp_fd u1) b1 w1 = Returns (Inr l, b', w')" "0 < l"
    by (auto elim!: recv_stopsE dest: try_recv_batch_Returns(1) simp: recv_blocked_def)
  with queue.starved [OF assms(1) inv _ assms(7), of w1 "udp_fd u1"] have ne: "rxq w1 \<noteq> []" by auto
  from recv_batch_delivers [OF assms(1-5) s ne assms(7,8)] assms(6) s ne show ?thesis by auto
qed

text \<open>If the environment brings a datagram after finitely many wake-ups, the loop reaches it.\<close>

lemma recv_waits_until_ready:
  assumes "queue_ok k rxq" and "rx_ok k" and "ready_contract k rxq wakes" and "has_tokio bld" and "rb_inv n b"
    and "RecvBatchRaw_capacity b < 2 ^ 32" and "0 < RecvBatchRaw_capacity b" and "roomy n"
    and dry: "\<And>fd b w r b' w'. rb_inv n b \<Longrightarrow> RecvBatchRaw_capacity b < 2 ^ 32 \<Longrightarrow> 0 < RecvBatchRaw_capacity b \<Longrightarrow>
      rxq w = [] \<Longrightarrow> be_try_recv be k fd b w = Returns (r, b', w') \<Longrightarrow> wakes w' \<le> wakes w"
  shows "\<exists>u1 b1 w1. (recv_waits be bld k)\<^sup>*\<^sup>* (u, b, w) (u1, b1, w1) \<and> rxq w1 \<noteq> []"
  using assms(5-7)
proof (induction "wakes w" arbitrary: u b w rule: less_induct)
  case less
  show ?case
  proof (cases "rxq w = []")
    case False
    then show ?thesis by blast
  next
    case True
    from queue.starved [OF assms(1) less.prems True assms(8), of "udp_fd u"] obtain r b1 w1 where
      a: "be_try_recv be k (udp_fd u) b w = Returns (r, b1, w1)"
      and blocked: "recv_blocked (k_libc k) r" by (auto simp: recv_blocked_def)
    from try_recv_batch_run [OF a] obtain u1 where t: "try_recv_batch be k u b w = Returns (r, u1, b1, w1)" ..
    obtain st w2 where nb: "note_blocked k (adaptive_recv u1) w1 = (st, w2)" by (metis surj_pair)
    obtain v w3 where rd: "k_readable k (udp_fd (u1\<lparr>adaptive_recv := st\<rparr>)) w2 = (v, w3)" by (metis surj_pair)
    from assms(3) rd have v: "v = Inr ()" "rxq w3 \<noteq> [] \<or> wakes w3 < wakes w2" and now: "\<forall>w. wakes (snd (k_now k w)) \<le> wakes w"
      unfolding ready_contract_def by blast+
    have step: "recv_waits be bld k (u, b, w) (u1\<lparr>adaptive_recv := st\<rparr>, b1, w3)"
      using recv_waits.wait [OF t blocked nb] rd v(1) assms(4) by (simp add: wait_readable_def)
    show ?thesis
    proof (cases "rxq w3 = []")
      case False
      with step show ?thesis by blast
    next
      case True
      have "wakes w3 < wakes w"
        using v(2) True note_blocked_mono [OF now nb] dry [OF less.prems \<open>rxq w = []\<close> a] by simp
      moreover have "rb_inv n b1" "RecvBatchRaw_capacity b1 = RecvBatchRaw_capacity b"
        using recv.keeps_inv [OF assms(2) less.prems(1) a] by simp_all
      ultimately show ?thesis
        using less.hyps [of w3 b1 "u1\<lparr>adaptive_recv := st\<rparr>"] less.prems(2,3) step
        by (metis converse_rtranclp_into_rtranclp)
    qed
  qed
qed

lemma recv_from_delivers:
  assumes "queue_ok k rxq" and "rx_ok k"
    and "(recv_waits be bld k)\<^sup>*\<^sup>* (u, RecvBatchRaw_with_capacity 1 (length buf), w) (u1, b1, w1)"
    and "rxq w1 = p # q" and "roomy (length buf)" and "admits (length buf) p"
  shows "\<exists>u' w'. recv_from be bld k u buf w =
       Returns (Inr (min (length (fst p)) (length buf), snd p), deposit buf (fst p), u', w') \<and> rxq w' = q"
proof -
  let ?b = "RecvBatchRaw_with_capacity 1 (length buf)"
  have c: "RecvBatchRaw_capacity ?b = 1" by (simp add: RecvBatchRaw_capacity_def RecvBatchRaw_with_capacity_def)
  from recv_batch_delivers [OF assms(1,2) rb_inv_with_capacity _ _ assms(3)] assms(4-6) c obtain u' b' w' where
    r: "recv_batch be bld k u ?b w = Returns (Inr 1, u', b', w')" "rxq w' = q"
      "rb_packets b' = [cut_to (length buf) p]"
    by auto
  from recv_batch_ok [OF assms(2) rb_inv_with_capacity r(1)] c
  have b': "rb_len b' = 1" "rb_inv (length buf) b'" "length (rb_slots b') = 1"
    by (simp_all add: RecvBatchRaw_len_def RecvBatchRaw_capacity_def)
  then obtain s where s: "rb_slots b' = [s]" by (auto simp: length_Suc_conv)
  with r(3) b' have p: "slot_packet s = cut_to (length buf) p" by (simp add: rb_packets_def)
  have "unat (rs_recv_len s) \<le> length (rs_buf s)"
    using b'(2) s by (simp add: rb_inv_def)
  with s p have d: "RecvBatchRaw_data b' 0 = Returns (take (length buf) (fst p))"
    "RecvBatchRaw_addr b' 0 = Returns (snd p)"
    by (simp_all add: slot_reads slot_packet_def cut_to_def)
  moreover have "take (min (length buf) (length (fst p))) (fst p) = take (length buf) (fst p)"
    by (simp add: min_def)
  ultimately show ?thesis
    using r(1,2) by (simp add: recv_from_def deposit_def Let_def min.commute)
qed

end

section \<open>The backends\<close>

interpretation linux_udp: udp_backend "linux_backend f" count_contract
  "\<lambda>b. sb_len b \<le> MAX_STACK \<or> dests_first b" log_contract recv_contract for f
  unfolding udp_backend_def linux_backend_def backend.simps
  using linux_prefix.prefix_backend_axioms linux_recv.recv_backend_axioms by blast

interpretation linux_udp_plain: queue_udp
  "linux_backend \<lparr>feat_gro = False, feat_timestamping = ts, feat_pktinfo = pk\<rparr>" count_contract
  "\<lambda>b. sb_len b \<le> MAX_STACK \<or> dests_first b" log_contract recv_contract queue_contract "\<lambda>_. True" "\<lambda>_ _. True" for ts pk
  unfolding queue_udp_def udp_backend_def linux_backend_def backend.simps
  using linux_prefix.prefix_backend_axioms linux_recv.recv_backend_axioms
    linux_recv_plain.queue_backend_axioms by blast

interpretation fallback_udp: queue_udp fallback_backend count_contract "\<lambda>_. True" log_contract
  recv_contract queue_contract "\<lambda>_. True" "\<lambda>_ _. True"
  unfolding queue_udp_def udp_backend_def fallback_backend_def backend.simps
  using fallback_prefix.prefix_backend_axioms fallback_recv.recv_backend_axioms
    fallback_recv.queue_backend_axioms by blast

interpretation macos_udp: queue_udp "macos_backend A" "macos_tx_ok A" dests_first "macos_log A"
  "macos_rx_ok A" "macos_queue A" "\<lambda>_. True" "\<lambda>_ _. True" for A :: "'w macos_api"
  unfolding queue_udp_def udp_backend_def macos_backend_def backend.simps
  using macos_send.prefix_backend_axioms macos_recv.recv_backend_axioms macos_recv.queue_backend_axioms by blast

interpretation windows_udp: queue_udp "windows_backend W" "\<lambda>_. True" wsa_sendable "winsock_log W"
  "winsock_rx_ok W" "winsock_queue W" wsa_roomy wsa_admits for W :: "'w winsock"
  unfolding queue_udp_def udp_backend_def windows_backend_def backend.simps
  using windows_send.prefix_backend_axioms windows_recv.recv_backend_axioms windows_recv.queue_backend_axioms by blast

section \<open>The selected backend\<close>

text \<open>What the backend \<open>imp\<close> of a build relies on, and the batches its send is exact about.\<close>

definition imp_tx_ok :: "build \<Rightarrow> 'w macos_api \<Rightarrow> 'w kernel \<Rightarrow> bool" where
  "imp_tx_ok bld A =
     (case native bld of Linux \<Rightarrow> count_contract | MacOS \<Rightarrow> macos_tx_ok A | Windows \<Rightarrow> (\<lambda>_. True) | OtherOS \<Rightarrow> count_contract)"

definition imp_sendable :: "build \<Rightarrow> SendBatchRaw \<Rightarrow> bool" where
  "imp_sendable bld =
     (case native bld of
        Linux \<Rightarrow> (\<lambda>b. sb_len b \<le> MAX_STACK \<or> dests_first b) | MacOS \<Rightarrow> dests_first
      | Windows \<Rightarrow> wsa_sendable | OtherOS \<Rightarrow> (\<lambda>_. True))"

definition imp_log ::
    "build \<Rightarrow> 'w macos_api \<Rightarrow> 'w winsock \<Rightarrow> 'w kernel \<Rightarrow> ('w \<Rightarrow> tx_msg list) \<Rightarrow> bool" where
  "imp_log bld A W =
     (case native bld of
        Linux \<Rightarrow> log_contract | MacOS \<Rightarrow> macos_log A | Windows \<Rightarrow> winsock_log W | OtherOS \<Rightarrow> log_contract)"

definition imp_rx_ok :: "build \<Rightarrow> 'w macos_api \<Rightarrow> 'w winsock \<Rightarrow> 'w kernel \<Rightarrow> bool" where
  "imp_rx_ok bld A W =
     (case native bld of
        Linux \<Rightarrow> recv_contract | MacOS \<Rightarrow> macos_rx_ok A | Windows \<Rightarrow> winsock_rx_ok W | OtherOS \<Rightarrow> recv_contract)"

definition imp_queue ::
    "build \<Rightarrow> 'w macos_api \<Rightarrow> 'w winsock \<Rightarrow> 'w kernel \<Rightarrow> ('w \<Rightarrow> (bytes \<times> SocketAddr) list) \<Rightarrow> bool" where
  "imp_queue bld A W =
     (case native bld of
        Linux \<Rightarrow> queue_contract | MacOS \<Rightarrow> macos_queue A | Windows \<Rightarrow> winsock_queue W | OtherOS \<Rightarrow> queue_contract)"

text \<open>Slots of a size the calls can express, and datagrams that fit in them: a condition on
  Windows only.\<close>

definition imp_roomy :: "build \<Rightarrow> nat \<Rightarrow> bool" where
  "imp_roomy bld = (if native bld = Windows then wsa_roomy else (\<lambda>_. True))"

definition imp_admits :: "build \<Rightarrow> nat \<Rightarrow> bytes \<times> SocketAddr \<Rightarrow> bool" where
  "imp_admits bld = (if native bld = Windows then wsa_admits else (\<lambda>_ _. True))"

lemmas imp_defs = imp_def imp_tx_ok_def imp_sendable_def imp_log_def imp_rx_ok_def imp_queue_def imp_roomy_def imp_admits_def

interpretation imp_udp: udp_backend "imp bld A W" "imp_tx_ok bld A" "imp_sendable bld" "imp_log bld A W"
  "imp_rx_ok bld A W" for bld and A :: "'w macos_api" and W :: "'w winsock"
  by (cases "native bld")
     (simp_all add: imp_defs linux_udp.udp_backend_axioms macos_udp.udp_backend_axioms windows_udp.udp_backend_axioms
       fallback_udp.udp_backend_axioms)

lemma imp_queue_udp:
  assumes "native bld = Linux \<longrightarrow> \<not> feat_gro (build_rx bld)"
  shows "queue_udp (imp bld A W) (imp_tx_ok bld A) (imp_sendable bld) (imp_log bld A W) (imp_rx_ok bld A W)
    (imp_queue bld A W) (imp_roomy bld) (imp_admits bld)"
proof (cases "native bld")
  case Linux
  obtain ts pk where "build_rx bld = \<lparr>feat_gro = False, feat_timestamping = ts, feat_pktinfo = pk\<rparr>"
    using Linux assms by (cases "build_rx bld") simp
  with Linux show ?thesis by (simp add: imp_defs linux_udp_plain.queue_udp_axioms)
qed (simp_all add: imp_defs macos_udp.queue_udp_axioms windows_udp.queue_udp_axioms fallback_udp.queue_udp_axioms)

section \<open>What every call keeps of the socket\<close>

definition mutex_ok :: "AdaptiveState mutex option \<Rightarrow> bool" where
  "mutex_ok st \<longleftrightarrow> (case st of None \<Rightarrow> True | Some mx \<Rightarrow> target_ok (mx_value mx))"

text \<open>The descriptor, whether adaptive batching is on, and the range of both targets.\<close>

definition udp_keeps :: "BingerUdp \<Rightarrow> BingerUdp \<Rightarrow> bool" where
  "udp_keeps u u' \<longleftrightarrow> udp_fd u' = udp_fd u \<and>
     (adaptive_send u' = None \<longleftrightarrow> adaptive_send u = None) \<and>
     (mutex_ok (adaptive_send u) \<longrightarrow> mutex_ok (adaptive_send u')) \<and>
     (mutex_ok (adaptive_recv u) \<longrightarrow> mutex_ok (adaptive_recv u'))"

lemma udp_keeps_refl: "udp_keeps u u"
  by (simp add: udp_keeps_def)

lemma udp_keeps_trans: "udp_keeps u v \<Longrightarrow> udp_keeps v x \<Longrightarrow> udp_keeps u x"
  by (auto simp: udp_keeps_def)

lemma udp_keeps_metrics: "udp_keeps v u \<Longrightarrow> udp_keeps v (on_metrics f u)"
  by (simp add: udp_keeps_def on_metrics_def)

lemma locked_ok: "mutex_ok st \<Longrightarrow> mutex_ok (map_option (locked record_event) st)"
  by (auto simp: mutex_ok_def locked_def records_ok split: option.splits)

lemma note_blocked_ok:
  assumes "note_blocked k st w = (st', w')"
  shows "mutex_ok st \<Longrightarrow> mutex_ok st'" and "st' = None \<longleftrightarrow> st = None"
  using assms maybe_adjust_ok [OF records_ok(2)]
  by (auto simp: note_blocked_def mutex_ok_def Let_def split: option.splits if_splits prod.splits)

lemma udp_keeps_blocked:
  assumes "note_blocked k (adaptive_send u) w = (st, w')" and "udp_keeps v u"
  shows "udp_keeps v (u\<lparr>adaptive_send := st\<rparr>)"
  using note_blocked_ok [OF assms(1)] assms(2) by (auto simp: udp_keeps_def)

lemma udp_keeps_blocked_recv:
  assumes "note_blocked k (adaptive_recv u) w = (st, w')" and "udp_keeps v u"
  shows "udp_keeps v (u\<lparr>adaptive_recv := st\<rparr>)"
  using note_blocked_ok [OF assms(1)] assms(2) by (auto simp: udp_keeps_def)

lemma udp_keeps_event:
  "udp_keeps u (u\<lparr>adaptive_send := map_option (locked record_event) (adaptive_send u)\<rparr>)"
  "udp_keeps u (u\<lparr>adaptive_recv := map_option (locked record_event) (adaptive_recv u)\<rparr>)"
  using locked_ok by (auto simp: udp_keeps_def)

lemmas udp_keeps_intros = udp_keeps_refl udp_keeps_metrics udp_keeps_event udp_keeps_blocked udp_keeps_blocked_recv

lemma try_send_batch_keeps: "try_send_batch be k m u b w = Returns (r, u', w') \<Longrightarrow> udp_keeps u u'"
  unfolding try_send_batch_def
  by (auto elim!: outcome_bind_ReturnsE simp: Let_def split: sum.split_asm if_split_asm
      intro!: udp_keeps_intros)

lemma try_recv_batch_keeps: "try_recv_batch be k u b w = Returns (r, u', b', w') \<Longrightarrow> udp_keeps u u'"
  unfolding try_recv_batch_def
  by (auto elim!: outcome_bind_ReturnsE simp: Let_def split: sum.split_asm if_split_asm
      intro!: udp_keeps_intros)

lemma send_waits_keeps: "(send_waits be bld k m b)\<^sup>*\<^sup>* s s' \<Longrightarrow> udp_keeps (fst s) (fst s')"
proof (induction rule: rtranclp_induct)
  case (step y z)
  from step(2) have "udp_keeps (fst y) (fst z)"
    by (auto elim!: send_waits.cases dest!: try_send_batch_keeps intro: udp_keeps_intros)
  with step(3) show ?case by (rule udp_keeps_trans)
qed (rule udp_keeps_refl)

lemma recv_waits_keeps: "(recv_waits be bld k)\<^sup>*\<^sup>* s s' \<Longrightarrow> udp_keeps (fst s) (fst s')"
proof (induction rule: rtranclp_induct)
  case (step y z)
  from step(2) have "udp_keeps (fst y) (fst z)"
    by (auto elim!: recv_waits.cases dest!: try_recv_batch_keeps intro: udp_keeps_intros)
  with step(3) show ?case by (rule udp_keeps_trans)
qed (rule udp_keeps_refl)

lemma send_batch_keeps:
  assumes "send_batch be bld k m u b w = Returns (r, u', w')"
  shows "udp_keeps u u'"
proof -
  from assms obtain s where s: "(send_waits be bld k m b)\<^sup>*\<^sup>* (u, w) s"
    and stop: "send_stops be bld k m b s (Returns (r, u', w'))"
    by (auto simp: send_batch_Returns_iff)
  from stop have "udp_keeps (fst s) u'"
    by (auto elim!: send_stops.cases dest!: try_send_batch_keeps intro: udp_keeps_intros)
  with send_waits_keeps [OF s] show ?thesis by (auto intro: udp_keeps_trans)
qed

lemma recv_batch_keeps:
  assumes "recv_batch be bld k u b w = Returns (r, u', b', w')"
  shows "udp_keeps u u'"
proof -
  from assms obtain s where s: "(recv_waits be bld k)\<^sup>*\<^sup>* (u, b, w) s"
    and stop: "recv_stops be bld k s (Returns (r, u', b', w'))"
    by (auto simp: recv_batch_Returns_iff)
  from stop have "udp_keeps (fst s) u'"
    by (auto elim!: recv_stops.cases dest!: try_recv_batch_keeps intro: udp_keeps_intros)
  with recv_waits_keeps [OF s] show ?thesis by (auto intro: udp_keeps_trans)
qed

text \<open>The methods of a socket that take \<^verbatim>\<open>&self\<close> and may change it.\<close>

inductive udp_call :: "'w backend \<Rightarrow> build \<Rightarrow> 'w kernel \<Rightarrow> BingerUdp \<Rightarrow> BingerUdp \<Rightarrow> bool"
  for be bld k where
  "try_send_batch be k m u b w = Returns (r, u', w') \<Longrightarrow> udp_call be bld k u u'"
| "try_recv_batch be k u rb w = Returns (r, u', rb', w') \<Longrightarrow> udp_call be bld k u u'"
| "send_batch be bld k m u b w = Returns (r, u', w') \<Longrightarrow> udp_call be bld k u u'"
| "recv_batch be bld k u rb w = Returns (r, u', rb', w') \<Longrightarrow> udp_call be bld k u u'"
| "send_to be bld k vec_alloc m u buf addr w = Returns (r, u', w') \<Longrightarrow> udp_call be bld k u u'"
| "try_send_to be k vec_alloc m u buf addr w = Returns (r, u', w') \<Longrightarrow> udp_call be bld k u u'"
| "recv_from be bld k u dst w = Returns (rf, dst', u', w') \<Longrightarrow> udp_call be bld k u u'"

lemma single_calls_keep:
  "send_to be bld k vec_alloc m u buf addr w = Returns (r, u', w') \<Longrightarrow> udp_keeps u u'"
  "try_send_to be k vec_alloc m u buf addr w = Returns (r, u', w') \<Longrightarrow> udp_keeps u u'"
  "recv_from be bld k u dst w = Returns (rf, dst', u', w') \<Longrightarrow> udp_keeps u u'"
  unfolding send_to_def try_send_to_def recv_from_def
  by (auto elim!: outcome_bind_ReturnsE simp: Let_def split: sum.split_asm
      dest: send_batch_keeps try_send_batch_keeps recv_batch_keeps)

lemma udp_call_keeps: "udp_call be bld k u u' \<Longrightarrow> udp_keeps u u'"
  by (erule udp_call.cases)
     (auto dest: try_send_batch_keeps try_recv_batch_keeps send_batch_keeps recv_batch_keeps single_calls_keep)

lemma udp_calls_keep: "(udp_call be bld k)\<^sup>*\<^sup>* u u' \<Longrightarrow> udp_keeps u u'"
  by (induction rule: rtranclp_induct) (auto intro: udp_keeps_refl udp_keeps_trans udp_call_keeps)

lemma from_std_ok:
  assumes "from_std k bld socket config w = (Inr u, w')"
  shows "udp_fd u = socket" and "mutex_ok (adaptive_send u)" and "mutex_ok (adaptive_recv u)"
    and "adaptive_send u = None \<longleftrightarrow> \<not> adaptive_batching config"
  using assms unfolding from_std_def
  by (auto simp: adaptive_new_def mutex_ok_def Let_def dest: new_ok split: prod.split_asm sum.split_asm if_split_asm)

lemma one_packet_Returns:
  assumes "1 \<le> vec_alloc 1"
  shows "one_packet vec_alloc buf addr =
     Returns \<lparr>sb_slots = [\<lparr>data_ptr = slice_ptr buf, data_len = slice_len buf, slot_addr = Some addr\<rparr>],
              sb_cap = vec_alloc 1, sb_len = 1\<rparr>"
  using assms by (simp add: one_packet_def SendBatchRaw_push_def SendBatchRaw_with_capacity_def Let_def)

end
