(* ===== verification/Frame.thy ===== *)
theory Frame
  imports Socket
begin

text \<open>
  What a batch call leaves alone. For a relation \<open>R\<close> between states of the outside world that is
  reflexive and transitive, and that every system call a backend uses for sending respects, a
  whole send attempt respects \<open>R\<close>; likewise for receiving. The locale \<open>framed_backend\<close> states this
  of a backend, and every platform's backend is an instance. With it, tasks that send and tasks
  that receive on one socket do not disturb each other (theory \<open>Tasks\<close>).
\<close>

section \<open>Relations that system calls respect\<close>

definition preorder_rel :: "('w \<Rightarrow> 'w \<Rightarrow> bool) \<Rightarrow> bool" where
  "preorder_rel R \<longleftrightarrow> (\<forall>w. R w w) \<and> (\<forall>w1 w2 w3. R w1 w2 \<longrightarrow> R w2 w3 \<longrightarrow> R w1 w3)"

definition tx_frame :: "'w kernel \<Rightarrow> ('w \<Rightarrow> 'w \<Rightarrow> bool) \<Rightarrow> bool" where
  "tx_frame k R \<longleftrightarrow> preorder_rel R \<and>
     (\<forall>fd msgs vlen w. R w (snd (k_sendmmsg k fd msgs vlen w))) \<and>
     (\<forall>fd data st l w. R w (snd (k_sendto k fd data st l w))) \<and>
     (\<forall>fd data w. R w (snd (k_send k fd data w))) \<and>
     (\<forall>fd st l w. R w (snd (snd (snd (k_getpeername k fd st l w)))))"

definition rx_frame :: "'w kernel \<Rightarrow> ('w \<Rightarrow> 'w \<Rightarrow> bool) \<Rightarrow> bool" where
  "rx_frame k R \<longleftrightarrow> preorder_rel R \<and>
     (\<forall>fd ms vlen w. R w (snd (snd (k_recvmmsg k fd ms vlen w)))) \<and>
     (\<forall>fd buf st l w. R w (snd (snd (snd (snd (k_recvfrom k fd buf st l w))))))"

definition macos_tx_frame :: "'w macos_api \<Rightarrow> 'w kernel \<Rightarrow> ('w \<Rightarrow> 'w \<Rightarrow> bool) \<Rightarrow> bool" where
  "macos_tx_frame A k R \<longleftrightarrow> tx_frame k R \<and>
     (\<forall>name w. R w (snd (ma_dlsym A name w))) \<and> (\<forall>a w. R w (ma_set_send_addr A a w)) \<and>
     (\<forall>fd msgs len w. R w (snd (ma_sendmsg_x A fd msgs len w)))"

definition macos_rx_frame :: "'w macos_api \<Rightarrow> 'w kernel \<Rightarrow> ('w \<Rightarrow> 'w \<Rightarrow> bool) \<Rightarrow> bool" where
  "macos_rx_frame A k R \<longleftrightarrow> rx_frame k R \<and>
     (\<forall>name w. R w (snd (ma_dlsym A name w))) \<and> (\<forall>a w. R w (ma_set_recv_addr A a w)) \<and>
     (\<forall>fd msgs len w. R w (snd (snd (ma_recvmsg_x A fd msgs len w))))"

definition winsock_tx_frame :: "'w winsock \<Rightarrow> 'w kernel \<Rightarrow> ('w \<Rightarrow> 'w \<Rightarrow> bool) \<Rightarrow> bool" where
  "winsock_tx_frame W k R \<longleftrightarrow> preorder_rel R \<and>
     (\<forall>fd t w. R w (snd (snd (ws_WSASendMsg W fd t w)))) \<and>
     (\<forall>fd st l w. R w (snd (snd (snd (k_getpeername k fd st l w)))))"

definition winsock_rx_frame :: "'w winsock \<Rightarrow> 'w kernel \<Rightarrow> ('w \<Rightarrow> 'w \<Rightarrow> bool) \<Rightarrow> bool" where
  "winsock_rx_frame W k R \<longleftrightarrow> preorder_rel R \<and>
     (\<forall>fd buf n st l w. R w (snd (snd (snd (snd (snd (ws_WSARecvMsg W fd buf n st l w))))))) \<and>
     (\<forall>fd buf n st l w. R w (snd (snd (snd (snd (ws_recvfrom W fd buf n st l w)))))) \<and>
     (\<forall>af ty pr w. R w (snd (ws_socket W af ty pr w))) \<and>
     (\<forall>fd p w. R w (snd (snd (ws_WSAIoctl W fd p w)))) \<and>
     (\<forall>af ty pr v w. R w (k_close k (fst (ws_socket W af ty pr v)) w)) \<and> (\<forall>p w. R w (ws_set_ptr W p w))"

lemma preorder_rel_refl: "preorder_rel R \<Longrightarrow> R w w"
  by (simp add: preorder_rel_def)

lemma preorder_rel_trans: "preorder_rel R \<Longrightarrow> R w1 w2 \<Longrightarrow> R w2 w3 \<Longrightarrow> R w1 w3"
  unfolding preorder_rel_def by blast

lemma tx_frame_calls:
  assumes "tx_frame k R"
  shows "preorder_rel R"
    and "k_sendmmsg k fd msgs vlen w = (n, w') \<Longrightarrow> R w w'"
    and "raw_sendto k fd data a w = (r, w') \<Longrightarrow> R w w'"
    and "raw_send k fd data w = (r, w') \<Longrightarrow> R w w'"
    and "is_connected k fd w = (conn, w') \<Longrightarrow> R w w'"
  using assms unfolding tx_frame_def raw_sendto_def raw_send_def is_connected_def
  by (auto simp: Let_def split_beta) (metis snd_conv)

lemma rx_frame_calls:
  assumes "rx_frame k R"
  shows "preorder_rel R"
    and "k_recvmmsg k fd ms vlen w = (n, ms', w') \<Longrightarrow> R w w'"
    and "raw_recvfrom k fd buf w = (r, buf', w') \<Longrightarrow> R w w'"
  using assms unfolding rx_frame_def raw_recvfrom_def
  by (auto simp: Let_def split_beta) (metis snd_conv)

section \<open>The loops\<close>

lemma send_loop_frame:
  assumes "tx_frame k R" and "send_loop k fd m b is_conn is sent w = Returns (r, w')"
  shows "R w w'"
  using assms(2)
proof (induction "is" arbitrary: sent w)
  case Nil
  then show ?case using preorder_rel_refl [OF tx_frame_calls(1) [OF assms(1)]] by simp
next
  case (Cons i rest)
  from Cons.prems obtain data addr where e: "SendBatchRaw_entry m b i = Returns (data, addr)"
    by (auto elim!: outcome_bind_ReturnsE)
  obtain r1 w1 where s: "(case (is_conn, addr) of (True, _) \<Rightarrow> raw_send k fd (payload m data) w
      | (_, None) \<Rightarrow> raw_send k fd (payload m data) w
      | (_, Some a) \<Rightarrow> raw_sendto k fd (payload m data) a w) = (r1, w1)" by (metis surj_pair)
  then have one: "R w w1"
    using tx_frame_calls(3,4) [OF assms(1)] by (auto split: bool.splits option.splits)
  show ?case
  proof (cases r1)
    case (Inl e')
    with Cons.prems e s have "w' = w1" by (auto split: if_splits)
    with one show ?thesis by simp
  next
    case (Inr x)
    with Cons.prems e s have "send_loop k fd m b is_conn rest (sent + 1) w1 = Returns (r, w')" by simp
    from Cons.IH [OF this] one show ?thesis
      using preorder_rel_trans [OF tx_frame_calls(1) [OF assms(1)]] by blast
  qed
qed

lemma retry_eintr_frame:
  assumes "preorder_rel R" and "\<And>ms w n ms' w'. f ms w = (n, ms', w') \<Longrightarrow> R w w'"
    and "retry_eintr k f ms w = Some (r, ms', w')"
  shows "R w w'"
proof -
  have "answers k f ms w" using assms(3) by (rule retry_answers)
  then show ?thesis
    using assms(3)
  proof (induction rule: answers.induct)
    case (now ms w n ms1 w1)
    from now(3) have "w' = w1"
      using now(1,2) by (subst (asm) retry_eintr.simps) (auto simp: Let_def split: if_splits)
    with assms(2) [OF now(1)] show ?case by simp
  next
    case (later ms w n ms1 w1)
    from later(6) have "retry_eintr k f ms1 w1 = Some (r, ms', w')"
      using later(1-3) by (subst (asm) retry_eintr.simps) (simp add: Let_def)
    from later(5) [OF this] assms(2) [OF later(1)] show ?case
      using preorder_rel_trans [OF assms(1)] by blast
  qed
qed

lemma recv_slots_frame:
  assumes "preorder_rel R" and "\<And>buf w r buf' w'. take_one buf w = (r, buf', w') \<Longrightarrow> R w w'"
    and "recv_slots c take_one is received b w = Returns (r, b', w')"
  shows "R w w'"
  using assms(3)
proof (induction "is" arbitrary: received b w)
  case Nil
  then show ?case using preorder_rel_refl [OF assms(1)] by simp
next
  case (Cons i rest)
  from Cons.prems obtain buf n where e: "RecvBatchRaw_buffer_mut b i = Returns (buf, n)"
    by (auto elim!: outcome_bind_ReturnsE)
  obtain r1 buf1 w1 where s: "take_one buf w = (r1, buf1, w1)" by (metis surj_pair)
  note one = assms(2) [OF s]
  show ?case
  proof (cases r1)
    case (Inl e')
    with Cons.prems e s have "w' = w1" by (auto elim!: outcome_bind_ReturnsE split: if_splits)
    with one show ?thesis by simp
  next
    case (Inr x)
    with Cons.prems e s obtain b1 where "recv_slots c take_one rest (received + 1) b1 w1 = Returns (r, b', w')"
      by (cases x) (auto elim!: outcome_bind_ReturnsE)
    from Cons.IH [OF this] one show ?thesis using preorder_rel_trans [OF assms(1)] by blast
  qed
qed

section \<open>The backends\<close>

lemma fallback_send_frame:
  assumes "tx_frame k R" and "fallback_try_send_batch k fd m b w = Returns (r, w')"
  shows "R w w'"
proof (cases "SendBatchRaw_len b = 0")
  case True
  with assms(2) preorder_rel_refl [OF tx_frame_calls(1) [OF assms(1)]] show ?thesis
    by (simp add: fallback_try_send_batch_def)
next
  case False
  obtain conn w1 where c: "is_connected k fd w = (conn, w1)" by (metis surj_pair)
  with assms(2) False have "send_loop k fd m b conn [0 ..< SendBatchRaw_len b] 0 w1 = Returns (r, w')"
    by (simp add: fallback_try_send_batch_def Let_def)
  with tx_frame_calls(5) [OF assms(1) c] send_loop_frame [OF assms(1)] show ?thesis
    using preorder_rel_trans [OF tx_frame_calls(1) [OF assms(1)]] by blast
qed

lemma call_sendmmsg_frame:
  assumes "tx_frame k R" and "call_sendmmsg k fd m b st len w = Returns (r, w')"
  shows "R w w'"
proof -
  from assms(2) obtain msgs where
    "outcome_map (tx_view m (sa_iovecs st) (sa_addrs st)) (take len (sa_msgs st)) = Returns msgs"
    by (auto simp: call_sendmmsg_def elim!: outcome_bind_ReturnsE)
  moreover obtain n w1 where c: "k_sendmmsg k fd msgs (of_nat len) w = (n, w1)" by (metis surj_pair)
  ultimately have "w' = w1 \<or> fallback_try_send_batch k fd m b w1 = Returns (r, w')"
    using assms(2) by (auto simp: call_sendmmsg_def linux_fallback_send_eq Let_def split: if_splits)
  with tx_frame_calls(2) [OF assms(1) c] fallback_send_frame [OF assms(1)] show ?thesis
    using preorder_rel_trans [OF tx_frame_calls(1) [OF assms(1)]] by blast
qed

lemma linux_send_frame:
  assumes "tx_frame k R" and "linux_try_send_batch k fd m b w = Returns (r, w')"
  shows "R w w'"
  using assms(2) call_sendmmsg_frame [OF assms(1)] preorder_rel_refl [OF tx_frame_calls(1) [OF assms(1)]]
  by (auto simp: linux_try_send_batch_def Let_def elim!: outcome_bind_ReturnsE split: if_splits)

lemma recv_loop_frame:
  assumes "rx_frame k R" and "recv_loop k fd is received b w = Returns (r, b', w')"
  shows "R w w'"
  by (rule recv_slots_frame [where take_one = "raw_recvfrom k fd", OF rx_frame_calls(1) [OF assms(1)]
        rx_frame_calls(3) [OF assms(1)] assms(2) [unfolded recv_loop_slots]])

lemma call_recvmmsg_frame:
  assumes "rx_frame k R" and "call_recvmmsg f k fd b msgs w = Returns (r, b', w')"
  shows "R w w'"
proof -
  from assms(2) obtain x where
    x: "retry_eintr k (\<lambda>ms. k_recvmmsg k fd ms (of_nat (RecvBatchRaw_capacity b))) msgs w = Some x"
    by (auto simp: call_recvmmsg_def option_outcome_def Let_def split: option.splits)
  obtain v ms w1 where v: "x = (v, ms, w1)" by (metis surj_pair)
  have one: "R w w1"
    by (rule retry_eintr_frame [OF rx_frame_calls(1) [OF assms(1)] _ x [unfolded v]])
       (rule rx_frame_calls(2) [OF assms(1)])
  from assms(2) x v have "w' = w1 \<or> (\<exists>b1. linux_fallback_recv k fd b1 w1 = Returns (r, b', w'))"
    by (auto simp: call_recvmmsg_def option_outcome_def Let_def elim!: outcome_bind_ReturnsE
        split: sum.splits if_splits)
  with one recv_loop_frame [OF assms(1)] show ?thesis
    using preorder_rel_trans [OF rx_frame_calls(1) [OF assms(1)]] unfolding linux_fallback_recv_def by blast
qed

lemma linux_recv_frame:
  assumes "rx_frame k R" and "linux_try_recv_batch f k fd b w = Returns (r, b', w')"
  shows "R w w'"
  using assms(2) call_recvmmsg_frame [OF assms(1)] preorder_rel_refl [OF rx_frame_calls(1) [OF assms(1)]]
  by (auto simp: linux_try_recv_batch_def linux_recv_stack_def linux_recv_heap_def Let_def
      elim!: outcome_bind_ReturnsE split: if_splits)

lemma resolve_symbol_frame:
  assumes "preorder_rel R" and "\<And>name w. R w (snd (ma_dlsym A name w))" and "\<And>a w. R w (set_addr a w)"
  shows "R w (snd (resolve_symbol A get_addr set_addr name w))"
  using assms(2) [of w name] assms(3) preorder_rel_trans [OF assms(1)] preorder_rel_refl [OF assms(1)]
  by (auto simp: resolve_symbol_def split_beta Let_def split: option.splits)

lemma macos_send_frame:
  assumes fr: "macos_tx_frame A k R" and r: "macos_try_send_batch A k fd m b w = Returns (r, w')"
  shows "R w w'"
proof (cases "SendBatchRaw_len b = 0")
  case True
  with r fr preorder_rel_refl show ?thesis
    by (auto simp: macos_try_send_batch_def macos_tx_frame_def tx_frame_def)
next
  case False
  let ?len = "SendBatchRaw_len b"
  have tx: "tx_frame k R" and pre: "preorder_rel R" and dl: "\<And>name w. R w (snd (ma_dlsym A name w))"
    "\<And>a w. R w (ma_set_send_addr A a w)" and sx: "\<And>fd msgs len w. R w (snd (ma_sendmsg_x A fd msgs len w))"
    using fr by (simp_all add: macos_tx_frame_def tx_frame_def)
  note trans = preorder_rel_trans [OF pre]
  obtain conn w1 where c: "is_connected k fd w = (conn, w1)" by (metis surj_pair)
  note one = tx_frame_calls(5) [OF tx c]
  show ?thesis
  proof (cases conn)
    case True
    with r c False have "macos_connected_send k fd m b w1 = Returns (r, w')"
      by (simp add: macos_try_send_batch_def Let_def)
    with one send_loop_frame [OF tx] show ?thesis unfolding macos_connected_send_def by (blast intro: trans)
  next
    case nc: False
    obtain fn w2 where f: "sendmsg_x_fn A w1 = (fn, w2)" by (metis surj_pair)
    with resolve_symbol_frame [where A = A and R = R and set_addr = "ma_set_send_addr A", OF pre dl]
    have two: "R w1 w2" by (auto simp: sendmsg_x_fn_def Let_def split_beta)
    have fn: "fn = None \<or> fn = Some (ma_sendmsg_x A)"
      using f by (auto simp: sendmsg_x_fn_def Let_def split_beta)
    from r c False nc f obtain st where
      st: "(case fn of Some sendmsg_x \<Rightarrow> call_sendmsg_x k sendmsg_x fd m st ?len w2
           | None \<Rightarrow> macos_plain_send k fd m b w2) = Returns (r, w')"
      by (auto simp: macos_try_send_batch_def Let_def elim!: outcome_bind_ReturnsE split: option.splits)
    have "R w2 w'"
    proof (cases fn)
      case None
      with st send_loop_frame [OF tx] show ?thesis unfolding macos_plain_send_def by simp
    next
      case (Some g)
      with st fn obtain msgs v u where "retry_eintr k (\<lambda>_ w. let (n, w') = ma_sendmsg_x A fd msgs (of_nat ?len) w
          in (n, (), w')) () w2 = Some (v, u, w')"
        by (auto simp: call_sendmsg_x_def macos_retry_eintr_def option_outcome_def elim!: outcome_bind_ReturnsE
            split: option.splits)
      then show ?thesis
        by (rule retry_eintr_frame [OF pre, rotated]) (use sx in \<open>auto simp: Let_def split_beta\<close>)
    qed
    with one two show ?thesis by (blast intro: trans)
  qed
qed

lemma macos_recv_frame:
  assumes fr: "macos_rx_frame A k R" and r: "macos_try_recv_batch A k fd b w = Returns (r, b', w')"
  shows "R w w'"
proof (cases "RecvBatchRaw_capacity b = 0")
  case True
  with r fr preorder_rel_refl show ?thesis
    by (auto simp: macos_try_recv_batch_def macos_rx_frame_def rx_frame_def)
next
  case False
  have rx: "rx_frame k R" and pre: "preorder_rel R" and dl: "\<And>name w. R w (snd (ma_dlsym A name w))"
    "\<And>a w. R w (ma_set_recv_addr A a w)" and rxx: "\<And>fd ms len w. R w (snd (snd (ma_recvmsg_x A fd ms len w)))"
    using fr by (simp_all add: macos_rx_frame_def rx_frame_def)
  obtain fn w1 where f: "recvmsg_x_fn A w = (fn, w1)" by (metis surj_pair)
  with resolve_symbol_frame [where A = A and R = R and set_addr = "ma_set_recv_addr A", OF pre dl]
  have one: "R w w1" by (auto simp: recvmsg_x_fn_def Let_def split_beta)
  have fn: "fn = None \<or> fn = Some (ma_recvmsg_x A)"
    using f by (auto simp: recvmsg_x_fn_def Let_def split_beta)
  from r False f obtain msgs where
    ms: "(case fn of Some recvmsg_x \<Rightarrow> call_recvmsg_x k recvmsg_x fd b msgs w1
         | None \<Rightarrow> macos_plain_recv k fd b w1) = Returns (r, b', w')"
    by (auto simp: macos_try_recv_batch_def Let_def elim!: outcome_bind_ReturnsE split: option.splits)
  have "R w1 w'"
  proof (cases fn)
    case None
    with ms recv_loop_frame [OF rx] show ?thesis unfolding macos_plain_recv_def by simp
  next
    case (Some g)
    with ms fn obtain v ms' where
      "retry_eintr k (\<lambda>ms. ma_recvmsg_x A fd ms (of_nat (RecvBatchRaw_capacity b))) msgs w1 = Some (v, ms', w')"
      by (auto simp: call_recvmsg_x_def macos_retry_eintr_def option_outcome_def Let_def elim!: outcome_bind_ReturnsE
          split: option.splits sum.splits)
    then show ?thesis
      by (rule retry_eintr_frame [OF pre, rotated]) (use rxx in \<open>metis snd_conv\<close>)
  qed
  with one show ?thesis using preorder_rel_trans [OF pre] by blast
qed

lemma windows_send_loop_frame:
  assumes "winsock_tx_frame W k R" and "windows_send_loop W k fd m b is_conn is sent w = Returns (r, w')"
  shows "R w w'"
  using assms(2)
proof (induction "is" arbitrary: sent w)
  case Nil
  then show ?case using assms(1) by (simp add: winsock_tx_frame_def preorder_rel_def)
next
  case (Cons i rest)
  from Cons.prems obtain data addr where e: "SendBatchRaw_entry m b i = Returns (data, addr)"
    by (auto elim!: outcome_bind_ReturnsE)
  obtain rc l w1 where s: "ws_WSASendMsg W fd (wsa_tx_msg (k_libc k) m is_conn data addr) w = (rc, l, w1)"
    by (metis surj_pair)
  then have one: "R w w1" using assms(1) unfolding winsock_tx_frame_def by (metis snd_conv)
  from Cons.prems e s have "w' = w1 \<or> windows_send_loop W k fd m b is_conn rest (sent + 1) w1 = Returns (r, w')"
    by (auto simp: Let_def split: if_splits)
  with Cons.IH [of "sent + 1" w1] preorder_rel_trans [of R w w1 w'] one assms(1) show ?case
    by (auto simp: winsock_tx_frame_def)
qed

lemma windows_send_frame:
  assumes fr: "winsock_tx_frame W k R" and r: "windows_try_send_batch W k fd m b w = Returns (r, w')"
  shows "R w w'"
proof -
  obtain conn w1 where c: "win_is_connected k fd w = (conn, w1)" by (metis surj_pair)
  then have one: "R w w1"
    using fr by (auto simp: winsock_tx_frame_def win_is_connected_def Let_def split_beta)
  from r c have "w' = w \<or> windows_send_loop W k fd m b conn [0 ..< SendBatchRaw_len b] 0 w1 = Returns (r, w')"
    by (auto simp: windows_try_send_batch_def Let_def split: if_splits)
  with one windows_send_loop_frame [OF fr] preorder_rel_trans [of R w w1 w'] preorder_rel_refl [of R w] fr show ?thesis
    by (auto simp: winsock_tx_frame_def)
qed

lemma get_wsa_recvmsg_frame:
  assumes fr: "winsock_rx_frame W k R"
  shows "R w (snd (get_wsa_recvmsg W k w))"
proof -
  have pre: "preorder_rel R" using fr by (simp add: winsock_rx_frame_def)
  have s: "R w (snd (ws_socket W af ty pr w))" "R w (snd (snd (ws_WSAIoctl W fd p w)))"
    "R w (k_close k (fst (ws_socket W af ty pr v)) w)" "R w (ws_set_ptr W q w)" for af ty pr fd p q v w
    using fr by (simp_all add: winsock_rx_frame_def)
  note step = preorder_rel_trans [OF pre, OF _ s(1)] preorder_rel_trans [OF pre, OF _ s(2)]
    preorder_rel_trans [OF pre, OF _ s(3)] preorder_rel_trans [OF pre, OF _ s(4)]
  show ?thesis
    using preorder_rel_refl [OF pre] s(1) step
    by (auto simp: get_wsa_recvmsg_def Let_def split_beta split: option.splits)
qed

lemma windows_recv1_frame:
  assumes fr: "winsock_rx_frame W k R" and "windows_recv1 W k fd buf w = (r, buf', w')"
  shows "R w w'"
proof -
  have pre: "preorder_rel R" using fr by (simp add: winsock_rx_frame_def)
  obtain p w1 where g: "get_wsa_recvmsg W k w = (p, w1)" by (metis surj_pair)
  with get_wsa_recvmsg_frame [OF fr, of w] have one: "R w w1" by simp
  have "R w1 w'"
    using assms(2) g fr
    by (auto simp: windows_recv1_def windows_recv_one_def winsock_rx_frame_def Let_def split_beta
        split: option.splits if_splits)
  with one show ?thesis by (rule preorder_rel_trans [OF pre])
qed

lemma windows_recv_frame:
  assumes fr: "winsock_rx_frame W k R" and r: "windows_try_recv_batch W k fd b w = Returns (r, b', w')"
  shows "R w w'"
proof -
  have pre: "preorder_rel R" using fr by (simp add: winsock_rx_frame_def)
  from r have "w' = w \<or> recv_slots (k_libc k) (windows_recv1 W k fd) [0 ..< RecvBatchRaw_capacity b] 0 b w = Returns (r, b', w')"
    by (auto simp: windows_try_recv_batch_def windows_recv_slots Let_def split: if_splits)
  moreover have "R w w'"
    if "recv_slots (k_libc k) (windows_recv1 W k fd) [0 ..< RecvBatchRaw_capacity b] 0 b w = Returns (r, b', w')"
    by (rule recv_slots_frame [where take_one = "windows_recv1 W k fd", OF pre _ that]) (rule windows_recv1_frame [OF fr])
  ultimately show ?thesis using preorder_rel_refl [OF pre] by blast
qed

section \<open>The interface\<close>

locale framed_backend =
  fixes be :: "'w backend"
    and tx_respects rx_respects :: "'w kernel \<Rightarrow> ('w \<Rightarrow> 'w \<Rightarrow> bool) \<Rightarrow> bool"
  assumes send_frame: "tx_respects k R \<Longrightarrow> be_try_send be k fd m b w = Returns (r, w') \<Longrightarrow> R w w'"
    and recv_frame: "rx_respects k R \<Longrightarrow> be_try_recv be k fd rb w = Returns (r, rb', w') \<Longrightarrow> R w w'"
begin

text \<open>The wrapper adds nothing: metrics and adaptive state are the socket's own.\<close>

lemma try_send_batch_frame:
  "tx_respects k R \<Longrightarrow> try_send_batch be k m u b w = Returns (r, u', w') \<Longrightarrow> R w w'"
  unfolding try_send_batch_def
  by (auto elim!: outcome_bind_ReturnsE simp: Let_def split: sum.split_asm if_split_asm dest: send_frame)

lemma try_recv_batch_frame:
  "rx_respects k R \<Longrightarrow> try_recv_batch be k u rb w = Returns (r, u', rb', w') \<Longrightarrow> R w w'"
  unfolding try_recv_batch_def
  by (auto elim!: outcome_bind_ReturnsE simp: Let_def split: sum.split_asm if_split_asm dest: recv_frame)

end

interpretation linux_framed: framed_backend "linux_backend f" tx_frame rx_frame for f
  by unfold_locales (simp_all add: linux_backend_def linux_send_frame linux_recv_frame)

lemma fallback_recv_frame: "rx_frame k R \<Longrightarrow> fallback_try_recv_batch k fd b w = Returns (r, b', w') \<Longrightarrow> R w w'"
  unfolding fallback_try_recv_batch_def by (rule recv_loop_frame)

interpretation fallback_framed: framed_backend fallback_backend tx_frame rx_frame
  by unfold_locales (simp_all add: fallback_backend_def fallback_send_frame fallback_recv_frame)

interpretation macos_framed: framed_backend "macos_backend A" "macos_tx_frame A" "macos_rx_frame A" for A :: "'w macos_api"
  by unfold_locales (simp_all add: macos_backend_def macos_send_frame macos_recv_frame)

interpretation windows_framed: framed_backend "windows_backend W" "winsock_tx_frame W" "winsock_rx_frame W" for W :: "'w winsock"
  by unfold_locales (simp_all add: windows_backend_def windows_send_frame windows_recv_frame)

definition imp_tx_frame :: "build \<Rightarrow> 'w macos_api \<Rightarrow> 'w winsock \<Rightarrow> 'w kernel \<Rightarrow> ('w \<Rightarrow> 'w \<Rightarrow> bool) \<Rightarrow> bool" where
  "imp_tx_frame bld A W =
     (case native bld of MacOS \<Rightarrow> macos_tx_frame A | Windows \<Rightarrow> winsock_tx_frame W | _ \<Rightarrow> tx_frame)"

definition imp_rx_frame :: "build \<Rightarrow> 'w macos_api \<Rightarrow> 'w winsock \<Rightarrow> 'w kernel \<Rightarrow> ('w \<Rightarrow> 'w \<Rightarrow> bool) \<Rightarrow> bool" where
  "imp_rx_frame bld A W =
     (case native bld of MacOS \<Rightarrow> macos_rx_frame A | Windows \<Rightarrow> winsock_rx_frame W | _ \<Rightarrow> rx_frame)"

interpretation imp_framed: framed_backend "imp bld A W" "imp_tx_frame bld A W" "imp_rx_frame bld A W"
  for bld and A :: "'w macos_api" and W :: "'w winsock"
  by (cases "native bld")
     (simp_all add: imp_def imp_tx_frame_def imp_rx_frame_def linux_framed.framed_backend_axioms
       macos_framed.framed_backend_axioms windows_framed.framed_backend_axioms fallback_framed.framed_backend_axioms)

end
