(* ===== verification/Tasks.thy ===== *)
theory Tasks
  imports Socket_Runs Frame
begin

text \<open>
  Several tasks on one socket. Every method of \<^verbatim>\<open>BingerUdp\<close> takes \<^verbatim>\<open>&self\<close>, so tasks that share the
  socket may call it at the same time, and \<^verbatim>\<open>select!\<close> drops a call that has not finished. The
  asynchronous methods give way only at \<^verbatim>\<open>writable().await\<close> and \<^verbatim>\<open>readable().await\<close>: between two of
  them a task runs one attempt, and other tasks and the network run while it is parked. A
  \<open>future\<close> is what a task is doing, \<open>polls\<close> one step of one task or of the network, \<open>runs\<close> any
  interleaving of such steps with the list of answers the tasks got on the way.
\<close>

section \<open>Tasks and their steps\<close>

text \<open>
  \<open>Sending\<close> and \<open>Receiving\<close>: at the head of the loop of \<^verbatim>\<open>send_batch\<close> and \<^verbatim>\<open>recv_batch\<close>. \<open>SendParked\<close>
  and \<open>RecvParked\<close>: at its \<^verbatim>\<open>await\<close>. \<open>TrySending\<close> and \<open>TryReceiving\<close>: about to call
  \<^verbatim>\<open>try_send_batch\<close> or \<^verbatim>\<open>try_recv_batch\<close>. \<open>Dropped\<close>: the future was dropped before it had an answer.
\<close>

datatype future =
    Sending SendBatchRaw
  | SendParked SendBatchRaw
  | TrySending SendBatchRaw
  | Receiving RecvBatchRaw
  | RecvParked RecvBatchRaw
  | TryReceiving RecvBatchRaw
  | SendDone "nat io_result"
  | RecvDone "nat io_result" RecvBatchRaw
  | Dropped

text \<open>The answer a task got: its number, its batch, the result.\<close>

datatype answer =
    Sent nat SendBatchRaw "nat io_result"
  | Received nat "nat io_result" RecvBatchRaw

text \<open>What one poll of a future does to the future, the socket and the world, and whether it
  yields the result.\<close>

inductive advances ::
    "'w backend \<Rightarrow> build \<Rightarrow> 'w kernel \<Rightarrow> memory \<Rightarrow> future \<times> BingerUdp \<times> 'w \<Rightarrow> future \<times> BingerUdp \<times> 'w \<Rightarrow> bool"
  for be bld k m where
  send_answer: "try_send_batch be k m u b w = Returns (r, u1, w1) \<Longrightarrow> \<not> would_block (k_libc k) r \<Longrightarrow>
    advances be bld k m (Sending b, u, w) (SendDone r, u1, w1)"
| send_park: "try_send_batch be k m u b w = Returns (r, u1, w1) \<Longrightarrow> would_block (k_libc k) r \<Longrightarrow>
    note_blocked k (adaptive_send u1) w1 = (st, w2) \<Longrightarrow>
    advances be bld k m (Sending b, u, w) (SendParked b, u1\<lparr>adaptive_send := st\<rparr>, w2)"
| send_wake: "wait_writable bld k u w = (Inr (), w1) \<Longrightarrow>
    advances be bld k m (SendParked b, u, w) (Sending b, u, w1)"
| send_fail: "wait_writable bld k u w = (Inl e, w1) \<Longrightarrow>
    advances be bld k m (SendParked b, u, w) (SendDone (Inl e), u, w1)"
| try_send: "try_send_batch be k m u b w = Returns (r, u1, w1) \<Longrightarrow>
    advances be bld k m (TrySending b, u, w) (SendDone r, u1, w1)"
| recv_answer: "try_recv_batch be k u rb w = Returns (r, u1, rb1, w1) \<Longrightarrow> \<not> recv_blocked (k_libc k) r \<Longrightarrow>
    advances be bld k m (Receiving rb, u, w) (RecvDone r rb1, u1, w1)"
| recv_park: "try_recv_batch be k u rb w = Returns (r, u1, rb1, w1) \<Longrightarrow> recv_blocked (k_libc k) r \<Longrightarrow>
    note_blocked k (adaptive_recv u1) w1 = (st, w2) \<Longrightarrow>
    advances be bld k m (Receiving rb, u, w) (RecvParked rb1, u1\<lparr>adaptive_recv := st\<rparr>, w2)"
| recv_wake: "wait_readable bld k u w = (Inr (), w1) \<Longrightarrow>
    advances be bld k m (RecvParked rb, u, w) (Receiving rb, u, w1)"
| recv_fail: "wait_readable bld k u w = (Inl e, w1) \<Longrightarrow>
    advances be bld k m (RecvParked rb, u, w) (RecvDone (Inl e) rb, u, w1)"
| try_recv: "try_recv_batch be k u rb w = Returns (r, u1, rb1, w1) \<Longrightarrow>
    advances be bld k m (TryReceiving rb, u, w) (RecvDone r rb1, u1, w1)"
| drop_send: "advances be bld k m (Sending b, u, w) (Dropped, u, w)"
| drop_send_parked: "advances be bld k m (SendParked b, u, w) (Dropped, u, w)"
| drop_recv: "advances be bld k m (Receiving rb, u, w) (Dropped, u, w)"
| drop_recv_parked: "advances be bld k m (RecvParked rb, u, w) (Dropped, u, w)"

text \<open>The batch of a call that has no answer yet.\<close>

fun send_batch_of :: "future \<Rightarrow> SendBatchRaw option" where
  "send_batch_of (Sending b) = Some b"
| "send_batch_of (SendParked b) = Some b"
| "send_batch_of (TrySending b) = Some b"
| "send_batch_of _ = None"

fun recv_batch_of :: "future \<Rightarrow> RecvBatchRaw option" where
  "recv_batch_of (Receiving rb) = Some rb"
| "recv_batch_of (RecvParked rb) = Some rb"
| "recv_batch_of (TryReceiving rb) = Some rb"
| "recv_batch_of _ = None"

text \<open>The answer that task \<open>i\<close> got on its way from \<open>t\<close> to \<open>t'\<close>.\<close>

definition answered :: "nat \<Rightarrow> future \<Rightarrow> future \<Rightarrow> answer list" where
  "answered i t t' =
     (case t' of
        SendDone r \<Rightarrow> (case send_batch_of t of Some b \<Rightarrow> [Sent i b r] | None \<Rightarrow> [])
      | RecvDone r rb \<Rightarrow> (if recv_batch_of t = None then [] else [Received i r rb])
      | _ \<Rightarrow> [])"

fun answer_task :: "answer \<Rightarrow> nat" where
  "answer_task (Sent i b r) = i"
| "answer_task (Received i r rb) = i"

text \<open>A step of a task, or of the network and the other processes (\<open>env\<close>).\<close>

inductive polls ::
    "'w backend \<Rightarrow> build \<Rightarrow> 'w kernel \<Rightarrow> memory \<Rightarrow> ('w \<Rightarrow> 'w \<Rightarrow> bool)
       \<Rightarrow> future list \<times> BingerUdp \<times> 'w \<Rightarrow> answer list \<Rightarrow> future list \<times> BingerUdp \<times> 'w \<Rightarrow> bool"
  for be bld k m env where
  task: "i < length ts \<Longrightarrow> advances be bld k m (ts ! i, u, w) (t', u', w') \<Longrightarrow>
    polls be bld k m env (ts, u, w) (answered i (ts ! i) t') (ts[i := t'], u', w')"
| network: "env w w' \<Longrightarrow> polls be bld k m env (ts, u, w) [] (ts, u, w')"

inductive runs ::
    "'w backend \<Rightarrow> build \<Rightarrow> 'w kernel \<Rightarrow> memory \<Rightarrow> ('w \<Rightarrow> 'w \<Rightarrow> bool)
       \<Rightarrow> future list \<times> BingerUdp \<times> 'w \<Rightarrow> answer list \<Rightarrow> future list \<times> BingerUdp \<times> 'w \<Rightarrow> bool"
  for be bld k m env s where
  start: "runs be bld k m env s [] s"
| step: "runs be bld k m env s tr s1 \<Longrightarrow> polls be bld k m env s1 as s2 \<Longrightarrow> runs be bld k m env s (tr @ as) s2"

lemma runs_task:
  assumes "runs be bld k m env s tr (ts, u, w)" and "i < length ts" and "ts ! i = t"
    and "advances be bld k m (t, u, w) (t', u', w')" and "tr' = tr @ answered i t t'" and "ts' = ts[i := t']"
  shows "runs be bld k m env s tr' (ts', u', w')"
  using runs.step [OF assms(1) polls.task [OF assms(2)]] assms(3-6) by simp

section \<open>Every task gets one answer at most\<close>

lemma answered_task: "a \<in> set (answered i t t') \<Longrightarrow> answer_task a = i"
  by (auto simp: answered_def split: future.splits option.splits if_splits)

text \<open>A task goes on with the call it has begun.\<close>

definition same_call :: "future \<Rightarrow> future \<Rightarrow> bool" where
  "same_call t0 t \<longleftrightarrow> (send_batch_of t = None \<or> send_batch_of t0 = send_batch_of t) \<and>
     (recv_batch_of t = None \<or> recv_batch_of t0 \<noteq> None)"

lemma advances_call:
  assumes "advances be bld k m (t, u, w) (t', u', w')" and "same_call t0 t"
  shows "same_call t0 t'" and "answered i t0 t = []" and "answered i t t' = answered i t0 t'"
  using assms by (cases rule: advances.cases; simp add: same_call_def answered_def split: option.splits)+

lemma runs_answers:
  assumes "runs be bld k m env (ts, u, w) tr (ts', u', w')"
  shows "length ts' = length ts \<and>
     (\<forall>i < length ts. filter (\<lambda>a. answer_task a = i) tr = answered i (ts ! i) (ts' ! i) \<and> same_call (ts ! i) (ts' ! i))"
  using assms
proof (induction "(ts', u', w')" arbitrary: ts' u' w' rule: runs.induct)
  case start
  have "answered i t t = []" for i t by (cases t) (simp_all add: answered_def)
  then show ?case by (auto simp: same_call_def)
next
  case (step tr s1 as)
  obtain ts1 u1 w1 where s1: "s1 = (ts1, u1, w1)" by (metis surj_pair)
  note ih = step.hyps(2) [OF s1]
  from step.hyps(3) show ?case unfolding s1
  proof cases
    case (task j t')
    have "filter (\<lambda>a. answer_task a = i) (tr @ as) = answered i (ts ! i) (ts' ! i) \<and> same_call (ts ! i) (ts' ! i)"
      if i: "i < length ts" for i
    proof (cases "i = j")
      case True
      have c: "same_call (ts ! j) (ts1 ! j)" "filter (\<lambda>a. answer_task a = j) tr = answered j (ts ! j) (ts1 ! j)"
        using ih i True by simp_all
      have "filter (\<lambda>a. answer_task a = j) as = as"
        using answered_task task(1) by (auto intro!: filter_True)
      with advances_call [OF task(4) c(1)] c(2) task(1-3) True show ?thesis by simp
    next
      case False
      then have "filter (\<lambda>a. answer_task a = i) as = []"
        using answered_task task(1) by (auto intro!: filter_False)
      with ih i task(2) False show ?thesis by simp
    qed
    with ih task(2) show ?thesis by simp
  next
    case network
    with ih show ?thesis by simp
  qed
qed

section \<open>What waiting and the network respect\<close>

definition idle_frame :: "'w kernel \<Rightarrow> ('w \<Rightarrow> 'w \<Rightarrow> bool) \<Rightarrow> ('w \<Rightarrow> 'w \<Rightarrow> bool) \<Rightarrow> bool" where
  "idle_frame k env R \<longleftrightarrow> preorder_rel R \<and>
     (\<forall>fd w. R w (snd (k_writable k fd w))) \<and> (\<forall>fd w. R w (snd (k_readable k fd w))) \<and>
     (\<forall>w. R w (snd (k_now k w))) \<and> (\<forall>w w'. env w w' \<longrightarrow> R w w')"

definition unchanged :: "('w \<Rightarrow> 'a) \<Rightarrow> 'w \<Rightarrow> 'w \<Rightarrow> bool" where
  "unchanged f w w' \<longleftrightarrow> f w' = f w"

text \<open>Datagrams may arrive at the end of the queue; nobody else takes any.\<close>

definition only_arrivals :: "('w \<Rightarrow> (bytes \<times> SocketAddr) list) \<Rightarrow> 'w \<Rightarrow> 'w \<Rightarrow> bool" where
  "only_arrivals rxq w w' \<longleftrightarrow> (\<exists>a. rxq w' = rxq w @ a)"

lemma preorder_unchanged [simp]: "preorder_rel (unchanged f)"
  by (simp add: preorder_rel_def unchanged_def)

lemma preorder_only_arrivals [simp]: "preorder_rel (only_arrivals rxq)"
  by (auto simp: preorder_rel_def only_arrivals_def)

lemma maybe_adjust_frame:
  assumes "preorder_rel R" and "\<And>w. R w (snd (k_now k w))" and "maybe_adjust k s w = (s', w')"
  shows "R w w'"
proof -
  obtain t1 wa where a: "k_now k w = (t1, wa)" by (metis surj_pair)
  obtain t2 wb where b: "k_now k wa = (t2, wb)" by (metis surj_pair)
  have "R w wa" "R wa wb" using assms(2) [of w] assms(2) [of wa] a b by simp_all
  moreover from assms(3) a b have "w' = wa \<or> w' = wb" by (auto simp: maybe_adjust_def Let_def split: if_splits)
  ultimately show ?thesis using preorder_rel_trans [OF assms(1)] by blast
qed

lemma idle_frame_steps:
  assumes "idle_frame k env R"
  shows "preorder_rel R"
    and "note_blocked k st w = (st', w') \<Longrightarrow> R w w'"
    and "wait_writable bld k u w = (r, w') \<Longrightarrow> R w w'"
    and "wait_readable bld k u w = (r, w') \<Longrightarrow> R w w'"
    and "env w w' \<Longrightarrow> R w w'"
proof -
  show pre: "preorder_rel R" and "env w w' \<Longrightarrow> R w w'" using assms unfolding idle_frame_def by blast+
  have now: "\<And>w. R w (snd (k_now k w))" using assms by (simp add: idle_frame_def)
  show "note_blocked k st w = (st', w') \<Longrightarrow> R w w'"
    using maybe_adjust_frame [OF pre now] preorder_rel_refl [OF pre]
    by (auto simp: note_blocked_def Let_def split: option.splits if_splits prod.splits)
  have wr: "\<And>fd w. R w (snd (k_writable k fd w))" "\<And>fd w. R w (snd (k_readable k fd w))"
    using assms by (simp_all add: idle_frame_def)
  show "wait_writable bld k u w = (r, w') \<Longrightarrow> R w w'"
    using wr(1) [of w "udp_fd u"] preorder_rel_refl [OF pre] by (auto simp: wait_writable_def split: if_splits)
  show "wait_readable bld k u w = (r, w') \<Longrightarrow> R w w'"
    using wr(2) [of w "udp_fd u"] preorder_rel_refl [OF pre] by (auto simp: wait_readable_def split: if_splits)
qed

section \<open>What the tasks send and receive\<close>

text \<open>What a send that was answered with \<open>r\<close> may have put on the wire: the first datagrams of its
  batch, in order, as many as it reports.\<close>

definition sent_part :: "libc \<Rightarrow> memory \<Rightarrow> SendBatchRaw \<Rightarrow> nat io_result \<Rightarrow> tx_msg list \<Rightarrow> bool" where
  "sent_part c m b r part \<longleftrightarrow> (\<exists>n is_conn. n \<le> SendBatchRaw_len b \<and>
     part = take n (map (strip_name is_conn) (datagrams c m b)) \<and>
     (r = Inr n \<or> (\<exists>e. r = Inl e \<and> n < SendBatchRaw_len b)))"

text \<open>What a receive that was answered with \<open>r\<close> took off the queue: nothing on an error, else the
  packets its batch now shows.\<close>

definition recv_part :: "nat \<Rightarrow> nat io_result \<Rightarrow> RecvBatchRaw \<Rightarrow> (bytes \<times> SocketAddr) list \<Rightarrow> bool" where
  "recv_part n r rb part \<longleftrightarrow>
     (case r of
        Inl _ \<Rightarrow> part = []
      | Inr l \<Rightarrow> l = length part \<and> (part = [] \<or> rb_packets rb = map (cut_to n) part))"

fun sends :: "answer list \<Rightarrow> (SendBatchRaw \<times> nat io_result) list" where
  "sends [] = []"
| "sends (Sent i b r # as) = (b, r) # sends as"
| "sends (Received i r rb # as) = sends as"

fun receives :: "answer list \<Rightarrow> (nat io_result \<times> RecvBatchRaw) list" where
  "receives [] = []"
| "receives (Sent i b r # as) = receives as"
| "receives (Received i r rb # as) = (r, rb) # receives as"

lemma sends_append [simp]: "sends (as @ bs) = sends as @ sends bs"
  by (induction as rule: sends.induct) simp_all

lemma receives_append [simp]: "receives (as @ bs) = receives as @ receives bs"
  by (induction as rule: receives.induct) simp_all

text \<open>The batches of the tasks are what the backend is good for; a send that was parked had
  something to send.\<close>

fun parked_empty :: "future \<Rightarrow> bool" where
  "parked_empty (SendParked b) \<longleftrightarrow> SendBatchRaw_len b = 0"
| "parked_empty _ \<longleftrightarrow> False"

definition sends_good :: "memory \<Rightarrow> (SendBatchRaw \<Rightarrow> bool) \<Rightarrow> future \<Rightarrow> bool" where
  "sends_good m sendable t \<longleftrightarrow> \<not> parked_empty t \<and>
     (case send_batch_of t of None \<Rightarrow> True | Some b \<Rightarrow> sb_inv b \<and> sb_readable m b \<and> sendable b)"

definition recvs_good :: "nat \<Rightarrow> future \<Rightarrow> bool" where
  "recvs_good n t \<longleftrightarrow>
     (case recv_batch_of t of None \<Rightarrow> True
      | Some rb \<Rightarrow> rb_inv n rb \<and> RecvBatchRaw_capacity rb < 2 ^ 32 \<and> 0 < RecvBatchRaw_capacity rb)"

locale shared_udp =
  udp_backend be tx_ok sendable tx_contract rx_ok + framed_backend be tx_respects rx_respects
  for be :: "'w backend" and tx_ok sendable tx_contract rx_ok tx_respects rx_respects
begin

text \<open>One attempt to send, blocked or not.\<close>

lemma try_send_part:
  assumes "tx_contract k txlog" and "sb_inv b" and "sb_readable m b" and "sendable b"
    and "try_send_batch be k m u b w = Returns (r, u', w')"
  shows "\<exists>part. txlog w' = txlog w @ part \<and> sent_part (k_libc k) m b r part \<and> (would_block (k_libc k) r \<longrightarrow> part = [])"
  using send.prefix_result [OF assms(1-4) try_send_batch_Returns(1) [OF assms(5)]]
  unfolding sent_part_def by (auto elim!: would_blockE)

lemma advances_log:
  assumes "tx_contract k txlog" and "rx_respects k (unchanged txlog)" and "idle_frame k env (unchanged txlog)"
    and "sends_good m sendable t" and "advances be bld k m (t, u, w) (t', u', w')"
  shows "\<exists>parts. txlog w' = txlog w @ concat parts \<and>
     list_all2 (\<lambda>(b, r). sent_part (k_libc k) m b r) (sends (answered i t t')) parts \<and> sends_good m sendable t'"
proof -
  note idle = idle_frame_steps(2-4) [OF assms(3), unfolded unchanged_def]
  note recv = try_recv_batch_frame [OF assms(2), unfolded unchanged_def]
  have silent: "?thesis" if "txlog w' = txlog w" "sends (answered i t t') = []" "sends_good m sendable t'"
    using that by (intro exI [of _ "[]"]) simp
  have one: "?thesis" if "txlog w' = txlog w @ part" "sends (answered i t t') = [(b, r)]" "sends_good m sendable t'"
    "sent_part (k_libc k) m b r part" for b r part
    using that by (intro exI [of _ "[part]"]) simp
  have good: "sb_inv b" "sb_readable m b" "sendable b" if "send_batch_of t = Some b" for b
    using assms(4) that by (simp_all add: sends_good_def)
  show ?thesis
    using assms(5)
  proof cases
    case (send_answer b r)
    with try_send_part [OF assms(1) good send_answer(3)] one show ?thesis
      by (auto simp: answered_def sends_good_def)
  next
    case (send_park b r u1 w1 st)
    with try_send_part [OF assms(1) good send_park(4)] obtain part where
      "txlog w1 = txlog w" "sent_part (k_libc k) m b r part" by auto
    moreover from this(2) send_park(5) have "0 < SendBatchRaw_len b" by (auto simp: sent_part_def)
    ultimately show ?thesis
      using send_park idle(1) [OF send_park(6)] assms(4) by (intro silent) (simp_all add: answered_def sends_good_def)
  next
    case (send_wake b)
    with idle(2) [OF send_wake(4)] assms(4) show ?thesis
      by (intro silent) (auto simp: answered_def sends_good_def)
  next
    case (send_fail e b)
    with assms(4) have "sent_part (k_libc k) m b (Inl e) []"
      unfolding sent_part_def by (intro exI [of _ 0]) (simp add: sends_good_def)
    with send_fail idle(2) [OF send_fail(4)] one [of "[]"] show ?thesis by (simp add: answered_def sends_good_def)
  next
    case (try_send b r)
    with try_send_part [OF assms(1) good try_send(3)] one show ?thesis
      by (auto simp: answered_def sends_good_def)
  qed (use assms(4) idle recv in \<open>intro silent; force simp: answered_def sends_good_def\<close>)+
qed

lemma runs_log:
  assumes "tx_contract k txlog" and "rx_respects k (unchanged txlog)" and "idle_frame k env (unchanged txlog)"
    and "list_all (sends_good m sendable) ts" and "runs be bld k m env (ts, u, w) tr (ts', u', w')"
  shows "\<exists>parts. txlog w' = txlog w @ concat parts \<and>
     list_all2 (\<lambda>(b, r). sent_part (k_libc k) m b r) (sends tr) parts \<and> list_all (sends_good m sendable) ts'"
  using assms(5)
proof (induction "(ts', u', w')" arbitrary: ts' u' w' rule: runs.induct)
  case start
  then show ?case using assms(4) by (intro exI [of _ "[]"]) simp
next
  case (step tr s1 as)
  obtain ts1 u1 w1 where s1: "s1 = (ts1, u1, w1)" by (metis surj_pair)
  from step.hyps(2) [OF s1] obtain parts where
    ih: "txlog w1 = txlog w @ concat parts" "list_all2 (\<lambda>(b, r). sent_part (k_libc k) m b r) (sends tr) parts"
      "list_all (sends_good m sendable) ts1" by blast
  from step.hyps(3) show ?case unfolding s1
  proof cases
    case (task j t')
    from ih(3) task(3) have "sends_good m sendable (ts1 ! j)" by (simp add: list_all_length)
    from advances_log [OF assms(1-3) this task(4), of j] task(1) obtain ps where
      ps: "txlog w' = txlog w1 @ concat ps" "list_all2 (\<lambda>(b, r). sent_part (k_libc k) m b r) (sends as) ps"
        "sends_good m sendable t'" by blast
    have "list_all (sends_good m sendable) ts'"
      using ih(3) ps(3) task(2,3) by (simp add: list_all_length nth_list_update)
    with ih ps show ?thesis
      by (intro exI [of _ "parts @ ps"]) (simp add: list_all2_appendI)
  next
    case network
    with ih idle_frame_steps(5) [OF assms(3)] show ?thesis
      by (intro exI [of _ parts]) (simp add: unchanged_def)
  qed
qed

end

text \<open>With a backend that delivers a queue, the receivers share the queue.\<close>

locale shared_queue =
  queue_udp be tx_ok sendable tx_contract rx_ok queue_ok roomy admits + framed_backend be tx_respects rx_respects
  for be :: "'w backend" and tx_ok sendable tx_contract rx_ok queue_ok roomy admits tx_respects rx_respects
begin

lemma try_recv_part:
  assumes "queue_ok k rxq" and "rx_ok k" and "roomy n" and "\<And>w. list_all (admits n) (rxq w)"
    and "rb_inv n b" and "RecvBatchRaw_capacity b < 2 ^ 32" and "0 < RecvBatchRaw_capacity b"
    and "try_recv_batch be k u b w = Returns (r, u', b', w')"
  shows "\<exists>part. rxq w = part @ rxq w' \<and> recv_part n r b' part \<and> (recv_blocked (k_libc k) r \<longrightarrow> part = [])"
    and "rb_inv n b' \<and> RecvBatchRaw_capacity b' = RecvBatchRaw_capacity b"
proof -
  note r = try_recv_batch_Returns(1) [OF assms(8)]
  show "rb_inv n b' \<and> RecvBatchRaw_capacity b' = RecvBatchRaw_capacity b"
    by (rule recv.keeps_inv [OF assms(2,5) r])
  show "\<exists>part. rxq w = part @ rxq w' \<and> recv_part n r b' part \<and> (recv_blocked (k_libc k) r \<longrightarrow> part = [])"
  proof (cases "rxq w = []")
    case True
    with queue.starved [OF assms(1,5-7) True assms(3), of "udp_fd u"] r show ?thesis
      by (intro exI [of _ "[]"]) (auto simp: recv_part_def)
  next
    case False
    have "list_all (admits n) (take (RecvBatchRaw_capacity b) (rxq w))"
      using assms(4) [of w] by (auto simp: list_all_iff dest: in_set_takeD)
    from queue.delivers [OF assms(1,2,5-7) False assms(3) this, of "udp_fd u"] r False assms(7) show ?thesis
      by (intro exI [of _ "take (RecvBatchRaw_capacity b) (rxq w)"])
         (auto simp: recv_part_def recv_blocked_def min.commute)
  qed
qed

lemma advances_queue:
  assumes "queue_ok k rxq" and "rx_ok k" and "roomy n" and "\<And>w. list_all (admits n) (rxq w)"
    and "tx_respects k (only_arrivals rxq)" and "idle_frame k env (only_arrivals rxq)"
    and "recvs_good n t" and "advances be bld k m (t, u, w) (t', u', w')"
  shows "\<exists>parts a. rxq w @ a = concat parts @ rxq w' \<and>
     list_all2 (\<lambda>(r, rb). recv_part n r rb) (receives (answered i t t')) parts \<and> recvs_good n t'"
proof -
  have none: "?thesis" if "only_arrivals rxq w w'" "receives (answered i t t') = []" "recvs_good n t'"
    using that unfolding only_arrivals_def by (elim exE, intro exI [of _ "[]"] exI) simp
  have one: "?thesis" if "rxq w = part @ rxq w'" "receives (answered i t t') = [(r, rb)]" "recvs_good n t'"
    "recv_part n r rb part" for r rb part
    using that by (intro exI [of _ "[part]"] exI [of _ "[]"]) simp
  note idle = idle_frame_steps(2-4) [OF assms(6)]
  note send = try_send_batch_frame [OF assms(5)]
  have good: "rb_inv n b" "RecvBatchRaw_capacity b < 2 ^ 32" "0 < RecvBatchRaw_capacity b"
    if "recv_batch_of t = Some b" for b
    using assms(7) that by (simp_all add: recvs_good_def)
  note part = try_recv_part [OF assms(1-4) good]
  have refl: "only_arrivals rxq w w" by (simp add: only_arrivals_def)
  show ?thesis
    using assms(8)
  proof cases
    case (recv_answer rb r rb1)
    with part(1) [OF _ _ _ recv_answer(3)] one show ?thesis
      by (auto simp: answered_def recvs_good_def)
  next
    case (recv_park rb r u1 rb1 w1 st)
    with part [OF _ _ _ recv_park(4)] have "rxq w = rxq w1" "recvs_good n t'"
      using good by (auto simp: recvs_good_def)
    with recv_park idle(1) [OF recv_park(6)] show ?thesis
      by (intro none) (auto simp: answered_def only_arrivals_def)
  next
    case (recv_fail e rb)
    from idle(3) [OF recv_fail(4)] obtain a where "rxq w' = rxq w @ a" unfolding only_arrivals_def by blast
    with recv_fail show ?thesis
      by (intro exI [of _ "[[]]"] exI [of _ a]) (simp add: answered_def recvs_good_def recv_part_def)
  next
    case (try_recv rb r rb1)
    with part(1) [OF _ _ _ try_recv(3)] one show ?thesis
      by (auto simp: answered_def recvs_good_def)
  next
    case (send_park b r u1 w1 st)
    with send [OF send_park(4)] idle(1) [OF send_park(6)] show ?thesis
      using preorder_rel_trans [OF preorder_only_arrivals, of rxq w w1 w'] assms(7)
      by (intro none) (simp_all add: answered_def recvs_good_def)
  qed (use assms(7) idle send refl in \<open>intro none; force simp: answered_def recvs_good_def\<close>)+
qed

lemma runs_queue:
  assumes "queue_ok k rxq" and "rx_ok k" and "roomy n" and "\<And>w. list_all (admits n) (rxq w)"
    and "tx_respects k (only_arrivals rxq)" and "idle_frame k env (only_arrivals rxq)"
    and "list_all (recvs_good n) ts" and "runs be bld k m env (ts, u, w) tr (ts', u', w')"
  shows "\<exists>parts a. rxq w @ a = concat parts @ rxq w' \<and>
     list_all2 (\<lambda>(r, rb). recv_part n r rb) (receives tr) parts \<and> list_all (recvs_good n) ts'"
  using assms(8)
proof (induction "(ts', u', w')" arbitrary: ts' u' w' rule: runs.induct)
  case start
  then show ?case using assms(7) by (intro exI [of _ "[]"]) simp
next
  case (step tr s1 as)
  obtain ts1 u1 w1 where s1: "s1 = (ts1, u1, w1)" by (metis surj_pair)
  from step.hyps(2) [OF s1] obtain parts a where
    ih: "rxq w @ a = concat parts @ rxq w1" "list_all2 (\<lambda>(r, rb). recv_part n r rb) (receives tr) parts"
      "list_all (recvs_good n) ts1" by blast
  from step.hyps(3) show ?case unfolding s1
  proof cases
    case (task j t')
    from ih(3) task(3) have "recvs_good n (ts1 ! j)" by (simp add: list_all_length)
    from advances_queue [OF assms(1-6) this task(4), of j] task(1) obtain ps a' where
      ps: "rxq w1 @ a' = concat ps @ rxq w'" "list_all2 (\<lambda>(r, rb). recv_part n r rb) (receives as) ps"
        "recvs_good n t'" by blast
    have "list_all (recvs_good n) ts'"
      using ih(3) ps(3) task(2,3) by (simp add: list_all_length nth_list_update)
    moreover have "rxq w @ (a @ a') = concat (parts @ ps) @ rxq w'"
      using ih(1) ps(1) by (metis append.assoc concat_append)
    ultimately show ?thesis
      using ih(2) ps(2) by (intro exI [of _ "parts @ ps"] exI [of _ "a @ a'"]) (simp add: list_all2_appendI)
  next
    case network
    with idle_frame_steps(5) [OF assms(6)] obtain a' where "rxq w' = rxq w1 @ a'" by (auto simp: only_arrivals_def)
    with ih network show ?thesis by (intro exI [of _ parts] exI [of _ "a @ a'"]) simp
  qed
qed

end

interpretation imp_shared: shared_udp "imp bld A W" "imp_tx_ok bld A" "imp_sendable bld" "imp_log bld A W"
  "imp_rx_ok bld A W" "imp_tx_frame bld A W" "imp_rx_frame bld A W" for bld and A :: "'w macos_api" and W :: "'w winsock"
  unfolding shared_udp_def using imp_udp.udp_backend_axioms imp_framed.framed_backend_axioms by blast

lemma imp_shared_queue:
  assumes "native bld = Linux \<longrightarrow> \<not> feat_gro (build_rx bld)"
  shows "shared_queue (imp bld A W) (imp_tx_ok bld A) (imp_sendable bld) (imp_log bld A W) (imp_rx_ok bld A W)
    (imp_queue bld A W) (imp_roomy bld) (imp_admits bld) (imp_tx_frame bld A W) (imp_rx_frame bld A W)"
  unfolding shared_queue_def using imp_queue_udp [OF assms] imp_framed.framed_backend_axioms by blast

interpretation fallback_shared: shared_queue fallback_backend count_contract "\<lambda>_. True" log_contract
  recv_contract queue_contract "\<lambda>_. True" "\<lambda>_ _. True" tx_frame rx_frame
  unfolding shared_queue_def using fallback_udp.queue_udp_axioms fallback_framed.framed_backend_axioms by blast

section \<open>The counters\<close>

fun ok_count :: "nat io_result \<Rightarrow> nat" where
  "ok_count (Inr n) = n"
| "ok_count (Inl e) = 0"

definition sent_total :: "answer list \<Rightarrow> nat" where
  "sent_total tr = sum_list (map (\<lambda>(b, r). ok_count r) (sends tr))"

definition received_total :: "answer list \<Rightarrow> nat" where
  "received_total tr = sum_list (map (\<lambda>(r, rb). ok_count r) (receives tr))"

text \<open>\<^verbatim>\<open>packets_sent\<close> and \<^verbatim>\<open>packets_received\<close>, of a socket with metrics.\<close>

definition packet_counts :: "BingerUdp \<Rightarrow> (u64 \<times> u64) option" where
  "packet_counts u = map_option (\<lambda>mt. (c_packets_sent mt, c_packets_received mt)) (metrics u)"

definition count_more :: "nat \<Rightarrow> nat \<Rightarrow> (u64 \<times> u64) option \<Rightarrow> (u64 \<times> u64) option" where
  "count_more s r = map_option (\<lambda>(x, y). (x + of_nat s, y + of_nat r))"

lemma count_more_add: "count_more s r (count_more s' r' c) = count_more (s' + s) (r' + r) c"
  by (cases c) (auto simp: count_more_def)

lemma count_more_0 [simp]: "count_more 0 0 c = c"
  by (cases c) (auto simp: count_more_def)

lemma packet_counts_adaptive [simp]:
  "packet_counts (u\<lparr>adaptive_send := x\<rparr>) = packet_counts u" "packet_counts (u\<lparr>adaptive_recv := x\<rparr>) = packet_counts u"
  by (simp_all add: packet_counts_def metrics_def)

lemma try_send_counts:
  assumes "try_send_batch be k m u b w = Returns (r, u', w')"
  shows "packet_counts u' = count_more (ok_count r) 0 (packet_counts u)"
  using assms unfolding try_send_batch_def
  by (auto elim!: outcome_bind_ReturnsE simp: packet_counts_def metrics_def count_more_def on_metrics_def Let_def
      counter_incs option.map_comp o_def split: sum.split_asm if_split_asm)

lemma try_recv_counts:
  assumes "try_recv_batch be k u b w = Returns (r, u', b', w')"
  shows "packet_counts u' = count_more 0 (ok_count r) (packet_counts u)"
  using assms unfolding try_recv_batch_def
  by (auto elim!: outcome_bind_ReturnsE simp: packet_counts_def metrics_def count_more_def on_metrics_def Let_def
      counter_incs option.map_comp o_def split: sum.split_asm if_split_asm)

lemma blocked_count: "would_block c r \<Longrightarrow> ok_count r = 0" "recv_blocked c r \<Longrightarrow> ok_count r = 0"
  by (cases r; simp add: recv_blocked_def)+

lemma advances_counts:
  assumes "advances be bld k m (t, u, w) (t', u', w')"
  shows "packet_counts u' = count_more (sent_total (answered i t t')) (received_total (answered i t t')) (packet_counts u)"
  using assms
  by (cases rule: advances.cases)
     (auto simp: answered_def sent_total_def received_total_def blocked_count dest!: try_send_counts try_recv_counts)

text \<open>The counters of a shared socket add up: after any interleaving, \<^verbatim>\<open>packets_sent\<close> has grown by
  the sum of the \<^verbatim>\<open>Ok\<close> results of the answered sends and \<^verbatim>\<open>packets_received\<close> by that of the answered
  receives (modulo \<open>2 ^ 64\<close>); blocked attempts and dropped calls add nothing.\<close>

lemma runs_counts:
  assumes "runs be bld k m env (ts, u, w) tr (ts', u', w')"
  shows "packet_counts u' = count_more (sent_total tr) (received_total tr) (packet_counts u)"
  using assms
proof (induction "(ts', u', w')" arbitrary: ts' u' w' rule: runs.induct)
  case start
  show ?case by (simp add: sent_total_def received_total_def)
next
  case (step tr s1 as)
  obtain ts1 u1 w1 where s1: "s1 = (ts1, u1, w1)" by (metis surj_pair)
  from step.hyps(3) have "packet_counts u' = count_more (sent_total as) (received_total as) (packet_counts u1)"
    unfolding s1 by cases (auto dest: advances_counts simp: sent_total_def received_total_def)
  with step.hyps(2) [OF s1] show ?case by (simp add: count_more_add sent_total_def received_total_def)
qed

section \<open>One task alone\<close>

text \<open>A blocked attempt, up to the \<^verbatim>\<open>await\<close>.\<close>

inductive send_blocks ::
    "'w backend \<Rightarrow> 'w kernel \<Rightarrow> memory \<Rightarrow> SendBatchRaw \<Rightarrow> BingerUdp \<times> 'w \<Rightarrow> BingerUdp \<times> 'w \<Rightarrow> bool"
  for be k m b where
  "try_send_batch be k m u b w = Returns (r, u1, w1) \<Longrightarrow> would_block (k_libc k) r \<Longrightarrow>
    note_blocked k (adaptive_send u1) w1 = (st, w2) \<Longrightarrow> send_blocks be k m b (u, w) (u1\<lparr>adaptive_send := st\<rparr>, w2)"

inductive recv_blocks ::
    "'w backend \<Rightarrow> 'w kernel \<Rightarrow> BingerUdp \<times> RecvBatchRaw \<times> 'w \<Rightarrow> BingerUdp \<times> RecvBatchRaw \<times> 'w \<Rightarrow> bool"
  for be k where
  "try_recv_batch be k u b w = Returns (r, u1, b1, w1) \<Longrightarrow> recv_blocked (k_libc k) r \<Longrightarrow>
    note_blocked k (adaptive_recv u1) w1 = (st, w2) \<Longrightarrow>
    recv_blocks be k (u, b, w) (u1\<lparr>adaptive_recv := st\<rparr>, b1, w2)"

lemma send_blocks_then:
  assumes "send_blocks be k m b s (u, w)"
  shows "wait_writable bld k u w = (Inr (), w') \<Longrightarrow> send_waits be bld k m b s (u, w')"
    and "wait_writable bld k u w = (Inl e, w') \<Longrightarrow> send_stops be bld k m b s (Returns (Inl e, u, w'))"
  using assms by (auto elim!: send_blocks.cases intro: send_waits.wait send_stops.failed)

lemma recv_blocks_then:
  assumes "recv_blocks be k s (u, b, w)"
  shows "wait_readable bld k u w = (Inr (), w') \<Longrightarrow> recv_waits be bld k s (u, b, w')"
    and "wait_readable bld k u w = (Inl e, w') \<Longrightarrow> recv_stops be bld k s (Returns (Inl e, u, b, w'))"
  using assms by (auto elim!: recv_blocks.cases intro: recv_waits.wait recv_stops.failed)

text \<open>Where the future of a single \<^verbatim>\<open>send_batch\<close> or \<^verbatim>\<open>recv_batch\<close> can be.\<close>

definition send_stage ::
    "'w backend \<Rightarrow> build \<Rightarrow> 'w kernel \<Rightarrow> memory \<Rightarrow> SendBatchRaw \<Rightarrow> BingerUdp \<times> 'w \<Rightarrow> future \<Rightarrow> BingerUdp \<Rightarrow> 'w \<Rightarrow> bool" where
  "send_stage be bld k m b s t u w \<longleftrightarrow>
     (case t of
        Sending b' \<Rightarrow> b' = b \<and> (send_waits be bld k m b)\<^sup>*\<^sup>* s (u, w)
      | SendParked b' \<Rightarrow> b' = b \<and> (\<exists>s0. (send_waits be bld k m b)\<^sup>*\<^sup>* s s0 \<and> send_blocks be k m b s0 (u, w))
      | SendDone r \<Rightarrow> (\<exists>s0. (send_waits be bld k m b)\<^sup>*\<^sup>* s s0 \<and> send_stops be bld k m b s0 (Returns (r, u, w)))
      | Dropped \<Rightarrow> True
      | _ \<Rightarrow> False)"

definition recv_stage ::
    "'w backend \<Rightarrow> build \<Rightarrow> 'w kernel \<Rightarrow> BingerUdp \<times> RecvBatchRaw \<times> 'w \<Rightarrow> future \<Rightarrow> BingerUdp \<Rightarrow> 'w \<Rightarrow> bool" where
  "recv_stage be bld k s t u w \<longleftrightarrow>
     (case t of
        Receiving b \<Rightarrow> (recv_waits be bld k)\<^sup>*\<^sup>* s (u, b, w)
      | RecvParked b \<Rightarrow> (\<exists>s0. (recv_waits be bld k)\<^sup>*\<^sup>* s s0 \<and> recv_blocks be k s0 (u, b, w))
      | RecvDone r b \<Rightarrow> (\<exists>s0. (recv_waits be bld k)\<^sup>*\<^sup>* s s0 \<and> recv_stops be bld k s0 (Returns (r, u, b, w)))
      | Dropped \<Rightarrow> True
      | _ \<Rightarrow> False)"

lemma send_stage_step:
  assumes "send_stage be bld k m b s t u w" and "advances be bld k m (t, u, w) (t', u', w')"
  shows "send_stage be bld k m b s t' u' w'"
  using assms(2)
proof cases
  case (send_answer b' r)
  with assms(1) show ?thesis by (auto simp: send_stage_def intro!: exI [of _ "(u, w)"] send_stops.answer)
next
  case (send_park b' r u1 w1 st)
  with assms(1) show ?thesis by (auto simp: send_stage_def intro!: exI [of _ "(u, w)"] send_blocks.intros)
next
  case (send_wake b')
  with assms(1) show ?thesis
    by (auto simp: send_stage_def dest: send_blocks_then(1) intro: rtranclp.rtrancl_into_rtrancl)
next
  case (send_fail e b')
  with assms(1) show ?thesis by (auto simp: send_stage_def dest: send_blocks_then(2))
qed (use assms(1) in \<open>simp_all add: send_stage_def\<close>)

lemma recv_stage_step:
  assumes "recv_stage be bld k s t u w" and "advances be bld k m (t, u, w) (t', u', w')"
  shows "recv_stage be bld k s t' u' w'"
  using assms(2)
proof cases
  case (recv_answer rb r rb1)
  with assms(1) show ?thesis by (auto simp: recv_stage_def intro!: exI [of _ "(u, rb, w)"] recv_stops.answer)
next
  case (recv_park rb r u1 rb1 w1 st)
  with assms(1) show ?thesis by (auto simp: recv_stage_def intro!: exI [of _ "(u, rb, w)"] recv_blocks.intros)
next
  case (recv_wake rb)
  with assms(1) show ?thesis
    by (auto simp: recv_stage_def dest: recv_blocks_then(1) intro: rtranclp.rtrancl_into_rtrancl)
next
  case (recv_fail e rb)
  with assms(1) show ?thesis by (auto simp: recv_stage_def dest: recv_blocks_then(2))
qed (use assms(1) in \<open>simp_all add: recv_stage_def\<close>)

text \<open>A run of one task, without a network, keeps what its steps keep.\<close>

lemma solo_induct:
  assumes "runs be bld k m (\<lambda>_ _. False) ([t], u, w) tr (ts', u', w')" and "I t u w"
    and "\<And>t u w t' u' w'. I t u w \<Longrightarrow> advances be bld k m (t, u, w) (t', u', w') \<Longrightarrow> I t' u' w'"
  shows "\<exists>t'. ts' = [t'] \<and> I t' u' w'"
  using assms(1)
proof (induction "(ts', u', w')" arbitrary: ts' u' w' rule: runs.induct)
  case start
  then show ?case using assms(2) by simp
next
  case (step tr s1 as)
  obtain ts1 u1 w1 where s1: "s1 = (ts1, u1, w1)" by (metis surj_pair)
  from step.hyps(2) [OF s1] obtain t1 where "ts1 = [t1]" "I t1 u1 w1" by blast
  with step.hyps(3) assms(3) show ?case unfolding s1 by (auto elim!: polls.cases)
qed

lemma solo_advance:
  assumes "runs be bld k m env ([t0], u0, w0) tr ([t], u, w)" and "advances be bld k m (t, u, w) (t', u', w')"
  shows "\<exists>tr'. runs be bld k m env ([t0], u0, w0) tr' ([t'], u', w')"
  using runs.step [OF assms(1) polls.task [of 0 "[t]"]] assms(2) by auto

lemma solo_send_waits:
  assumes "(send_waits be bld k m b)\<^sup>*\<^sup>* (u, w) s"
  shows "\<exists>tr. runs be bld k m env ([Sending b], u, w) tr ([Sending b], s)"
  using assms
proof (induction rule: rtranclp_induct)
  case base
  show ?case using runs.start by blast
next
  case (step s s')
  from step.IH obtain tr where tr: "runs be bld k m env ([Sending b], u, w) tr ([Sending b], s)" ..
  from step.hyps(2) show ?case
  proof cases
    case (wait u0 w0 r u1 w1 st w2 w3)
    from solo_advance [OF tr [unfolded wait(1)] advances.send_park [OF wait(3-5)]] obtain tr' where
      "runs be bld k m env ([Sending b], u, w) tr' ([SendParked b], u1\<lparr>adaptive_send := st\<rparr>, w2)" ..
    from solo_advance [OF this advances.send_wake [OF wait(6)]] show ?thesis unfolding wait(2) .
  qed
qed

lemma solo_recv_waits:
  assumes "(recv_waits be bld k)\<^sup>*\<^sup>* (u, b, w) s"
  shows "\<exists>tr. runs be bld k m env ([Receiving b], u, w) tr ([Receiving (fst (snd s))], fst s, snd (snd s))"
  using assms
proof (induction rule: rtranclp_induct)
  case base
  show ?case using runs.start by force
next
  case (step s s')
  from step.hyps(2) show ?case
  proof cases
    case (wait u0 b0 w0 r u1 b1 w1 st w2 w3)
    from step.IH wait(1) obtain tr where "runs be bld k m env ([Receiving b], u, w) tr ([Receiving b0], u0, w0)" by auto
    from solo_advance [OF this advances.recv_park [OF wait(3-5)]] obtain tr' where
      "runs be bld k m env ([Receiving b], u, w) tr' ([RecvParked b1], u1\<lparr>adaptive_recv := st\<rparr>, w2)" ..
    from solo_advance [OF this advances.recv_wake [OF wait(6)]] show ?thesis by (simp add: wait(2))
  qed
qed

lemma solo_send:
  "(\<exists>tr. runs be bld k m (\<lambda>_ _. False) ([Sending b], u, w) tr ([SendDone r], u', w')) \<longleftrightarrow>
     send_batch be bld k m u b w = Returns (r, u', w')"
proof
  assume "\<exists>tr. runs be bld k m (\<lambda>_ _. False) ([Sending b], u, w) tr ([SendDone r], u', w')"
  then have "send_stage be bld k m b (u, w) (SendDone r) u' w'"
    using solo_induct [of be bld k m _ u w _ _ u' w' "send_stage be bld k m b (u, w)"] send_stage_step
    by (fastforce simp: send_stage_def)
  then show "send_batch be bld k m u b w = Returns (r, u', w')"
    by (simp add: send_stage_def send_batch_Returns_iff)
next
  assume "send_batch be bld k m u b w = Returns (r, u', w')"
  then obtain s where s: "(send_waits be bld k m b)\<^sup>*\<^sup>* (u, w) s" "send_stops be bld k m b s (Returns (r, u', w'))"
    unfolding send_batch_Returns_iff by blast
  from solo_send_waits [OF s(1)] obtain tr where
    tr: "runs be bld k m (\<lambda>_ _. False) ([Sending b], u, w) tr ([Sending b], fst s, snd s)" by (metis prod.collapse)
  from s(2) show "\<exists>tr. runs be bld k m (\<lambda>_ _. False) ([Sending b], u, w) tr ([SendDone r], u', w')"
  proof cases
    case (answer u0 w0)
    from solo_advance [OF tr] advances.send_answer [OF answer(2,3)] answer(1) show ?thesis by simp
  next
    case (failed u0 w0 r0 u1 w1 st w2 e)
    from solo_advance [OF tr] advances.send_park [OF failed(4-6)] failed(1) obtain tr' where
      "runs be bld k m (\<lambda>_ _. False) ([Sending b], u, w) tr' ([SendParked b], u1\<lparr>adaptive_send := st\<rparr>, w2)" by fastforce
    from solo_advance [OF this advances.send_fail [OF failed(7)]] failed(2,3) show ?thesis by simp
  qed simp
qed

lemma solo_recv:
  "(\<exists>tr. runs be bld k m (\<lambda>_ _. False) ([Receiving rb], u, w) tr ([RecvDone r rb'], u', w')) \<longleftrightarrow>
     recv_batch be bld k u rb w = Returns (r, u', rb', w')"
proof
  assume "\<exists>tr. runs be bld k m (\<lambda>_ _. False) ([Receiving rb], u, w) tr ([RecvDone r rb'], u', w')"
  then have "recv_stage be bld k (u, rb, w) (RecvDone r rb') u' w'"
    using solo_induct [of be bld k m _ u w _ _ u' w' "recv_stage be bld k (u, rb, w)"] recv_stage_step
    by (fastforce simp: recv_stage_def)
  then show "recv_batch be bld k u rb w = Returns (r, u', rb', w')"
    by (simp add: recv_stage_def recv_batch_Returns_iff)
next
  assume "recv_batch be bld k u rb w = Returns (r, u', rb', w')"
  then obtain s where s: "(recv_waits be bld k)\<^sup>*\<^sup>* (u, rb, w) s" "recv_stops be bld k s (Returns (r, u', rb', w'))"
    unfolding recv_batch_Returns_iff by blast
  from solo_recv_waits [OF s(1)] obtain tr where
    tr: "runs be bld k m (\<lambda>_ _. False) ([Receiving rb], u, w) tr ([Receiving (fst (snd s))], fst s, snd (snd s))" ..
  from s(2) show "\<exists>tr. runs be bld k m (\<lambda>_ _. False) ([Receiving rb], u, w) tr ([RecvDone r rb'], u', w')"
  proof cases
    case (answer u0 b0 w0)
    from solo_advance [OF tr] advances.recv_answer [OF answer(2,3)] answer(1) show ?thesis by simp
  next
    case (failed u0 b0 w0 r0 u1 w1 st w2 e)
    from solo_advance [OF tr] advances.recv_park [OF failed(4-6)] failed(1) obtain tr' where
      "runs be bld k m (\<lambda>_ _. False) ([Receiving rb], u, w) tr' ([RecvParked rb'], u1\<lparr>adaptive_recv := st\<rparr>, w2)" by fastforce
    from solo_advance [OF this advances.recv_fail [OF failed(7)]] failed(2,3) show ?thesis by simp
  qed simp
qed


section \<open>The loopback\<close>

lemma loopback_frames:
  "rx_frame (loopback c) (unchanged w_sent)" "tx_frame (loopback c) (only_arrivals arrived)"
  "idle_frame (loopback c) (\<lambda>_ _. False) (unchanged w_sent)" "idle_frame (loopback c) (\<lambda>_ _. False) (only_arrivals arrived)"
  by (auto simp: rx_frame_def tx_frame_def idle_frame_def unchanged_def only_arrivals_def loopback_def arrived_def
      loopback_recvfrom_def loopback_recvmmsg_def loopback_sendmmsg_def loopback_send_def refuse_def accept_def Let_def
      split: list.splits prod.splits)

end
