(* ===== verification/Lifetime.thy ===== *)
theory Lifetime
  imports Tasks
begin

text \<open>
  The life of a descriptor. \<^verbatim>\<open>from_std\<close> takes the standard socket over; whether it fails half-way,
  or the wrapper it makes is used by any number of tasks and dropped at the end, the descriptor
  has to be closed exactly once.
\<close>

text \<open>\<open>closes\<close>: how often the descriptor was closed. Of the calls that creating a socket makes,
  only \<^verbatim>\<open>close\<close> changes it.\<close>

definition life_contract :: "'w kernel \<Rightarrow> fd \<Rightarrow> ('w \<Rightarrow> nat) \<Rightarrow> bool" where
  "life_contract k socket closes \<longleftrightarrow>
     (\<forall>w. closes (k_close k socket w) = closes w + 1) \<and>
     (\<forall>fd w. closes (snd (k_set_nonblocking k fd w)) = closes w) \<and>
     (\<forall>fd level name v l w. closes (snd (k_setsockopt k fd level name v l w)) = closes w) \<and>
     (\<forall>fd w. closes (snd (k_register k fd w)) = closes w) \<and>
     (\<forall>w. closes (snd (k_now k w)) = closes w)"

lemma life_calls:
  assumes "life_contract k socket closes"
  shows "closes (k_close k socket w) = closes w + 1"
    and "k_set_nonblocking k fd w = (r, w') \<Longrightarrow> closes w' = closes w"
    and "k_register k fd w = (r, w') \<Longrightarrow> closes w' = closes w"
    and "set_buf_size k fd name sz w = (r, w') \<Longrightarrow> closes w' = closes w"
    and "adaptive_new k config w = (st, w') \<Longrightarrow> closes w' = closes w"
  using assms unfolding life_contract_def
  by (auto simp: set_buf_size_def raw_setsockopt_def adaptive_new_def AdaptiveState_new_def Let_def split_beta
      split: option.splits if_splits) (metis snd_conv)+

lemma from_std_closes:
  assumes "life_contract k socket closes" and "from_std k bld socket config w = (r, w')"
  shows "closes w' = (case r of Inl _ \<Rightarrow> closes w + 1 | Inr _ \<Rightarrow> closes w)"
proof -
  note calls = life_calls [OF assms(1)]
  obtain r1 w1 where c1: "k_set_nonblocking k socket w = (r1, w1)" by (metis surj_pair)
  obtain r2 w2 where c2: "set_buf_size k socket (SO_SNDBUF (k_libc k)) (send_buf_size config) w1 = (r2, w2)" by (metis surj_pair)
  obtain r3 w3 where c3: "set_buf_size k socket (SO_RCVBUF (k_libc k)) (recv_os_buf_size config) w2 = (r3, w3)" by (metis surj_pair)
  obtain r4 w4 where c4: "(if has_tokio bld then k_register k socket w3 else (Inr (), w3)) = (r4, w4)" by (metis surj_pair)
  obtain s5 w5 where c5: "adaptive_new k config w4 = (s5, w5)" by (metis surj_pair)
  obtain s6 w6 where c6: "adaptive_new k config w5 = (s6, w6)" by (metis surj_pair)
  have "closes w4 = closes w3" using c4 calls(3) by (auto split: if_splits)
  with calls(2) [OF c1] calls(4) [OF c2] calls(4) [OF c3] calls(5) [OF c5] calls(5) [OF c6]
  have eqs: "closes w1 = closes w" "closes w2 = closes w" "closes w3 = closes w" "closes w4 = closes w" "closes w6 = closes w"
    by simp_all
  show ?thesis
    using assms(2) c1 c2 c3 c4 c5 c6 eqs calls(1)
    by (cases r1; cases r2; cases r3; cases r4) (auto simp: from_std_def Let_def)
qed

context shared_udp
begin

text \<open>A run of tasks respects whatever all the system calls respect, and keeps the descriptor.\<close>

lemma advances_frame:
  assumes "tx_respects k R" and "rx_respects k R" and "idle_frame k env R"
    and "advances be bld k m (t, u, w) (t', u', w')"
  shows "R w w' \<and> udp_keeps u u'"
proof -
  note idle = idle_frame_steps [OF assms(3)]
  note trans = preorder_rel_trans [OF idle(1)] and refl = preorder_rel_refl [OF idle(1)]
  have send: "try_send_batch be k m u b w = Returns (r, u1, w1) \<Longrightarrow> R w w1 \<and> udp_keeps u u1" for b r u1 w1
    by (rule conjI, erule try_send_batch_frame [OF assms(1)], erule try_send_batch_keeps)
  have recv: "try_recv_batch be k u rb w = Returns (r, u1, rb1, w1) \<Longrightarrow> R w w1 \<and> udp_keeps u u1" for rb r u1 rb1 w1
    by (rule conjI, erule try_recv_batch_frame [OF assms(2)], erule try_recv_batch_keeps)
  show ?thesis
    using assms(4) refl
    by (cases rule: advances.cases) (auto dest!: send recv dest: idle(2-4) intro: trans udp_keeps_intros)
qed

lemma runs_frame:
  assumes "tx_respects k R" and "rx_respects k R" and "idle_frame k env R"
    and "runs be bld k m env (ts, u, w) tr (ts', u', w')"
  shows "R w w' \<and> udp_keeps u u'"
  using assms(4)
proof (induction "(ts', u', w')" arbitrary: ts' u' w' rule: runs.induct)
  case start
  show ?case using preorder_rel_refl [OF idle_frame_steps(1) [OF assms(3)]] udp_keeps_refl by simp
next
  case (step tr s1 as)
  obtain ts1 u1 w1 where s1: "s1 = (ts1, u1, w1)" by (metis surj_pair)
  have "R w1 w' \<and> udp_keeps u1 u'"
    using step.hyps(3) advances_frame [OF assms(1-3)] idle_frame_steps(5) [OF assms(3)] udp_keeps_refl
    unfolding s1 by (auto elim!: polls.cases)
  with step.hyps(2) [OF s1] show ?case
    using preorder_rel_trans [OF idle_frame_steps(1) [OF assms(3)]] udp_keeps_trans by blast
qed

end

text \<open>C18. A descriptor handed to \<^verbatim>\<open>from_std\<close> is closed exactly once, on every platform and with or without
  Tokio: when \<^verbatim>\<open>from_std\<close> fails at any step it has closed it; when it succeeds the descriptor
  stays open through any interleaving of tasks that use the socket, and dropping the socket at
  the end closes it.\<close>

theorem descriptor_closed_once:
  assumes "life_contract k socket closes"
    and "imp_tx_frame bld A W k (unchanged closes)" and "imp_rx_frame bld A W k (unchanged closes)"
    and "idle_frame k env (unchanged closes)"
    and "from_std k bld socket config w = (r, w1)"
  shows "case r of
       Inl _ \<Rightarrow> closes w1 = closes w + 1
     | Inr u \<Rightarrow> closes w1 = closes w \<and>
         (\<forall>m ts tr ts' u' w2. runs (imp bld A W) bld k m env (ts, u, w1) tr (ts', u', w2) \<longrightarrow>
            closes w2 = closes w \<and> closes (BingerUdp_drop bld k u' w2) = closes w + 1)"
proof (cases r)
  case (Inl e)
  with from_std_closes [OF assms(1,5)] show ?thesis by simp
next
  case (Inr u)
  have fd: "udp_fd u = socket" using from_std_ok(1) [OF assms(5) [unfolded Inr]] .
  have w1: "closes w1 = closes w" using from_std_closes [OF assms(1,5)] Inr by simp
  have "closes w2 = closes w \<and> closes (BingerUdp_drop bld k u' w2) = closes w + 1"
    if "runs (imp bld A W) bld k m env (ts, u, w1) tr (ts', u', w2)" for m ts tr ts' u' w2
    using imp_shared.runs_frame [OF assms(2-4) that] fd w1 life_calls(1) [OF assms(1)]
    by (simp add: unchanged_def udp_keeps_def BingerUdp_drop_def close_fd_def)
  with Inr w1 show ?thesis by simp
qed

text \<open>A loopback whose clock counts the closes.\<close>

definition closing_kernel :: "world kernel" where
  "closing_kernel = (loopback linux_libc)\<lparr>k_close := \<lambda>_ w. w\<lparr>w_clock := w_clock w + 1\<rparr>\<rparr>"

definition bare_build :: build where
  "bare_build = \<lparr>build_os = Linux, miri_safe = False, has_tokio = False, has_metrics = False, has_gso = False,
     has_busy_poll = False, has_pacing = False,
     build_rx = \<lparr>feat_gro = False, feat_timestamping = False, feat_pktinfo = False\<rparr>\<rparr>"

lemma closing_kernel_ok:
  "life_contract closing_kernel fd w_clock"
  "imp_tx_frame bare_build A W closing_kernel (unchanged w_clock)" "imp_rx_frame bare_build A W closing_kernel (unchanged w_clock)"
  "idle_frame closing_kernel (\<lambda>_ _. False) (unchanged w_clock)"
  by (auto simp: life_contract_def imp_tx_frame_def imp_rx_frame_def native_def bare_build_def rx_frame_def tx_frame_def
      idle_frame_def unchanged_def closing_kernel_def loopback_def loopback_recvfrom_def loopback_recvmmsg_def
      loopback_sendmmsg_def loopback_send_def refuse_def accept_def Let_def split: list.splits prod.splits)

theorem descriptor_closed_once_witness:
  "\<exists>u w1. from_std closing_kernel bare_build 3 Config_new idle = (Inr u, w1) \<and> w_clock w1 = 0 \<and>
     w_clock (BingerUdp_drop bare_build closing_kernel u w1) = 1"
proof -
  have "\<exists>u w1. from_std closing_kernel bare_build 3 Config_new idle = (Inr u, w1)"
    by (simp add: from_std_def closing_kernel_def loopback_def set_buf_size_def adaptive_new_def Config_new_def
        Config_default_def bare_build_def)
  then obtain u w1 where r: "from_std closing_kernel bare_build 3 Config_new idle = (Inr u, w1)" by blast
  from descriptor_closed_once [OF closing_kernel_ok r, of "loopback_x True macos_libc" "loopback_ws True windows_libc"]
  have "w_clock w1 = w_clock idle \<and> (\<forall>m ts tr ts' u' w2. runs (imp bare_build (loopback_x True macos_libc)
      (loopback_ws True windows_libc)) bare_build closing_kernel m (\<lambda>_ _. False) (ts, u, w1) tr (ts', u', w2) \<longrightarrow>
      w_clock w2 = w_clock idle \<and> w_clock (BingerUdp_drop bare_build closing_kernel u' w2) = w_clock idle + 1)" by simp
  with r runs.start show ?thesis by (fastforce simp: idle_def)
qed

end
