(* ===== verification/Network.thy ===== *)
theory Network
  imports Tasks
begin

text \<open>
  Two sockets and the network between them. The contracts of the other theories speak of a kernel
  that serves one socket. \<open>view fd k\<close> is a kernel with many sockets as the holder of \<open>fd\<close> sees it
  (\<open>macos_view\<close>, \<open>winsock_view\<close>: likewise for the calls of macOS and Windows), and the methods of a
  socket cannot tell the difference, so that a contract need only hold of the view. With this, what one socket sends and another
  receives can be compared.
\<close>

section \<open>A kernel as one socket sees it\<close>

definition view :: "fd \<Rightarrow> 'w kernel \<Rightarrow> 'w kernel" where
  "view fd k = k
     \<lparr>k_sendmmsg := \<lambda>_. k_sendmmsg k fd, k_recvmmsg := \<lambda>_. k_recvmmsg k fd, k_sendto := \<lambda>_. k_sendto k fd,
      k_send := \<lambda>_. k_send k fd, k_recvfrom := \<lambda>_. k_recvfrom k fd, k_getpeername := \<lambda>_. k_getpeername k fd,
      k_writable := \<lambda>_. k_writable k fd, k_readable := \<lambda>_. k_readable k fd\<rparr>"

lemma view_sel [simp]:
  "k_libc (view fd k) = k_libc k" "k_errno (view fd k) = k_errno k" "k_now (view fd k) = k_now k"
  "k_sendmmsg (view fd k) x = k_sendmmsg k fd" "k_recvmmsg (view fd k) x = k_recvmmsg k fd"
  "k_sendto (view fd k) x = k_sendto k fd" "k_send (view fd k) x = k_send k fd" "k_recvfrom (view fd k) x = k_recvfrom k fd"
  "k_getpeername (view fd k) x = k_getpeername k fd" "k_writable (view fd k) x = k_writable k fd"
  "k_readable (view fd k) x = k_readable k fd"
  by (simp_all add: view_def)

lemma view_error [simp]: "last_os_error (view fd k) = last_os_error k"
  by (intro ext) (simp add: last_os_error_def)

lemmas view_simps = view_sel view_error

lemma view_calls [simp]:
  "raw_send (view fd k) fd = raw_send k fd" "raw_sendto (view fd k) fd = raw_sendto k fd"
  "raw_recvfrom (view fd k) fd = raw_recvfrom k fd" "is_connected (view fd k) fd = is_connected k fd"
  unfolding raw_send_def [abs_def] raw_sendto_def [abs_def] raw_recvfrom_def [abs_def] is_connected_def [abs_def] view_simps
  by (rule refl)+

lemma view_send_loop [simp]: "send_loop (view fd k) fd = send_loop k fd"
proof (intro ext)
  show "send_loop (view fd k) fd m b conn is sent w = send_loop k fd m b conn is sent w" for m b conn "is" sent w
  proof (induction "is" arbitrary: sent w)
    case (Cons i rest)
    show ?case unfolding send_loop.simps view_simps view_calls Cons.IH ..
  qed simp
qed

lemma view_recv_loop [simp]: "recv_loop (view fd k) fd = recv_loop k fd"
  by (intro ext) (simp add: recv_loop_slots)

lemma view_answers: "answers (view fd k) f ms w \<longleftrightarrow> answers k f ms w"
proof
  show "answers (view fd k) f ms w \<Longrightarrow> answers k f ms w"
    by (induction rule: answers.induct) (auto intro: answers.intros)
  show "answers k f ms w \<Longrightarrow> answers (view fd k) f ms w"
    by (induction rule: answers.induct) (auto intro: answers.intros)
qed

lemma view_retry: "retry_eintr (view fd k) f ms w = retry_eintr k f ms w"
proof (cases "answers k f ms w")
  case True
  then show ?thesis
    by (induction rule: answers.induct; subst (1 2) retry_eintr.simps) (auto simp: Let_def)
next
  case False
  then have "retry_eintr (view fd k) f ms w \<noteq> Some r" "retry_eintr k f ms w \<noteq> Some r" for r
    using retry_answers [of "view fd k" f ms w r] retry_answers [of k f ms w r] view_answers [of fd k f ms w] by auto
  then show ?thesis by (metis not_Some_eq)
qed

lemma view_fallback [simp]:
  "fallback_try_send_batch (view fd k) fd = fallback_try_send_batch k fd"
  "fallback_try_recv_batch (view fd k) fd = fallback_try_recv_batch k fd"
  unfolding fallback_try_send_batch_def [abs_def] fallback_try_recv_batch_def [abs_def] view_calls view_send_loop view_recv_loop
  by (rule refl)+

lemma view_linux [simp]:
  "linux_try_send_batch (view fd k) fd = linux_try_send_batch k fd"
  "linux_try_recv_batch f (view fd k) fd = linux_try_recv_batch f k fd"
  unfolding linux_try_send_batch_def [abs_def] call_sendmmsg_def [abs_def] linux_fallback_send_eq linux_try_recv_batch_def [abs_def]
    linux_recv_stack_def [abs_def] linux_recv_heap_def [abs_def] call_recvmmsg_def [abs_def] linux_fallback_recv_def [abs_def]
    view_simps view_retry view_fallback view_recv_loop
  by (rule refl)+

text \<open>The private calls of macOS and WinSock, likewise.\<close>

definition macos_view :: "fd \<Rightarrow> 'w macos_api \<Rightarrow> 'w macos_api" where
  "macos_view fd A = A\<lparr>ma_sendmsg_x := \<lambda>_. ma_sendmsg_x A fd, ma_recvmsg_x := \<lambda>_. ma_recvmsg_x A fd\<rparr>"

definition winsock_view :: "fd \<Rightarrow> 'w winsock \<Rightarrow> 'w winsock" where
  "winsock_view fd W = W
     \<lparr>ws_WSASendMsg := \<lambda>_. ws_WSASendMsg W fd, ws_WSARecvMsg := \<lambda>_. ws_WSARecvMsg W fd,
      ws_recvfrom := \<lambda>_. ws_recvfrom W fd\<rparr>"

lemma view_symbols:
  "sendmsg_x_fn (macos_view fd A) w = map_prod (map_option (\<lambda>_. ma_sendmsg_x (macos_view fd A))) id (sendmsg_x_fn A w)"
  "recvmsg_x_fn (macos_view fd A) w = map_prod (map_option (\<lambda>_. ma_recvmsg_x (macos_view fd A))) id (recvmsg_x_fn A w)"
  by (auto simp: sendmsg_x_fn_def recvmsg_x_fn_def resolve_symbol_def macos_view_def Let_def split: prod.splits option.splits)

lemma view_macos [simp]:
  "macos_try_send_batch (macos_view fd A) (view fd k) fd = macos_try_send_batch A k fd"
  "macos_try_recv_batch (macos_view fd A) (view fd k) fd = macos_try_recv_batch A k fd"
proof -
  have x: "call_sendmsg_x (view fd k) (ma_sendmsg_x (macos_view fd A)) fd = call_sendmsg_x k (ma_sendmsg_x A) fd"
    unfolding call_sendmsg_x_def [abs_def] macos_retry_eintr_def view_retry by (simp add: macos_view_def)
  have r: "call_recvmsg_x (view fd k) (ma_recvmsg_x (macos_view fd A)) fd = call_recvmsg_x k (ma_recvmsg_x A) fd"
    unfolding call_recvmsg_x_def [abs_def] macos_retry_eintr_def view_retry view_simps by (simp add: macos_view_def)
  show "macos_try_send_batch (macos_view fd A) (view fd k) fd = macos_try_send_batch A k fd"
    by (intro ext) (auto simp: macos_try_send_batch_def macos_connected_send_def macos_plain_send_def view_symbols x Let_def
        intro!: outcome_bind_cong split: prod.splits option.splits dest!: sendmsg_x_fn_Some)
  show "macos_try_recv_batch (macos_view fd A) (view fd k) fd = macos_try_recv_batch A k fd"
    by (intro ext) (auto simp: macos_try_recv_batch_def macos_plain_recv_def view_symbols r Let_def
        intro!: outcome_bind_cong split: prod.splits option.splits dest!: recvmsg_x_fn_Some)
qed

lemma view_windows_loop: "windows_send_loop (winsock_view fd W) (view fd k) fd = windows_send_loop W k fd"
proof (intro ext)
  show "windows_send_loop (winsock_view fd W) (view fd k) fd m b conn is sent w = windows_send_loop W k fd m b conn is sent w"
    for m b conn "is" sent w
  proof (induction "is" arbitrary: sent w)
    case (Cons i rest)
    show ?case unfolding windows_send_loop.simps view_simps Cons.IH by (simp add: winsock_view_def)
  qed simp
qed

lemma view_windows [simp]:
  "windows_try_send_batch (winsock_view fd W) (view fd k) fd = windows_try_send_batch W k fd"
  "windows_try_recv_batch (winsock_view fd W) (view fd k) fd = windows_try_recv_batch W k fd"
proof -
  have c: "win_is_connected (view fd k) fd = win_is_connected k fd"
    unfolding win_is_connected_def [abs_def] view_simps ..
  show "windows_try_send_batch (winsock_view fd W) (view fd k) fd = windows_try_send_batch W k fd"
    unfolding windows_try_send_batch_def [abs_def] view_windows_loop c ..
  have close: "k_close (view fd k) = k_close k" by (simp add: view_def)
  have sel: "ws_ptr (winsock_view fd W) = ws_ptr W" "ws_set_ptr (winsock_view fd W) = ws_set_ptr W"
    "ws_socket (winsock_view fd W) = ws_socket W" "ws_WSAIoctl (winsock_view fd W) = ws_WSAIoctl W"
    "ws_WSARecvMsg (winsock_view fd W) fd = ws_WSARecvMsg W fd" "ws_recvfrom (winsock_view fd W) fd = ws_recvfrom W fd"
    by (simp_all add: winsock_view_def)
  have "windows_recv1 (winsock_view fd W) (view fd k) fd = windows_recv1 W k fd"
    unfolding windows_recv1_def [abs_def] windows_recv_one_def get_wsa_recvmsg_def view_simps sel close ..
  then show "windows_try_recv_batch (winsock_view fd W) (view fd k) fd = windows_try_recv_batch W k fd"
    unfolding windows_recv_slots_fun by simp
qed

section \<open>The methods of a socket cannot tell\<close>

lemma view_imp:
  "be_try_send (imp bld (macos_view fd A) (winsock_view fd W)) (view fd k) fd = be_try_send (imp bld A W) k fd"
  "be_try_recv (imp bld (macos_view fd A) (winsock_view fd W)) (view fd k) fd = be_try_recv (imp bld A W) k fd"
  by (cases "native bld"; simp add: imp_def linux_backend_def macos_backend_def windows_backend_def fallback_backend_def)+

text \<open>Two backends that do the same, each on its kernel, for the descriptor of the socket.\<close>

definition same_socket :: "'w backend \<Rightarrow> 'w backend \<Rightarrow> fd \<Rightarrow> 'w kernel \<Rightarrow> 'w kernel \<Rightarrow> bool" where
  "same_socket be be' fd k k' \<longleftrightarrow> k_libc k' = k_libc k \<and> k_now k' = k_now k \<and>
     k_writable k' fd = k_writable k fd \<and> k_readable k' fd = k_readable k fd \<and>
     be_try_send be' k' fd = be_try_send be k fd \<and> be_try_recv be' k' fd = be_try_recv be k fd"

lemma same_socket_sym: "same_socket be be' fd k k' \<Longrightarrow> same_socket be' be fd k' k"
  by (simp add: same_socket_def)

lemma same_socket_view:
  "same_socket (imp bld A W) (imp bld (macos_view fd A) (winsock_view fd W)) fd k (view fd k)"
  by (simp add: same_socket_def view_imp)

lemma same_socket_calls:
  assumes "same_socket be be' fd k k'" and "udp_fd u = fd"
  shows "try_send_batch be' k' m u b w = try_send_batch be k m u b w"
    and "try_recv_batch be' k' u rb w = try_recv_batch be k u rb w"
    and "note_blocked k' st w = note_blocked k st w"
    and "wait_writable bld k' u w = wait_writable bld k u w" and "wait_readable bld k' u w = wait_readable bld k u w"
proof -
  have s: "k_libc k' = k_libc k" "k_now k' = k_now k" "k_writable k' fd = k_writable k fd" "k_readable k' fd = k_readable k fd"
     "be_try_send be' k' fd = be_try_send be k fd" "be_try_recv be' k' fd = be_try_recv be k fd"
    using assms(1) by (simp_all add: same_socket_def)
  show "try_send_batch be' k' m u b w = try_send_batch be k m u b w"
    unfolding try_send_batch_def assms(2) s ..
  show "try_recv_batch be' k' u rb w = try_recv_batch be k u rb w"
    unfolding try_recv_batch_def assms(2) s ..
  show "note_blocked k' st w = note_blocked k st w"
    unfolding note_blocked_def maybe_adjust_def s ..
  show "wait_writable bld k' u w = wait_writable bld k u w" "wait_readable bld k' u w = wait_readable bld k u w"
    unfolding wait_writable_def wait_readable_def assms(2) s by (rule refl)+
qed

lemma same_socket_send_loop:
  "send_batch_loop be bld k m u b w = Some r \<Longrightarrow>
     \<forall>be' k'. same_socket be be' (udp_fd u) k k' \<longrightarrow> send_batch_loop be' bld k' m u b w = Some r"
proof (erule send_batch_loop.raw_induct [where P = "\<lambda>be bld k m u b w r.
    \<forall>be' k'. same_socket be be' (udp_fd u) k k' \<longrightarrow> send_batch_loop be' bld k' m u b w = Some r", rotated], intro allI impI)
  fix g be bld k m u b w r be' k'
  assume ih: "\<And>be bld k m u b w r. g be bld k m u b w = Some r \<Longrightarrow>
      \<forall>be' k'. same_socket be be' (udp_fd u) k k' \<longrightarrow> send_batch_loop be' bld k' m u b w = Some r"
    and g: "(case try_send_batch be k m u b w of
        Returns (r, u1, w1) \<Rightarrow>
          if would_block (k_libc k) r then
            (let (st, w2) = note_blocked k (adaptive_send u1) w1; u2 = u1\<lparr>adaptive_send := st\<rparr>
             in case wait_writable bld k u2 w2 of
                  (Inl e', w3) \<Rightarrow> Some (Returns (Inl e', u2, w3))
                | (Inr _, w3) \<Rightarrow> g be bld k m u2 b w3)
          else Some (Returns (r, u1, w1))
      | Panics \<Rightarrow> Some Panics
      | Undefined \<Rightarrow> Some Undefined
      | Diverges \<Rightarrow> None) = Some r"
    and same: "same_socket be be' (udp_fd u) k k'"
  note calls = same_socket_calls [OF same]
  have libc: "k_libc k' = k_libc k" using same by (simp add: same_socket_def)
  show "send_batch_loop be' bld k' m u b w = Some r"
  proof (cases "try_send_batch be k m u b w")
    case (Returns x)
    obtain r1 u1 w1 where t: "try_send_batch be k m u b w = Returns (r1, u1, w1)" using Returns by (cases x) auto
    have fd: "udp_fd u1 = udp_fd u" by (rule try_send_batch_Returns(2) [OF t])
    obtain st w2 where nb: "note_blocked k (adaptive_send u1) w1 = (st, w2)" by (metis surj_pair)
    let ?u2 = "u1\<lparr>adaptive_send := st\<rparr>"
    obtain v w3 where wt: "wait_writable bld k ?u2 w2 = (v, w3)" by (metis surj_pair)
    have c: "try_send_batch be' k' m u b w = Returns (r1, u1, w1)" "note_blocked k' (adaptive_send u1) w1 = (st, w2)"
      "wait_writable bld k' ?u2 w2 = (v, w3)"
      using calls(1) [of u m b w] calls(3) [of u] calls(4) [of ?u2] t nb wt fd by simp_all
    show ?thesis
    proof (cases v)
      case (Inl e)
      with g t nb wt c libc show ?thesis by (subst send_batch_loop.simps) (auto simp: Let_def split: if_splits)
    next
      case (Inr y)
      have "send_batch_loop be' bld k' m ?u2 b w3 = Some r" if "g be bld k m ?u2 b w3 = Some r"
        using ih [OF that] same fd by simp
      with g t nb wt c libc Inr show ?thesis by (subst send_batch_loop.simps) (auto simp: Let_def split: if_splits)
    qed
  qed (use g calls(1) [of u m b w] in \<open>auto simp: send_batch_loop.simps\<close>)
qed

lemma same_socket_recv_loop:
  "recv_batch_loop be bld k u b w = Some r \<Longrightarrow>
     \<forall>be' k'. same_socket be be' (udp_fd u) k k' \<longrightarrow> recv_batch_loop be' bld k' u b w = Some r"
proof (erule recv_batch_loop.raw_induct [where P = "\<lambda>be bld k u b w r.
    \<forall>be' k'. same_socket be be' (udp_fd u) k k' \<longrightarrow> recv_batch_loop be' bld k' u b w = Some r", rotated], intro allI impI)
  fix g be bld k u b w r be' k'
  assume ih: "\<And>be bld k u b w r. g be bld k u b w = Some r \<Longrightarrow>
      \<forall>be' k'. same_socket be be' (udp_fd u) k k' \<longrightarrow> recv_batch_loop be' bld k' u b w = Some r"
    and g: "(case try_recv_batch be k u b w of
        Returns (r, u1, b1, w1) \<Rightarrow>
          if r = Inr 0 \<or> would_block (k_libc k) r then
            (let (st, w2) = note_blocked k (adaptive_recv u1) w1; u2 = u1\<lparr>adaptive_recv := st\<rparr>
             in case wait_readable bld k u2 w2 of
                  (Inl e', w3) \<Rightarrow> Some (Returns (Inl e', u2, b1, w3))
                | (Inr _, w3) \<Rightarrow> g be bld k u2 b1 w3)
          else Some (Returns (r, u1, b1, w1))
      | Panics \<Rightarrow> Some Panics
      | Undefined \<Rightarrow> Some Undefined
      | Diverges \<Rightarrow> None) = Some r"
    and same: "same_socket be be' (udp_fd u) k k'"
  note calls = same_socket_calls [OF same]
  have libc: "k_libc k' = k_libc k" using same by (simp add: same_socket_def)
  show "recv_batch_loop be' bld k' u b w = Some r"
  proof (cases "try_recv_batch be k u b w")
    case (Returns x)
    obtain r1 u1 b1 w1 where t: "try_recv_batch be k u b w = Returns (r1, u1, b1, w1)" using Returns by (cases x) auto
    have fd: "udp_fd u1 = udp_fd u" by (rule try_recv_batch_Returns(2) [OF t])
    obtain st w2 where nb: "note_blocked k (adaptive_recv u1) w1 = (st, w2)" by (metis surj_pair)
    let ?u2 = "u1\<lparr>adaptive_recv := st\<rparr>"
    obtain v w3 where wt: "wait_readable bld k ?u2 w2 = (v, w3)" by (metis surj_pair)
    have c: "try_recv_batch be' k' u b w = Returns (r1, u1, b1, w1)" "note_blocked k' (adaptive_recv u1) w1 = (st, w2)"
      "wait_readable bld k' ?u2 w2 = (v, w3)"
      using calls(2) [of u b w] calls(3) [of u] calls(5) [of ?u2] t nb wt fd by simp_all
    show ?thesis
    proof (cases v)
      case (Inl e)
      with g t nb wt c libc show ?thesis by (subst recv_batch_loop.simps) (auto simp: Let_def split: if_splits)
    next
      case (Inr y)
      have "recv_batch_loop be' bld k' ?u2 b1 w3 = Some r" if "g be bld k ?u2 b1 w3 = Some r"
        using ih [OF that] same fd by simp
      with g t nb wt c libc Inr show ?thesis by (subst recv_batch_loop.simps) (auto simp: Let_def split: if_splits)
    qed
  qed (use g calls(2) [of u b w] in \<open>auto simp: recv_batch_loop.simps\<close>)
qed

lemma same_socket_batch:
  assumes "same_socket be be' (udp_fd u) k k'"
  shows "send_batch be' bld k' m u b w = send_batch be bld k m u b w"
    and "recv_batch be' bld k' u rb w = recv_batch be bld k u rb w"
proof -
  note flip = same_socket_sym [OF assms]
  have "send_batch_loop be' bld k' m u b w = send_batch_loop be bld k m u b w"
    using same_socket_send_loop [of be bld k m u b w] same_socket_send_loop [of be' bld k' m u b w] assms flip
    by (metis not_Some_eq)
  then show "send_batch be' bld k' m u b w = send_batch be bld k m u b w" by (simp add: send_batch_def)
  have "recv_batch_loop be' bld k' u rb w = recv_batch_loop be bld k u rb w"
    using same_socket_recv_loop [of be bld k u rb w] same_socket_recv_loop [of be' bld k' u rb w] assms flip
    by (metis not_Some_eq)
  then show "recv_batch be' bld k' u rb w = recv_batch be bld k u rb w" by (simp add: recv_batch_def)
qed

lemma view_batch:
  "send_batch (imp bld A W) bld k m u b w =
     send_batch (imp bld (macos_view (udp_fd u) A) (winsock_view (udp_fd u) W)) bld (view (udp_fd u) k) m u b w"
  "recv_batch (imp bld A W) bld k u rb w =
     recv_batch (imp bld (macos_view (udp_fd u) A) (winsock_view (udp_fd u) W)) bld (view (udp_fd u) k) u rb w"
  by (rule same_socket_batch(1) [OF same_socket_view, symmetric], rule same_socket_batch(2) [OF same_socket_view, symmetric])

section \<open>From one socket to another\<close>

text \<open>A datagram as the receiving socket finds it.\<close>

definition carried :: "SocketAddr \<Rightarrow> tx_msg \<Rightarrow> bytes \<times> SocketAddr" where
  "carried src t = (tx_data t, src)"

lemma carried_datagrams:
  "map (carried src) (take l (map (strip_name is_conn) (datagrams c m b))) =
     map (\<lambda>e. (payload m (fst e), src)) (take l (sb_entries b))"
  by (simp add: datagrams_def datagram_def carried_def strip_name_def o_def take_map)

text \<open>What the holder of a descriptor is promised when it sends, and when it receives.\<close>

definition sends_at ::
    "build \<Rightarrow> 'w macos_api \<Rightarrow> 'w winsock \<Rightarrow> 'w kernel \<Rightarrow> fd \<Rightarrow> ('w \<Rightarrow> tx_msg list) \<Rightarrow> bool" where
  "sends_at bld A W k fd txlog \<longleftrightarrow>
     imp_log bld (macos_view fd A) (winsock_view fd W) (view fd k) txlog \<and> quiet_contract (view fd k) txlog"

definition receives_at ::
    "build \<Rightarrow> 'w macos_api \<Rightarrow> 'w winsock \<Rightarrow> 'w kernel \<Rightarrow> fd \<Rightarrow> ('w \<Rightarrow> (bytes \<times> SocketAddr) list) \<Rightarrow> bool" where
  "receives_at bld A W k fd rxq \<longleftrightarrow>
     imp_queue bld (macos_view fd A) (winsock_view fd W) (view fd k) rxq \<and>
     imp_rx_ok bld (macos_view fd A) (winsock_view fd W) (view fd k)"

lemma send_batch_carries:
  assumes "sends_at bld A W k (udp_fd u) txlog" and "sb_inv b" and "sb_readable m b" and "imp_sendable bld b"
    and "send_batch (imp bld A W) bld k m u b w = Returns (Inr l, u', w1)"
  shows "map (carried src) (drop (length (txlog w)) (txlog w1)) =
     map (\<lambda>e. (payload m (fst e), src)) (take l (sb_entries b))" and "l \<le> SendBatchRaw_len b"
proof -
  note at = conjunct1 [OF assms(1) [unfolded sends_at_def]] conjunct2 [OF assms(1) [unfolded sends_at_def]]
  from imp_udp.send_batch_log [OF at assms(2-4) trans [OF view_batch(1) [symmetric] assms(5)]]
  obtain is_conn where "l \<le> SendBatchRaw_len b"
    "txlog w1 = txlog w @ take l (map (strip_name is_conn) (datagrams (k_libc k) m b))" by auto
  then show "l \<le> SendBatchRaw_len b"
    "map (carried src) (drop (length (txlog w)) (txlog w1)) = map (\<lambda>e. (payload m (fst e), src)) (take l (sb_entries b))"
    by (simp_all add: carried_datagrams)
qed

lemma socket_to_socket:
  assumes "native bld = Linux \<longrightarrow> \<not> feat_gro (build_rx bld)"
    and "sends_at bld A W k (udp_fd us) txlog" and "receives_at bld A W k (udp_fd ur) rxq"
    and "sb_inv b" and "sb_readable m b" and "imp_sendable bld b"
    and "send_batch (imp bld A W) bld k m us b w = Returns (Inr l, us', w1)" and "0 < l"
    and "rxq w2 = map (carried src) (drop (length (txlog w)) (txlog w1))"
    and "rb_inv n rb" and "l \<le> RecvBatchRaw_capacity rb" and "RecvBatchRaw_capacity rb < 2 ^ 32"
    and "imp_roomy bld n" and "list_all (imp_admits bld n) (rxq w2)"
  shows "\<exists>ur' rb' w'. recv_batch (imp bld A W) bld k ur rb w2 = Returns (Inr l, ur', rb', w') \<and>
     rb_packets rb' = map (\<lambda>e. (take n (payload m (fst e)), src)) (take l (sb_entries b)) \<and> rxq w' = []"
proof -
  note c = send_batch_carries [OF assms(2,4-7)]
  let ?ps = "map (\<lambda>e. (payload m (fst e), src)) (take l (sb_entries b))"
  have q: "rxq w2 = ?ps" using assms(9) c(1) by simp
  have len: "length ?ps = l" using c(2) length_sb_entries [OF assms(4)] by (simp add: SendBatchRaw_len_def)
  then have "?ps \<noteq> []" using assms(8) by auto
  then have ne: "rxq w2 \<noteq> []" unfolding q .
  note at = conjunct1 [OF assms(3) [unfolded receives_at_def]] conjunct2 [OF assms(3) [unfolded receives_at_def]]
  have pos: "0 < RecvBatchRaw_capacity rb" using assms(8,11) by simp
  have adm: "list_all (imp_admits bld n) (take (RecvBatchRaw_capacity rb) (rxq w2))"
    using assms(14) by (auto simp: list_all_iff dest: in_set_takeD)
  from queue_udp.recv_batch_delivers [OF imp_queue_udp [OF assms(1)] at assms(10,12) pos rtranclp.rtrancl_refl ne
      assms(13) adm, where bld = bld and u = ur] show ?thesis
    using assms(11) len unfolding view_batch(2) [of bld A W k ur, symmetric] q
    by (auto simp: cut_to_def min_absorb2 o_def)
qed

text \<open>A network that loses nothing and is at once: what a socket sends is appended to the queue of the
  other one, and nothing else is.\<close>

definition both_grow ::
    "('w \<Rightarrow> tx_msg list) \<Rightarrow> ('w \<Rightarrow> (bytes \<times> SocketAddr) list) \<Rightarrow> SocketAddr \<Rightarrow> 'w \<Rightarrow> 'w \<Rightarrow> bool" where
  "both_grow txlog rxq src w w' \<longleftrightarrow> (\<exists>ts. txlog w' = txlog w @ ts \<and> rxq w' = rxq w @ map (carried src) ts)"

lemma preorder_both_grow: "preorder_rel (both_grow txlog rxq src)"
proof -
  have "both_grow txlog rxq src w1 w3" if "both_grow txlog rxq src w1 w2" "both_grow txlog rxq src w2 w3" for w1 w2 w3
  proof -
    from that obtain a b where "txlog w2 = txlog w1 @ a" "rxq w2 = rxq w1 @ map (carried src) a"
      "txlog w3 = txlog w2 @ b" "rxq w3 = rxq w2 @ map (carried src) b" by (auto simp: both_grow_def)
    then show ?thesis unfolding both_grow_def by (intro exI [of _ "a @ b"]) simp
  qed
  then show ?thesis by (auto simp: preorder_rel_def) (auto simp: both_grow_def)
qed

definition wired ::
    "build \<Rightarrow> 'w macos_api \<Rightarrow> 'w winsock \<Rightarrow> 'w kernel \<Rightarrow> fd \<Rightarrow> ('w \<Rightarrow> tx_msg list)
       \<Rightarrow> ('w \<Rightarrow> (bytes \<times> SocketAddr) list) \<Rightarrow> SocketAddr \<Rightarrow> bool" where
  "wired bld A W k fd txlog rxq src \<longleftrightarrow>
     imp_tx_frame bld (macos_view fd A) (winsock_view fd W) (view fd k) (both_grow txlog rxq src) \<and>
     idle_frame (view fd k) (\<lambda>_ _. False) (both_grow txlog rxq src)"

context framed_backend
begin

lemma send_batch_frame:
  assumes "tx_respects k R" and "idle_frame k env R" and "send_batch be bld k m u b w = Returns (r, u', w')"
  shows "R w w'"
proof -
  note idle = idle_frame_steps [OF assms(2)] and tried = try_send_batch_frame [OF assms(1)]
  note trans = preorder_rel_trans [OF idle(1)] and refl = preorder_rel_refl [OF idle(1)]
  from assms(3) obtain s where s: "(send_waits be bld k m b)\<^sup>*\<^sup>* (u, w) s"
    "send_stops be bld k m b s (Returns (r, u', w'))" unfolding send_batch_Returns_iff by blast
  have step: "R (snd s1) (snd s2)" if "send_waits be bld k m b s1 s2" for s1 s2
    using that by cases (auto dest!: tried idle(2,3) intro: trans)
  have "R w (snd s)"
    using s(1) by (induction rule: rtranclp_induct) (auto intro: refl trans dest: step)
  moreover have "R (snd s) w'" using s(2) by cases (auto dest!: tried idle(2,3) intro: trans)
  ultimately show ?thesis by (rule trans)
qed

end

lemma wired_send:
  assumes "wired bld A W k (udp_fd u) txlog rxq src"
    and "send_batch (imp bld A W) bld k m u b w = Returns (r, u', w1)"
  shows "rxq w1 = rxq w @ map (carried src) (drop (length (txlog w)) (txlog w1))"
proof -
  note at = conjunct1 [OF assms(1) [unfolded wired_def]] conjunct2 [OF assms(1) [unfolded wired_def]]
  have "both_grow txlog rxq src w w1"
    by (rule imp_framed.send_batch_frame [OF at trans [OF view_batch(1) [symmetric] assms(2)]])
  then show ?thesis by (auto simp: both_grow_def)
qed

text \<open>Two loopbacks joined crosswise: descriptor 3 is the first, every other one the second, and what
  one takes to send is at once in the queue of the other. \<^verbatim>\<open>errno\<close> is common to both. A datagram of
  65536 bytes or more is refused with \<^verbatim>\<open>EMSGSIZE\<close>, which is 90.\<close>

definition hear :: "SocketAddr \<Rightarrow> world \<Rightarrow> world \<Rightarrow> world \<Rightarrow> world" where
  "hear src x x' y = y\<lparr>w_queue := w_queue y @ map (carried src) (drop (length (w_sent x)) (w_sent x')), w_errno := w_errno x'\<rparr>"

definition here :: SocketAddr where
  "here = V4 (Ipv4Addr 127 0 0 1) 9001"

definition crossed :: "fd \<Rightarrow> (world \<Rightarrow> 'r \<times> world) \<Rightarrow> world \<times> world \<Rightarrow> 'r \<times> world \<times> world" where
  "crossed fd f s = (if fd = 3 then (let (r, x) = f (fst s) in (r, x, hear here (fst s) x (snd s)))
     else (let (r, y) = f (snd s) in (r, hear here (snd s) y (fst s), y)))"

definition fits :: "tx_msg \<Rightarrow> bool" where
  "fits t \<longleftrightarrow> length (tx_data t) < 65536"

definition cable_sendmmsg :: "tx_msg list \<Rightarrow> u32 \<Rightarrow> world \<Rightarrow> int \<times> world" where
  "cable_sendmmsg msgs = loopback_sendmmsg linux_libc (takeWhile fits msgs)"

definition cable_send :: "tx_msg \<Rightarrow> world \<Rightarrow> int \<times> world" where
  "cable_send t w = (if fits t then loopback_send t w else refuse 90 w)"

definition cable :: "(world \<times> world) kernel" where
  "cable =
     \<lparr>k_libc = linux_libc, k_errno = w_errno \<circ> fst,
      k_sendmmsg = (\<lambda>fd msgs vlen. crossed fd (cable_sendmmsg msgs vlen)),
      k_recvmmsg = (\<lambda>fd ms vlen s. let ((n, ms'), s') = crossed fd (\<lambda>w. let (n, ms', w') = loopback_recvmmsg linux_libc ms vlen w
         in ((n, ms'), w')) s in (n, ms', s')),
      k_sendmsg_gso = (\<lambda>fd _ data. crossed fd (cable_send \<lparr>tx_name = None, tx_data = data\<rparr>)),
      k_sendto = (\<lambda>fd data st l. crossed fd (cable_send \<lparr>tx_name = Some (st, l), tx_data = data\<rparr>)),
      k_send = (\<lambda>fd data. crossed fd (cable_send \<lparr>tx_name = None, tx_data = data\<rparr>)),
      k_recvfrom = (\<lambda>fd buf st l s. let ((n, buf', st', l'), s') = crossed fd (\<lambda>w. let (n, buf', st', l', w') =
         loopback_recvfrom linux_libc buf st l w in ((n, buf', st', l'), w')) s in (n, buf', st', l', s')),
      k_getpeername = (\<lambda>_ st l s. (- 1, st, l, s)),
      k_getsockname = (\<lambda>_ st l s. (0, st, l, s)),
      k_connect = (\<lambda>_ _ _ s. (- 1, s)),
      k_setsockopt = (\<lambda>_ _ _ _ _ s. (0, s)),
      k_getsockopt = (\<lambda>_ _ _ v _ s. (0, v, s)),
      k_set_nonblocking = (\<lambda>_ s. (Inr (), s)),
      k_register = (\<lambda>_ s. (Inr (), s)),
      k_now = (\<lambda>s. (0, s)),
      k_writable = (\<lambda>_ s. (Inr (), s)),
      k_readable = (\<lambda>_ s. (Inr (), s)),
      k_close = (\<lambda>_ s. s)\<rparr>"

lemma cable_send_log:
  "cable_sendmmsg msgs vlen w = (n, w') \<Longrightarrow>
     n \<le> uint vlen \<and> w_sent w' = w_sent w @ take (nat n) msgs \<and> list_all fits (take (nat n) msgs)"
  "cable_send t w = (n, w') \<Longrightarrow> w_sent w' = w_sent w @ (if 0 \<le> n then [t] else []) \<and> (0 \<le> n \<longrightarrow> fits t)"
proof -
  assume c: "cable_sendmmsg msgs vlen w = (n, w')"
  note log = loopback_sendmmsg_log [OF c [unfolded cable_sendmmsg_def]]
  have "nat n \<le> length (takeWhile fits msgs)"
    using c by (auto simp: cable_sendmmsg_def loopback_sendmmsg_def refuse_def Let_def split: if_splits)
  then have "take (nat n) (takeWhile fits msgs) = take (nat n) msgs"
    by (metis append_take_drop_id takeWhile_eq_take take_take min_absorb1)
  moreover have "list_all fits (take (nat n) (takeWhile fits msgs))"
    by (auto simp: list_all_iff dest: in_set_takeD set_takeWhileD)
  ultimately show "n \<le> uint vlen \<and> w_sent w' = w_sent w @ take (nat n) msgs \<and> list_all fits (take (nat n) msgs)"
    using log by simp
next
  show "cable_send t w = (n, w') \<Longrightarrow> w_sent w' = w_sent w @ (if 0 \<le> n then [t] else []) \<and> (0 \<le> n \<longrightarrow> fits t)"
    by (auto simp: cable_send_def loopback_send_def refuse_def accept_def split: if_splits)
qed

lemma cable_sender:
  "log_contract (view 3 cable) (w_sent \<circ> fst)" "quiet_contract (view 3 cable) (w_sent \<circ> fst)"
proof -
  show "quiet_contract (view 3 cable) (w_sent \<circ> fst)" by (simp add: quiet_contract_def view_def cable_def)
  show "log_contract (view 3 cable) (w_sent \<circ> fst)"
    unfolding log_contract_def view_simps
    by (auto simp: cable_def crossed_def split: prod.splits dest: cable_send_log)
qed

lemma arrived_hear:
  assumes "w_sent x' = w_sent x @ ts" and "list_all fits ts"
  shows "arrived (hear here x x' y) = arrived y @ map (carried here) ts"
  using assms by (auto simp: arrived_def hear_def carried_def here_def fits_def list_all_iff intro!: filter_True)

lemma crossed_grow:
  assumes "\<And>x r x'. f x = (r, x') \<Longrightarrow> \<exists>ts. w_sent x' = w_sent x @ ts \<and> list_all fits ts"
  shows "both_grow (w_sent \<circ> fst) (arrived \<circ> snd) here s (snd (crossed 3 f s))"
proof -
  obtain r x where f: "f (fst s) = (r, x)" by (metis surj_pair)
  from assms [OF this] obtain ts where "w_sent x = w_sent (fst s) @ ts" "list_all fits ts" by blast
  with arrived_hear [OF this, of "snd s"] f show ?thesis by (auto simp: both_grow_def crossed_def)
qed

lemma cable_frames:
  "tx_frame (view 3 cable) (both_grow (w_sent \<circ> fst) (arrived \<circ> snd) here)"
  "idle_frame (view 3 cable) (\<lambda>_ _. False) (both_grow (w_sent \<circ> fst) (arrived \<circ> snd) here)"
proof -
  have many: "both_grow (w_sent \<circ> fst) (arrived \<circ> snd) here s (snd (crossed 3 (cable_sendmmsg msgs vlen) s))" for msgs vlen s
    by (rule crossed_grow) (auto dest: cable_send_log)
  have one: "both_grow (w_sent \<circ> fst) (arrived \<circ> snd) here s (snd (crossed 3 (cable_send t) s))" for t s
    by (rule crossed_grow) (auto dest!: cable_send_log(2) split: if_splits)
  have same: "both_grow (w_sent \<circ> fst) (arrived \<circ> snd) here s s" for s
    by (simp add: preorder_rel_refl preorder_both_grow)
  show "tx_frame (view 3 cable) (both_grow (w_sent \<circ> fst) (arrived \<circ> snd) here)"
    "idle_frame (view 3 cable) (\<lambda>_ _. False) (both_grow (w_sent \<circ> fst) (arrived \<circ> snd) here)"
    unfolding tx_frame_def idle_frame_def view_simps
    by (simp_all add: preorder_both_grow cable_def many one same)
qed

lemma cable_receiver: "queue_contract (view 4 cable) (arrived \<circ> snd)" "recv_contract (view 4 cable)"
proof -
  let ?L = "loopback linux_libc"
  have q: "queue_contract ?L arrived" "recv_contract ?L" using linux_loopback loopback_recv by auto
  have one: "k_recvfrom (view 4 cable) fd buf st l s = (n, buf', st', l', s') \<Longrightarrow>
      k_recvfrom ?L fd buf st l (snd s) = (n, buf', st', l', snd s') \<and> w_errno (fst s') = w_errno (snd s')"
    for fd buf st l s n buf' st' l' s'
    by (auto simp: cable_def crossed_def hear_def loopback_sel split: prod.splits)
  have many: "k_recvmmsg (view 4 cable) fd ms vlen s = (n, ms', s') \<Longrightarrow>
      k_recvmmsg ?L fd ms vlen (snd s) = (n, ms', snd s') \<and> w_errno (fst s') = w_errno (snd s')" for fd ms vlen s n ms' s'
    by (auto simp: cable_def crossed_def hear_def loopback_sel split: prod.splits)
  have c: "k_libc (view 4 cable) = k_libc ?L" "k_errno (view 4 cable) s = w_errno (fst s)" "k_errno ?L = w_errno" for s
    by (simp_all add: cable_def loopback_sel)
  show "recv_contract (view 4 cable)"
    unfolding recv_contract_def
  proof (intro conjI allI impI)
    fix fd ms vlen s n ms' s'
    assume "k_recvmmsg (view 4 cable) fd ms vlen s = (n, ms', s')"
    note r = recv_contract_recvmmsg [OF q(2) conjunct1 [OF many [OF this]]]
    show "n \<le> uint vlen" "length ms' = length ms" by (rule r(1), rule r(2))
    show "length (rx_buf (ms' ! i)) = length (rx_buf (ms ! i))" if "i < length ms" for i using that by (rule r(3))
    show "unat (rx_len (ms' ! i)) \<le> length (rx_buf (ms' ! i))" if "i < nat n" for i using that by (rule r(4))
  next
    fix fd buf st l s n buf' st' l' s'
    assume "k_recvfrom (view 4 cable) fd buf st l s = (n, buf', st', l', s')"
    note r = recv_contract_recvfrom [OF q(2) conjunct1 [OF one [OF this]]]
    show "n \<le> int (length buf)" "length buf' = length buf" by (rule r(1), rule r(2))
  qed
  show "queue_contract (view 4 cable) (arrived \<circ> snd)"
    unfolding queue_contract_def c o_def
  proof (intro conjI allI ballI impI)
    fix fd buf st l s n buf' st' l' s'
    assume "k_recvfrom (view 4 cable) fd buf st l s = (n, buf', st', l', s')"
    note r = one [OF this]
    show "case arrived (snd s) of
       [] \<Rightarrow> n < 0 \<and> w_errno (fst s') = EAGAIN (k_libc ?L) \<and> arrived (snd s') = [] \<and> buf' = buf
     | p # q \<Rightarrow> n = int (min (length (fst p)) (length buf)) \<and> buf' = deposit buf (fst p) \<and>
         encode_sockaddr (k_libc ?L) (snd p) st = (st', l') \<and> arrived (snd s') = q"
      using queue_contract_recvfrom [OF q(1) conjunct1 [OF r], unfolded c] conjunct2 [OF r] by (auto split: list.splits)
  qed (use queue_contract_libc [OF q(1)] queue_contract_recvmmsg [OF q(1) conjunct1 [OF many], unfolded c] many
       in \<open>fastforce split: if_splits\<close>)+
qed

text \<open>The cable serves the builds that make POSIX calls.\<close>

definition posix :: "build \<Rightarrow> bool" where
  "posix bld \<longleftrightarrow> native bld = Linux \<or> native bld = OtherOS"

lemma cable_ends:
  assumes "posix bld"
  shows "sends_at bld A W cable 3 (w_sent \<circ> fst)" and "receives_at bld A W cable 4 (arrived \<circ> snd)"
    and "wired bld A W cable 3 (w_sent \<circ> fst) (arrived \<circ> snd) here"
  using assms cable_sender cable_receiver cable_frames
  by (auto simp: posix_def sends_at_def receives_at_def wired_def imp_log_def imp_queue_def imp_rx_ok_def imp_tx_frame_def)

end
