(* ===== verification/Examples.thy ===== *)
theory Examples
  imports Network
begin

text \<open>
  The programs of \<^verbatim>\<open>examples/\<close> on top of the modelled library: how it is meant to be used, with two
  sockets, messages on the heap, and \<^verbatim>\<open>select!\<close>. What a program prints is returned as a value. What
  the programs take from the standard library and from Tokio is the \<open>host\<close>: binding a standard
  socket, allocating and freeing strings, sleeping.
\<close>

section \<open>Programs\<close>

record 'w host =
  h_imp :: "'w backend"
  h_build :: build
  h_kernel :: "'w kernel"
  h_vec :: "nat \<Rightarrow> nat"
  h_bind :: "'w \<Rightarrow> fd io_result \<times> 'w"
  h_strings :: "bytes list \<Rightarrow> memory \<Rightarrow> slice list \<times> memory"
  h_free :: "slice list \<Rightarrow> memory \<Rightarrow> memory"
  h_sleep :: "'w \<Rightarrow> 'w"

text \<open>A computation that may fail with an I/O error; \<open>and_then\<close> is the operator \<^verbatim>\<open>?\<close> followed by the
  rest of the function. A socket is dropped when its scope ends, also after an error.\<close>

type_synonym ('a, 'w) io_prog = "'w \<Rightarrow> ('a io_result \<times> 'w) outcome"

definition and_then :: "('a, 'w) io_prog \<Rightarrow> ('a \<Rightarrow> ('b, 'w) io_prog) \<Rightarrow> ('b, 'w) io_prog" where
  "and_then p f w = outcome_bind (p w) (\<lambda>(r, w'). case r of Inl e \<Rightarrow> Returns (Inl e, w') | Inr x \<Rightarrow> f x w')"

definition calling :: "('w \<Rightarrow> 'a io_result \<times> 'w) \<Rightarrow> ('a, 'w) io_prog" where
  "calling f w = Returns (f w)"

definition yielding :: "'a \<Rightarrow> ('a, 'w) io_prog" where
  "yielding x w = Returns (Inr x, w)"

definition lifted :: "'a outcome \<Rightarrow> ('a, 'w) io_prog" where
  "lifted x w = outcome_bind x (\<lambda>y. Returns (Inr y, w))"

definition scoped :: "'w host \<Rightarrow> BingerUdp \<Rightarrow> ('a, 'w) io_prog \<Rightarrow> ('a, 'w) io_prog" where
  "scoped h u p w = outcome_bind (p w) (\<lambda>(r, w'). Returns (r, BingerUdp_drop (h_build h) (h_kernel h) u w'))"

definition bound :: "'w host \<Rightarrow> Config \<Rightarrow> (BingerUdp, 'w) io_prog" where
  "bound h config =
     and_then (calling (h_bind h)) (\<lambda>socket. calling (from_std (h_kernel h) (h_build h) socket config))"

text \<open>The calls of the library the programs make, with the socket they return.\<close>

definition sending_batch :: "'w host \<Rightarrow> memory \<Rightarrow> BingerUdp \<Rightarrow> SendBatch \<Rightarrow> (nat \<times> BingerUdp, 'w) io_prog" where
  "sending_batch h m u b w =
     outcome_bind (send_batch (h_imp h) (h_build h) (h_kernel h) m u (SendBatch_deref b) w) (\<lambda>(r, u', w').
       Returns (map_sum id (\<lambda>n. (n, u')) r, w'))"

definition receiving_batch :: "'w host \<Rightarrow> BingerUdp \<Rightarrow> RecvBatch \<Rightarrow> (nat \<times> BingerUdp \<times> RecvBatch, 'w) io_prog" where
  "receiving_batch h u b w =
     outcome_bind (recv_batch (h_imp h) (h_build h) (h_kernel h) u (RecvBatch_deref b) w) (\<lambda>(r, u', raw, w').
       Returns (map_sum id (\<lambda>n. (n, u', b\<lparr>recv_raw := raw\<rparr>)) r, w'))"

text \<open>\<^verbatim>\<open>push(..).unwrap()\<close> for each message.\<close>

fun push_each :: "SocketAddr \<Rightarrow> SendBatch \<Rightarrow> slice list \<Rightarrow> SendBatch outcome" where
  "push_each addr b [] = Returns b"
| "push_each addr b (msg # msgs) =
     (case SendBatch_push b msg addr of (Inl _, _) \<Rightarrow> Panics | (Inr _, b') \<Rightarrow> push_each addr b' msgs)"

text \<open>Formatting: the bytes of a text, and decimal numbers.\<close>

definition text_bytes :: "string \<Rightarrow> bytes" where
  "text_bytes s = map of_char s"

fun decimal :: "nat \<Rightarrow> bytes" where
  "decimal n = (if n < 10 then [of_nat (48 + n)] else decimal (n div 10) @ [of_nat (48 + n mod 10)])"

declare decimal.simps [simp del]

section \<open>basic.rs\<close>

text \<open>\<open>msg\<close> is where the literal \<^verbatim>\<open>b"hello binger"\<close> lies. The result: what was sent where, and what was
  received from whom.\<close>

definition basic_body ::
    "'w host \<Rightarrow> memory \<Rightarrow> slice \<Rightarrow> BingerUdp \<Rightarrow> BingerUdp \<Rightarrow> SocketAddr
       \<Rightarrow> (nat \<times> SocketAddr \<times> nat \<times> SocketAddr \<times> bytes, 'w) io_prog" where
  "basic_body h m msg sender receiver recv_addr =
      and_then (\<lambda>w. outcome_bind (send_to (h_imp h) (h_build h) (h_kernel h) (h_vec h) m sender msg recv_addr w)
         (\<lambda>(r, _, w'). Returns (r, w'))) (\<lambda>n.
      and_then (\<lambda>w. outcome_bind (recv_from (h_imp h) (h_build h) (h_kernel h) receiver (replicate 2048 0) w)
         (\<lambda>(r, buf, _, w'). Returns (map_sum id (\<lambda>x. (x, buf)) r, w'))) (\<lambda>((n', src), buf).
      and_then (lifted (prefix_or_panic buf n')) (\<lambda>received_data.
      yielding (n, recv_addr, n', src, received_data))))"

text \<open>The programs with two sockets of the default configuration begin alike.\<close>

definition on_two_sockets :: "'w host \<Rightarrow> (BingerUdp \<Rightarrow> BingerUdp \<Rightarrow> SocketAddr \<Rightarrow> ('a, 'w) io_prog) \<Rightarrow> ('a, 'w) io_prog" where
  "on_two_sockets h body =
     and_then (bound h Config_default) (\<lambda>sender. scoped h sender
     (and_then (bound h Config_default) (\<lambda>receiver. scoped h receiver
     (and_then (calling (local_addr (h_kernel h) receiver)) (\<lambda>recv_addr.
      body sender receiver recv_addr)))))"

definition basic_main :: "'w host \<Rightarrow> memory \<Rightarrow> slice \<Rightarrow> (nat \<times> SocketAddr \<times> nat \<times> SocketAddr \<times> bytes, 'w) io_prog" where
  "basic_main h m msg = on_two_sockets h (basic_body h m msg)"

section \<open>batch.rs\<close>

record batch_output =
  out_sent :: nat
  out_received :: nat
  out_first :: "(bytes \<times> SocketAddr) option"
  out_last :: "(bytes \<times> SocketAddr) option"

definition batch_messages :: "bytes list" where
  "batch_messages = map (\<lambda>i. text_bytes ''packet-'' @ decimal i) [0 ..< 32]"

text \<open>From the collection of the messages to the end.\<close>

definition batch_body :: "'w host \<Rightarrow> memory \<Rightarrow> BingerUdp \<Rightarrow> BingerUdp \<Rightarrow> SocketAddr \<Rightarrow> (batch_output, 'w) io_prog" where
  "batch_body h m sender receiver recv_addr =
     (let (msgs, m1) = h_strings h batch_messages m in
      and_then (lifted (push_each recv_addr (SendBatch_new (h_vec h) 32) msgs)) (\<lambda>send_batch.
      and_then (sending_batch h m1 sender send_batch) (\<lambda>(sent, _).
      and_then (receiving_batch h receiver (RecvBatch_new 32 2048)) (\<lambda>(n, _, recv_batch).
      if 0 < n then
        and_then (lifted (RecvBatch_iter recv_batch)) (\<lambda>items.
          if items = [] then lifted Panics
          else yielding \<lparr>out_sent = sent, out_received = n, out_first = Some (hd items), out_last = Some (last items)\<rparr>)
      else yielding \<lparr>out_sent = sent, out_received = n, out_first = None, out_last = None\<rparr>))))"

definition batch_main :: "'w host \<Rightarrow> memory \<Rightarrow> (batch_output, 'w) io_prog" where
  "batch_main h m = on_two_sockets h (batch_body h m)"

section \<open>config_builder.rs\<close>

record config_output =
  out_caps :: PlatformCaps
  out_sock_caps :: PlatformCaps
  out_config_sent :: nat
  out_config_received :: nat
  out_data :: "bytes option"

text \<open>From the capabilities of the socket to the end.\<close>

definition config_body ::
    "'w host \<Rightarrow> memory \<Rightarrow> slice \<Rightarrow> PlatformCaps \<Rightarrow> BingerUdp \<Rightarrow> BingerUdp \<Rightarrow> SocketAddr \<Rightarrow> (config_output, 'w) io_prog" where
  "config_body h m msg caps sender receiver recv_addr =
      (let sock_caps = capabilities (h_build h) receiver in
      and_then (lifted (push_each recv_addr (SendBatch_new (h_vec h) 1) [msg])) (\<lambda>send_batch.
      and_then (sending_batch h m sender send_batch) (\<lambda>(sent, _).
      and_then (receiving_batch h receiver (RecvBatch_new 1 2048)) (\<lambda>(n, _, recv_batch).
      if 0 < n then
        and_then (lifted (RecvBatch_data recv_batch 0)) (\<lambda>data.
          yielding \<lparr>out_caps = caps, out_sock_caps = sock_caps, out_config_sent = sent, out_config_received = n,
                    out_data = Some data\<rparr>)
      else yielding \<lparr>out_caps = caps, out_sock_caps = sock_caps, out_config_sent = sent, out_config_received = n,
                     out_data = None\<rparr>))))"

definition config_main :: "'w host \<Rightarrow> memory \<Rightarrow> slice \<Rightarrow> (config_output, 'w) io_prog" where
  "config_main h m msg =
     (let caps = platform_capabilities (h_build h);
          config = with_send_buf_size 65536 (with_batch_size 16 Config_new) in
      and_then (bound h config) (\<lambda>receiver. scoped h receiver
      (and_then (calling (local_addr (h_kernel h) receiver)) (\<lambda>recv_addr.
      and_then (bound h Config_default) (\<lambda>sender. scoped h sender
      (config_body h m msg caps sender receiver recv_addr))))))"

section \<open>select.rs\<close>

datatype select_line =
    SentLine u32 nat
  | ReceivedLine nat "(bytes \<times> SocketAddr) list"
  | DrainedLine nat

text \<open>The variables of the loop, with the memory the messages lie in and the lines printed so far.\<close>

record select_state =
  sel_sender :: BingerUdp
  sel_receiver :: BingerUdp
  sel_send_batch :: SendBatch
  sel_recv_batch :: RecvBatch
  sel_iteration :: u32
  sel_waiting_for_recv :: bool
  sel_pending :: "slice list"
  sel_mem :: memory
  sel_printed :: "select_line list"

definition MAX_ITER :: u32 where
  "MAX_ITER = 3"

text \<open>\<^verbatim>\<open>select!\<close>: the guards leave exactly one branch; the outcome of the wait is ignored (\<^verbatim>\<open>_ =\<close>).\<close>

definition select_step :: "'w host \<Rightarrow> select_state \<Rightarrow> (select_state, 'w) io_prog" where
  "select_step h s w =
     (if sel_waiting_for_recv s then
        (let (_, w1) = readable (h_kernel h) (sel_receiver s) w in
         and_then (receiving_batch h (sel_receiver s) (sel_recv_batch s)) (\<lambda>(n, receiver, recv_batch).
         and_then (lifted (RecvBatch_iter recv_batch)) (\<lambda>items.
         yielding (s\<lparr>sel_receiver := receiver, sel_recv_batch := RecvBatch_clear recv_batch, sel_waiting_for_recv := False,
                     sel_printed := sel_printed s @ [ReceivedLine n items]\<rparr>))) w1)
      else
        (let (_, w1) = writable (h_kernel h) (sel_sender s) w in
         if \<not> SendBatch_is_empty (sel_send_batch s) then
           and_then (sending_batch h (sel_mem s) (sel_sender s) (sel_send_batch s)) (\<lambda>(n, sender).
           yielding (s\<lparr>sel_sender := sender, sel_send_batch := SendBatch_clear (sel_send_batch s),
                       sel_iteration := sel_iteration s + 1, sel_waiting_for_recv := True,
                       sel_printed := sel_printed s @ [SentLine (sel_iteration s) n]\<rparr>)) w1
         else Returns (Inr s, w1)))"

definition round_messages :: "u32 \<Rightarrow> bytes list" where
  "round_messages iteration =
     map (\<lambda>i. text_bytes ''data-'' @ decimal i @ text_bytes ''-round'' @ decimal (unat iteration)) [0 ..< 8]"

definition select_refill :: "'w host \<Rightarrow> SocketAddr \<Rightarrow> select_state \<Rightarrow> select_state outcome" where
  "select_refill h recv_addr s =
     (if SendBatch_is_empty (sel_send_batch s) \<and> sel_iteration s < MAX_ITER then
        (let (msgs, m1) = h_strings h (round_messages (sel_iteration s)) (sel_mem s);
             m2 = h_free h (sel_pending s) m1 in
         outcome_bind (push_each recv_addr (sel_send_batch s) msgs) (\<lambda>send_batch.
           Returns (s\<lparr>sel_send_batch := send_batch, sel_pending := msgs, sel_mem := m2\<rparr>)))
      else Returns s)"

text \<open>After the last round: sleep, wait, and print what is still there. Errors are dropped.\<close>

definition select_drain :: "'w host \<Rightarrow> select_state \<Rightarrow> (select_line list, 'w) io_prog" where
  "select_drain h s w =
     (let (ready, w1) = readable (h_kernel h) (sel_receiver s) (h_sleep h w) in
      case ready of
        Inl _ \<Rightarrow> Returns (Inr (sel_printed s), w1)
      | Inr _ \<Rightarrow>
          outcome_bind (receiving_batch h (sel_receiver s) (sel_recv_batch s) w1) (\<lambda>(r, w2).
            case r of
              Inl _ \<Rightarrow> Returns (Inr (sel_printed s), w2)
            | Inr (n, _, _) \<Rightarrow> Returns (Inr (sel_printed s @ [DrainedLine n]), w2)))"

partial_function (option) select_loop ::
    "'w host \<Rightarrow> SocketAddr \<Rightarrow> select_state \<Rightarrow> 'w \<Rightarrow> (select_line list io_result \<times> 'w) outcome option" where
  "select_loop h recv_addr s w =
     (case select_step h s w of
        Returns (Inl e, w1) \<Rightarrow> Some (Returns (Inl e, w1))
      | Returns (Inr s1, w1) \<Rightarrow>
          if sel_iteration s1 \<ge> MAX_ITER then Some (select_drain h s1 w1)
          else (case select_refill h recv_addr s1 of
                  Returns s2 \<Rightarrow> select_loop h recv_addr s2 w1
                | Panics \<Rightarrow> Some Panics
                | Undefined \<Rightarrow> Some Undefined
                | Diverges \<Rightarrow> Some Diverges)
      | Panics \<Rightarrow> Some Panics
      | Undefined \<Rightarrow> Some Undefined
      | Diverges \<Rightarrow> Some Diverges)"

definition first_messages :: "bytes list" where
  "first_messages = map (\<lambda>i. text_bytes ''data-'' @ decimal i) [0 ..< 8]"

definition select_main :: "'w host \<Rightarrow> memory \<Rightarrow> (select_line list, 'w) io_prog" where
  "select_main h m = on_two_sockets h (\<lambda>sender receiver recv_addr.
     (let (msgs, m1) = h_strings h first_messages m in
      and_then (lifted (push_each recv_addr (SendBatch_new (h_vec h) 8) msgs)) (\<lambda>send_batch w.
      outcome_bind (option_outcome (select_loop h recv_addr
        \<lparr>sel_sender = sender, sel_receiver = receiver, sel_send_batch = send_batch, sel_recv_batch = RecvBatch_new 8 2048,
         sel_iteration = 0, sel_waiting_for_recv = False, sel_pending = msgs, sel_mem = m1, sel_printed = []\<rparr> w)) id)))"

section \<open>What the programs do\<close>

lemma io_Returns [outcome_simps]:
  "and_then p f w = Returns (Inr y, w') \<longleftrightarrow> (\<exists>x w1. p w = Returns (Inr x, w1) \<and> f x w1 = Returns (Inr y, w'))"
  "lifted x w = Returns (Inr y, w') \<longleftrightarrow> x = Returns y \<and> w' = w"
  "yielding z w = Returns (Inr y, w') \<longleftrightarrow> y = z \<and> w' = w"
  by (cases "p w"; cases x; auto simp: and_then_def lifted_def yielding_def split: sum.splits)+

lemma sending_batch_Returns:
  "sending_batch h m u b w = Returns (Inr (l, u'), w1) \<longleftrightarrow>
     send_batch (h_imp h) (h_build h) (h_kernel h) m u (send_raw b) w = Returns (Inr l, u', w1)"
  by (cases "send_batch (h_imp h) (h_build h) (h_kernel h) m u (send_raw b) w")
     (auto simp: sending_batch_def SendBatch_deref_def map_sum_def split: sum.splits)

text \<open>Allocated strings hold what they were made from, and freeing strings that were there before does
  not touch them.\<close>

definition strings_ok :: "'w host \<Rightarrow> bool" where
  "strings_ok h \<longleftrightarrow> (\<forall>texts m msgs m'. h_strings h texts m = (msgs, m') \<longrightarrow>
     list_all2 (\<lambda>s t. read_mem m' s = Some t) msgs texts \<and>
     (\<forall>old. list_all (\<lambda>s. read_mem m s \<noteq> None) old \<longrightarrow>
        list_all2 (\<lambda>s t. read_mem (h_free h old m') s = Some t) msgs texts))"

lemma strings_okD:
  "strings_ok h \<Longrightarrow> h_strings h texts m = (msgs, m') \<Longrightarrow> list_all2 (\<lambda>s t. read_mem m' s = Some t) msgs texts"
  unfolding strings_ok_def by blast

lemma push_each_len:
  "push_each addr b msgs = Returns b' \<Longrightarrow> SendBatch_len b' = SendBatch_len b + length msgs"
proof (induction msgs arbitrary: b)
  case (Cons msg msgs)
  then obtain b1 where "SendBatch_push b msg addr = (Inr (), b1)" "push_each addr b1 msgs = Returns b'"
    by (auto split: prod.splits sum.splits)
  moreover from this(1) have "SendBatch_len b1 = Suc (SendBatch_len b)"
    by (auto simp: SendBatch_push_def SendBatchRaw_push_def SendBatch_len_def SendBatchRaw_len_def Let_def split: if_splits)
  ultimately show ?case using Cons.IH by fastforce
qed simp

lemma push_each_entries:
  assumes "sb_inv (send_raw b)" and "length (sb_entries (send_raw b)) + length msgs \<le> sb_cap (send_raw b)"
  shows "\<exists>b'. push_each addr b msgs = Returns b' \<and> sb_inv (send_raw b') \<and>
     sb_entries (send_raw b') = sb_entries (send_raw b) @ map (\<lambda>s. (s, Some addr)) msgs"
  using assms
proof (induction msgs arbitrary: b)
  case (Cons msg msgs)
  obtain r raw where p: "SendBatchRaw_push (send_raw b) msg (Some addr) = (r, raw)" by (metis surj_pair)
  have "length (sb_entries (send_raw b)) < sb_cap (send_raw b)" using Cons.prems(2) by simp
  from sb_push_room [OF Cons.prems(1) this p] have one: "r = Inr ()" "sb_inv raw" "sb_cap raw = sb_cap (send_raw b)"
    "sb_entries raw = sb_entries (send_raw b) @ [(msg, Some addr)]" by simp_all
  with Cons.IH [of "b\<lparr>send_raw := raw\<rparr>"] Cons.prems(2) p show ?case by (simp add: SendBatch_push_def)
qed simp

lemma pushed_batch:
  assumes "list_all2 (\<lambda>s t. read_mem m s = Some t) msgs texts" and "length texts \<le> vec_alloc n"
  shows "\<exists>b. push_each addr (SendBatch_new vec_alloc n) msgs = Returns b \<and> sb_inv (send_raw b) \<and>
     sb_entries (send_raw b) = map (\<lambda>s. (s, Some addr)) msgs \<and> sb_readable m (send_raw b) \<and>
     map (payload m) msgs = texts"
proof -
  have len: "length msgs = length texts" using assms(1) by (rule list_all2_lengthD)
  have new: "sb_inv (send_raw (SendBatch_new vec_alloc n))" "sb_entries (send_raw (SendBatch_new vec_alloc n)) = []"
    "sb_cap (send_raw (SendBatch_new vec_alloc n)) = vec_alloc n"
    by (simp_all add: SendBatch_new_def sb_inv_def sb_entries_def SendBatchRaw_with_capacity_def)
  with push_each_entries [of "SendBatch_new vec_alloc n" msgs addr] assms(2) len obtain b where
    b: "push_each addr (SendBatch_new vec_alloc n) msgs = Returns b" "sb_inv (send_raw b)"
      "sb_entries (send_raw b) = map (\<lambda>s. (s, Some addr)) msgs" by auto
  have "map (payload m) msgs = texts"
    using assms(1) by (induction rule: list_all2_induct) (simp_all add: payload_def)
  moreover have "sb_readable m (send_raw b)"
    unfolding sb_readable_def b(3) using assms(1) by (induction rule: list_all2_induct) simp_all
  ultimately show ?thesis using b by blast
qed

lemma iter_packets:
  "rb_inv n (recv_raw b) \<Longrightarrow> RecvBatch_iter b = Returns (rb_packets (recv_raw b))"
  by (simp add: recv_iter_slots rb_packets_def slot_packet_def [abs_def] RecvBatch_len_def RecvBatchRaw_len_def)

lemma length_decimal: "length (decimal n) \<le> Suc n"
proof (induction n rule: decimal.induct)
  case (1 n)
  then show ?case by (subst decimal.simps) (auto intro!: order_trans [OF 1])
qed

lemma batch_messages_short: "t \<in> set batch_messages \<Longrightarrow> length t \<le> 2048"
  by (auto simp: batch_messages_def text_bytes_def intro!: order_trans [OF length_decimal])

text \<open>The setting of the programs: any platform, Linux without \<^verbatim>\<open>gro\<close>, and a network between the two
  sockets that loses nothing.\<close>

definition linked ::
    "'w host \<Rightarrow> 'w macos_api \<Rightarrow> 'w winsock \<Rightarrow> BingerUdp \<Rightarrow> BingerUdp
       \<Rightarrow> ('w \<Rightarrow> tx_msg list) \<Rightarrow> ('w \<Rightarrow> (bytes \<times> SocketAddr) list) \<Rightarrow> SocketAddr \<Rightarrow> bool" where
  "linked h A W sender receiver txlog rxq src \<longleftrightarrow>
     h_imp h = imp (h_build h) A W \<and> (native (h_build h) = Linux \<longrightarrow> \<not> feat_gro (build_rx (h_build h))) \<and>
     sends_at (h_build h) A W (h_kernel h) (udp_fd sender) txlog \<and>
     receives_at (h_build h) A W (h_kernel h) (udp_fd receiver) rxq \<and>
     wired (h_build h) A W (h_kernel h) (udp_fd sender) txlog rxq src"

lemma linkedD:
  assumes "linked h A W sender receiver txlog rxq src"
  shows "h_imp h = imp (h_build h) A W" and "native (h_build h) = Linux \<longrightarrow> \<not> feat_gro (build_rx (h_build h))"
    and "sends_at (h_build h) A W (h_kernel h) (udp_fd sender) txlog"
    and "receives_at (h_build h) A W (h_kernel h) (udp_fd receiver) rxq"
    and "wired (h_build h) A W (h_kernel h) (udp_fd sender) txlog rxq src"
  using assms by (simp_all add: linked_def)

lemma cable_linked:
  assumes "h_kernel h = cable" and "h_imp h = imp (h_build h) A W" and "posix (h_build h)"
    and "native (h_build h) = Linux \<longrightarrow> \<not> feat_gro (build_rx (h_build h))" and "udp_fd sender = 3" and "udp_fd receiver = 4"
  shows "linked h A W sender receiver (w_sent \<circ> fst) (arrived \<circ> snd) here"
  using assms cable_ends [OF assms(3)] by (simp add: linked_def)

text \<open>Batches in which every entry has a destination are good for every platform.\<close>

lemma all_with_dest_sendable:
  assumes "sb_inv b" and "sb_entries b = map (\<lambda>s. (s, Some a)) msgs" and "\<forall>s \<in> set msgs. slice_len s < 2 ^ 32"
  shows "imp_sendable bld b"
proof -
  have "dests_first b" using assms(1,2) length_sb_entries [OF assms(1)] by (auto simp: dests_first_def)
  moreover have "wsa_sendable b" using assms(2,3) by (auto simp: wsa_sendable_def list_all_iff)
  ultimately show ?thesis by (auto simp: imp_sendable_def split: target_os.splits)
qed

lemma short_enough:
  assumes "n < 2 ^ 31" and "\<forall>p \<in> set ps. length (fst p) \<le> n"
  shows "imp_roomy bld n" and "list_all (imp_admits bld n) ps"
  using assms by (auto simp: imp_roomy_def imp_admits_def wsa_roomy_def wsa_admits_def list_all_iff)

text \<open>Pushed, sent and received: the user of the receiver reads the texts.\<close>

lemma sent_then_received:
  assumes "linked h A W sender receiver txlog rxq src" and "rxq w = []"
    and "list_all2 (\<lambda>s t. read_mem m s = Some t) msgs texts" and "length texts \<le> h_vec h N"
    and "length texts \<le> cap" and "cap < 2 ^ 32" and "(\<forall>t \<in> set texts. length t \<le> n) \<and> n < 2 ^ 31"
    and "push_each recv_addr (SendBatch_new (h_vec h) N) msgs = Returns sb"
    and "sending_batch h m sender sb w = Returns (Inr (l, u'), w1)" and "0 < l"
  shows "l \<le> length texts \<and> (\<exists>ur rb w'. receiving_batch h receiver (RecvBatch_new cap n) w1 = Returns (Inr (l, ur, rb), w') \<and>
     rb_inv n (recv_raw rb) \<and> RecvBatch_iter rb = Returns (map (\<lambda>t. (t, src)) (take l texts)))"
proof -
  let ?bld = "h_build h" and ?k = "h_kernel h" and ?rb = "RecvBatchRaw_with_capacity cap n"
  note net = linkedD [OF assms(1)]
  from pushed_batch [OF assms(3), of "h_vec h" N recv_addr] assms(4,8)
  have sb: "sb_inv (send_raw sb)" "sb_readable m (send_raw sb)" "map (payload m) msgs = texts"
    "sb_entries (send_raw sb) = map (\<lambda>s. (s, Some recv_addr)) msgs" by auto
  have "length msgs = length texts" using assms(3) by (rule list_all2_lengthD)
  then have len: "sb_len (send_raw sb) = length texts" using length_sb_entries [OF sb(1)] sb(4) by simp
  have "slice_len s \<le> n" if "s \<in> set msgs" for s
  proof -
    from that obtain i where i: "i < length msgs" "s = msgs ! i" by (auto simp: in_set_conv_nth)
    with assms(3) have "read_mem m s = Some (texts ! i)" "texts ! i \<in> set texts" by (auto simp: list_all2_conv_all_nth)
    with read_mem_length [OF this(1)] assms(7) show ?thesis by auto
  qed
  then have good: "imp_sendable ?bld (send_raw sb)"
    using assms(7) by (intro all_with_dest_sendable [OF sb(1,4)]) fastforce
  have sent: "send_batch (imp ?bld A W) ?bld ?k m sender (send_raw sb) w = Returns (Inr l, u', w1)"
    using assms(9) by (simp add: sending_batch_Returns net(1))
  note carries = send_batch_carries [OF net(3) sb(1,2) good sent]
  have l: "l \<le> length texts" using carries(2) len by (simp add: SendBatchRaw_len_def)
  have q: "rxq w1 = map (carried src) (drop (length (txlog w)) (txlog w1))"
    using wired_send [OF net(5) sent] assms(2) by simp
  have "rxq w1 = map (\<lambda>t. (t, src)) (take l texts)"
    unfolding q carries(1) sb(4) sb(3) [symmetric] by (simp add: take_map comp_def)
  then have "\<forall>p \<in> set (rxq w1). length (fst p) \<le> n" using assms(7) by (auto dest: in_set_takeD)
  note short = short_enough [OF conjunct2 [OF assms(7)] this, of ?bld]
  have cap: "l \<le> RecvBatchRaw_capacity ?rb" "RecvBatchRaw_capacity ?rb < 2 ^ 32"
    using l assms(5,6) by (simp_all add: RecvBatchRaw_capacity_def RecvBatchRaw_with_capacity_def)
  from socket_to_socket [OF net(2-4) sb(1,2) good sent assms(10) q rb_inv_with_capacity cap short] obtain ur rb w' where
    r: "recv_batch (imp ?bld A W) ?bld ?k receiver ?rb w1 = Returns (Inr l, ur, rb, w')"
      "rb_packets rb = map (\<lambda>e. (take n (payload m (fst e)), src)) (take l (sb_entries (send_raw sb)))" by blast
  have "imp_rx_ok ?bld (macos_view (udp_fd receiver) A) (winsock_view (udp_fd receiver) W) (view (udp_fd receiver) ?k)"
    using net(4) by (simp add: receives_at_def)
  from imp_udp.recv_batch_ok [OF this rb_inv_with_capacity trans [OF view_batch(2) [symmetric] r(1)]]
  have inv: "rb_inv n rb" by simp
  have "rb_packets rb = map (\<lambda>t. (take n t, src)) (take l texts)"
    unfolding r(2) sb(4) sb(3) [symmetric] by (simp add: take_map comp_def)
  also have "\<dots> = map (\<lambda>t. (t, src)) (take l texts)"
    using assms(7) by (auto dest: in_set_takeD)
  finally have "RecvBatch_iter (RecvBatch_new cap n\<lparr>recv_raw := rb\<rparr>) = Returns (map (\<lambda>t. (t, src)) (take l texts))"
    using iter_packets [of n "RecvBatch_new cap n\<lparr>recv_raw := rb\<rparr>"] inv by simp
  moreover have "receiving_batch h receiver (RecvBatch_new cap n) w1 = Returns (Inr (l, ur, RecvBatch_new cap n\<lparr>recv_raw := rb\<rparr>), w')"
    using r(1) by (simp add: receiving_batch_def RecvBatch_deref_def RecvBatch_new_def net(1))
  ultimately show ?thesis using l inv by auto
qed

text \<open>The batch example shows what its comments promise: once \<^verbatim>\<open>send_batch\<close> reports \<^verbatim>\<open>l\<close> packets, it
  receives \<^verbatim>\<open>l\<close> packets in one call, and prints \<^verbatim>\<open>packet-0\<close> and the last packet sent, both with the
  sender's address.\<close>

lemma batch_example_delivers:
  assumes "linked h A W sender receiver txlog rxq src" and "rxq w = []" and "strings_ok h" and "32 \<le> h_vec h 32"
    and "h_strings h batch_messages m = (msgs, m1)"
    and "push_each recv_addr (SendBatch_new (h_vec h) 32) msgs = Returns sb"
    and "sending_batch h m1 sender sb w = Returns (Inr (l, u'), w1)" and "0 < l"
  shows "\<exists>w'. batch_body h m sender receiver recv_addr w =
     Returns (Inr \<lparr>out_sent = l, out_received = l, out_first = Some (batch_messages ! 0, src),
       out_last = Some (batch_messages ! (l - 1), src)\<rparr>, w')"
proof -
  have texts: "length batch_messages = 32" by (simp add: batch_messages_def)
  from sent_then_received [OF assms(1,2) strings_okD [OF assms(3,5)] _ _ _ _ assms(6-8), of 32 2048] assms(4) texts batch_messages_short
  obtain ur rb w' where l: "l \<le> 32"
    and r: "receiving_batch h receiver (RecvBatch_new 32 2048) w1 = Returns (Inr (l, ur, rb), w')"
      "RecvBatch_iter rb = Returns (map (\<lambda>t. (t, src)) (take l batch_messages))" by (auto simp: MAX_STACK_def)
  have ne: "take l batch_messages \<noteq> []" using texts assms(8) by auto
  then have ends: "hd (map (\<lambda>t. (t, src)) (take l batch_messages)) = (batch_messages ! 0, src)"
    "last (map (\<lambda>t. (t, src)) (take l batch_messages)) = (batch_messages ! (l - 1), src)"
    using texts l assms(8) by (simp_all add: hd_map hd_conv_nth last_map last_conv_nth)
  show ?thesis
    using assms(5-8) r ne ends by (simp add: batch_body_def and_then_def lifted_def yielding_def)
qed

text \<open>So does the configuration example: the configuration of the receiver does not get in the way,
  and the text arrives.\<close>

lemma config_example_delivers:
  assumes "linked h A W sender receiver txlog rxq src" and "rxq w = []" and "1 \<le> h_vec h 1"
    and "read_mem m msg = Some (text_bytes ''custom-config-works'')"
    and "push_each recv_addr (SendBatch_new (h_vec h) 1) [msg] = Returns sb"
    and "sending_batch h m sender sb w = Returns (Inr (l, u'), w1)" and "0 < l"
  shows "\<exists>out w'. config_body h m msg caps sender receiver recv_addr w = Returns (Inr out, w') \<and>
     out_config_sent out = 1 \<and> out_config_received out = 1 \<and> out_data out = Some (text_bytes ''custom-config-works'')"
proof -
  let ?t = "text_bytes ''custom-config-works''"
  from sent_then_received [OF assms(1,2) _ _ _ _ _ assms(5-7), of "[?t]" 1 2048] assms(3,4)
  obtain ur rb w' where "l \<le> 1"
    and r: "receiving_batch h receiver (RecvBatch_new 1 2048) w1 = Returns (Inr (l, ur, rb), w')" "rb_inv 2048 (recv_raw rb)"
      "RecvBatch_iter rb = Returns (map (\<lambda>t. (t, src)) (take l [?t]))" by (auto simp: MAX_STACK_def text_bytes_def)
  with assms(7) have l: "l = 1" by simp
  have "rb_packets (recv_raw rb) = [(?t, src)]" using iter_packets [OF r(2)] r(3) l by simp
  then have "0 < length (rb_slots (recv_raw rb))" "slot_packet (rb_slots (recv_raw rb) ! 0) = (?t, src)"
    unfolding rb_packets_def by (auto simp: map_eq_Cons_conv take_Suc_conv_app_nth) (metis nth_Cons_0 take_eq_Nil nth_take gr0I take_0 list.distinct(1))
  then have "RecvBatch_data rb 0 = Returns ?t"
    using data_in_range [OF r(2)] by (simp add: RecvBatch_data_def slot_packet_def)
  with assms(5,6) r(1) l show ?thesis
    by (simp add: config_body_def and_then_def lifted_def yielding_def Let_def)
qed

text \<open>And the basic example, once the datagram has arrived: the other end prints the text and the
  sender's address.\<close>

lemma sent_all_Inr: "sent_all buf r = Inr n \<longleftrightarrow> (\<exists>l. r = Inr l) \<and> n = slice_len buf"
  by (cases r) (auto simp: sent_all_def)

lemma basic_example_delivers:
  assumes "linked h A W sender receiver txlog rxq src" and "rxq w = []" and "1 \<le> h_vec h 1"
    and "read_mem m msg = Some (text_bytes ''hello binger'')"
    and "send_to (h_imp h) (h_build h) (h_kernel h) (h_vec h) m sender msg recv_addr w = Returns (Inr n, u', w1)"
    and "rxq w1 \<noteq> []"
  shows "\<exists>w'. basic_body h m msg sender receiver recv_addr w =
     Returns (Inr (12, recv_addr, 12, src, text_bytes ''hello binger''), w')"
proof -
  let ?bld = "h_build h" and ?k = "h_kernel h" and ?t = "text_bytes ''hello binger''"
  let ?b = "\<lparr>sb_slots = [\<lparr>data_ptr = slice_ptr msg, data_len = slice_len msg, slot_addr = Some recv_addr\<rparr>],
    sb_cap = h_vec h 1, sb_len = 1\<rparr>"
  note net = linkedD [OF assms(1)]
  have t: "length ?t = 12" "slice_len msg = 12" using read_mem_length [OF assms(4)] by (simp_all add: text_bytes_def)
  have b: "sb_inv ?b" "sb_entries ?b = [(msg, Some recv_addr)]"
    using assms(3) by (auto simp: sb_inv_def sb_entries_def slot_slice_def)
  have good: "imp_sendable ?bld ?b"
  proof (rule all_with_dest_sendable [OF b(1)])
    show "sb_entries ?b = map (\<lambda>s. (s, Some recv_addr)) [msg]" unfolding b(2) by simp
  qed (simp add: t)
  have read: "sb_readable m ?b" unfolding sb_readable_def b(2) using assms(4) by simp
  from assms(5) obtain l where sent: "send_batch (imp ?bld A W) ?bld ?k m sender ?b w = Returns (Inr l, u', w1)" and n: "n = 12"
    using t by (auto simp: send_to_def one_packet_Returns [of "h_vec h", OF assms(3)] net(1) outcome_simps sent_all_Inr)
  note c = send_batch_carries [OF net(3) b(1) read good sent]
  have q: "rxq w1 = map (\<lambda>e. (payload m (fst e), src)) (take l [(msg, Some recv_addr)])"
    using wired_send [OF net(5) sent] assms(2) c(1) b(2) by simp
  have p: "payload m msg = ?t" using assms(4) by (simp add: payload_def)
  have "l = 1" using q assms(6) c(2) by (cases l) (auto simp: SendBatchRaw_len_def)
  then have q1: "rxq w1 = (?t, src) # []" using q p by simp
  let ?A = "macos_view (udp_fd receiver) A" and ?W = "winsock_view (udp_fd receiver) W" and ?v = "view (udp_fd receiver) ?k"
  have "imp_queue ?bld ?A ?W ?v rxq" "imp_rx_ok ?bld ?A ?W ?v" "imp_roomy ?bld (length (replicate 2048 0))"
    "imp_admits ?bld (length (replicate 2048 0)) (?t, src)"
    using net(4) t by (simp_all add: receives_at_def imp_roomy_def imp_admits_def wsa_roomy_def wsa_admits_def)
  from queue_udp.recv_from_delivers [OF imp_queue_udp [OF net(2)] this(1,2) rtranclp.rtrancl_refl q1 this(3,4), where bld = ?bld and u = receiver]
  obtain ur w' where "recv_from (imp ?bld ?A ?W) ?bld ?v receiver (replicate 2048 0) w1 =
      Returns (Inr (12, src), deposit (replicate 2048 0) ?t, ur, w')" using t by (auto simp: min_def)
  then have r: "recv_from (imp ?bld A W) ?bld ?k receiver (replicate 2048 0) w1 =
      Returns (Inr (12, src), deposit (replicate 2048 0) ?t, ur, w')"
    unfolding recv_from_def view_batch(2) [of ?bld A W ?k receiver, symmetric] .
  have "prefix_or_panic (deposit (replicate 2048 0) ?t) 12 = Returns ?t"
    using t take_deposit [of 12 ?t "replicate 2048 0"] by (simp add: prefix_or_panic_def)
  with r assms(5) n show ?thesis
    by (simp add: basic_body_def and_then_def lifted_def yielding_def net(1))
qed

text \<open>The loop of the select example ends, whatever the sockets and the network do, if its calls do:
  each pass either receives or goes on to the next of three rounds.\<close>

definition passes_left :: "select_state \<Rightarrow> nat" where
  "passes_left s = 2 * (3 - unat (sel_iteration s)) + (if sel_waiting_for_recv s then 1 else 0)"

lemma select_step_progress:
  assumes "select_step h s w = Returns (Inr s1, w1)" and "sel_iteration s < MAX_ITER" and "\<not> SendBatch_is_empty (sel_send_batch s)"
  shows "passes_left s1 < passes_left s"
    and "SendBatch_is_empty (sel_send_batch s1) \<or> sel_send_batch s1 = sel_send_batch s"
proof -
  have it: "unat (sel_iteration s + 1) = Suc (unat (sel_iteration s))" "unat (sel_iteration s) < 3"
    using assms(2) by (simp_all add: MAX_ITER_def word_less_nat_alt unat_word_ariths)
  show "passes_left s1 < passes_left s"
    using assms(1,3) it
    by (auto simp: select_step_def passes_left_def outcome_simps split: if_splits prod.splits)
  show "SendBatch_is_empty (sel_send_batch s1) \<or> sel_send_batch s1 = sel_send_batch s"
    using assms(1,3)
    by (auto simp: select_step_def outcome_simps SendBatch_is_empty_def SendBatch_len_def
        SendBatchRaw_len_def SendBatch_clear_def SendBatchRaw_clear_def split: if_splits prod.splits)
qed

lemma select_refill_full:
  assumes "strings_ok h" and "select_refill h recv_addr s = Returns s'" and "sel_iteration s < MAX_ITER"
  shows "\<not> SendBatch_is_empty (sel_send_batch s')" and "passes_left s' = passes_left s" and "sel_iteration s' = sel_iteration s"
proof -
  obtain msgs m1 where a: "h_strings h (round_messages (sel_iteration s)) (sel_mem s) = (msgs, m1)" by (metis surj_pair)
  have "length msgs = 8" using list_all2_lengthD [OF strings_okD [OF assms(1) a]] by (simp add: round_messages_def)
  with assms(2,3) a show "\<not> SendBatch_is_empty (sel_send_batch s')"
    by (auto simp: select_refill_def outcome_simps SendBatch_is_empty_def dest: push_each_len split: if_splits)
  show "passes_left s' = passes_left s" "sel_iteration s' = sel_iteration s"
    using assms(2) a by (auto simp: select_refill_def outcome_simps passes_left_def split: if_splits)
qed

lemma select_example_ends:
  assumes "strings_ok h" and "sel_iteration s < MAX_ITER" and "\<not> SendBatch_is_empty (sel_send_batch s)"
  shows "\<exists>r. select_loop h recv_addr s w = Some r"
  using assms(2,3)
proof (induction "passes_left s" arbitrary: s w rule: less_induct)
  case less
  show ?case
  proof (cases "select_step h s w")
    case (Returns x)
    show ?thesis
    proof (cases "fst x")
      case (Inl e)
      with Returns show ?thesis by (cases x) (simp add: select_loop.simps)
    next
      case (Inr s1)
      then have step: "select_step h s w = Returns (Inr s1, snd x)" using Returns by (cases x) simp
      note progress = select_step_progress [OF step less.prems]
      show ?thesis
      proof (cases "sel_iteration s1 \<ge> MAX_ITER")
        case True
        with step show ?thesis by (simp add: select_loop.simps)
      next
        case False
        then have it: "sel_iteration s1 < MAX_ITER" by simp
        show ?thesis
        proof (cases "select_refill h recv_addr s1")
          case (Returns s2)
          note full = select_refill_full [OF assms(1) Returns it]
          from less.hyps [of s2 "snd x"] full progress(1) it obtain r where "select_loop h recv_addr s2 (snd x) = Some r" by auto
          with step it Returns show ?thesis by (subst select_loop.simps) auto
        qed (use step it in \<open>subst select_loop.simps, auto\<close>)+
      qed
    qed
  qed (subst select_loop.simps, simp)+
qed

end
