(* ===== verification/Buffer_Pool.thy ===== *)
theory Buffer_Pool
  imports Prelude "HOL-Library.Multiset"
begin

text \<open>
  \<^verbatim>\<open>bufs.rs\<close>: the pool of receive buffers. The bounded queue (\<^verbatim>\<open>crossbeam_queue::ArrayQueue\<close>)
  and the buffers (\<^verbatim>\<open>bytes::BytesMut\<close>) come from other crates: they are the parameters
  \<open>array_queue\<close> and \<open>bytes_mut\<close>, with the behaviour their documentation promises as the
  hypotheses \<open>queue_laws\<close> and \<open>buffer_laws\<close>. Threads share the pool, so the theory ends with
  the interleavings of their calls as a step relation.
\<close>

section \<open>What the pool is built on\<close>

record ('q, 'b) array_queue =
  aq_new :: "nat \<Rightarrow> 'q outcome"
  aq_push :: "'q \<Rightarrow> 'b \<Rightarrow> ('b + unit) \<times> 'q"
  aq_pop :: "'q \<Rightarrow> 'b option \<times> 'q"
  aq_len :: "'q \<Rightarrow> nat"
  aq_capacity :: "'q \<Rightarrow> nat"

record 'b bytes_mut =
  bm_zeroed :: "nat \<Rightarrow> 'b"
  bm_clear :: "'b \<Rightarrow> 'b"
  bm_bytes :: "'b \<Rightarrow> bytes"
  bm_capacity :: "'b \<Rightarrow> nat"

text \<open>
  The queue against the list of its elements: first in, first out, at most its capacity,
  a push into a full queue gives the element back; a capacity of zero panics.
\<close>

definition queue_laws :: "('q, 'b) array_queue \<Rightarrow> ('q \<Rightarrow> 'b list) \<Rightarrow> bool" where
  "queue_laws Q items \<longleftrightarrow>
     aq_new Q 0 = Panics \<and>
     (\<forall>c. 0 < c \<longrightarrow> (\<exists>q. aq_new Q c = Returns q \<and> items q = [] \<and> aq_capacity Q q = c)) \<and>
     (\<forall>q b r q'. aq_push Q q b = (r, q') \<longrightarrow> aq_capacity Q q' = aq_capacity Q q \<and>
        (if length (items q) < aq_capacity Q q then r = Inr () \<and> items q' = items q @ [b]
         else r = Inl b \<and> items q' = items q)) \<and>
     (\<forall>q r q'. aq_pop Q q = (r, q') \<longrightarrow> aq_capacity Q q' = aq_capacity Q q \<and>
        (case items q of [] \<Rightarrow> r = None \<and> items q' = [] | b # bs \<Rightarrow> r = Some b \<and> items q' = bs)) \<and>
     (\<forall>q. aq_len Q q = length (items q))"

definition buffer_laws :: "'b bytes_mut \<Rightarrow> bool" where
  "buffer_laws B \<longleftrightarrow>
     (\<forall>n. bm_bytes B (bm_zeroed B n) = replicate n 0) \<and>
     (\<forall>b. bm_bytes B (bm_clear B b) = [] \<and> bm_capacity B (bm_clear B b) = bm_capacity B b)"

lemma queue_laws_new:
  assumes "queue_laws Q items"
  shows "aq_new Q 0 = Panics" and "0 < c \<Longrightarrow> \<exists>q. aq_new Q c = Returns q \<and> items q = [] \<and> aq_capacity Q q = c"
  using assms by (simp_all add: queue_laws_def)

lemma queue_laws_push:
  assumes "queue_laws Q items" and "aq_push Q q b = (r, q')"
  shows "aq_capacity Q q' = aq_capacity Q q"
    and "length (items q) < aq_capacity Q q \<Longrightarrow> r = Inr () \<and> items q' = items q @ [b]"
    and "aq_capacity Q q \<le> length (items q) \<Longrightarrow> r = Inl b \<and> items q' = items q"
proof -
  have "aq_capacity Q q' = aq_capacity Q q \<and>
        (if length (items q) < aq_capacity Q q then r = Inr () \<and> items q' = items q @ [b]
         else r = Inl b \<and> items q' = items q)"
    using assms unfolding queue_laws_def by blast
  then show "aq_capacity Q q' = aq_capacity Q q"
    and "length (items q) < aq_capacity Q q \<Longrightarrow> r = Inr () \<and> items q' = items q @ [b]"
    and "aq_capacity Q q \<le> length (items q) \<Longrightarrow> r = Inl b \<and> items q' = items q"
    by (simp_all split: if_splits)
qed

lemma queue_laws_pop:
  assumes "queue_laws Q items" and "aq_pop Q q = (r, q')"
  shows "aq_capacity Q q' = aq_capacity Q q"
    and "case items q of [] \<Rightarrow> r = None \<and> items q' = [] | b # bs \<Rightarrow> r = Some b \<and> items q' = bs"
  using assms unfolding queue_laws_def by blast+

lemma queue_laws_len: "queue_laws Q items \<Longrightarrow> aq_len Q q = length (items q)"
  by (simp add: queue_laws_def)

section \<open>BufferPool\<close>

text \<open>
  \<^verbatim>\<open>Arc\<close> makes the clones of a pool share one queue, so a clone is the same state: the
  operations take the shared queue and return it updated.
\<close>

record 'q BufferPool =
  bp_pool :: 'q
  bp_buf_size :: nat

definition BufferPool_new :: "('q, 'b) array_queue \<Rightarrow> nat \<Rightarrow> nat \<Rightarrow> 'q BufferPool outcome" where
  "BufferPool_new Q capacity buf_size =
     outcome_bind (aq_new Q capacity) (\<lambda>q. Returns \<lparr>bp_pool = q, bp_buf_size = buf_size\<rparr>)"

definition BufferPool_get ::
    "('q, 'b) array_queue \<Rightarrow> 'b bytes_mut \<Rightarrow> 'q BufferPool \<Rightarrow> 'b \<times> 'q BufferPool" where
  "BufferPool_get Q B p =
     (let (r, q) = aq_pop Q (bp_pool p); p' = p\<lparr>bp_pool := q\<rparr> in
      case r of
        Some b \<Rightarrow> (bm_clear B b, p')
      | None \<Rightarrow> (bm_zeroed B (bp_buf_size p), p'))"

definition BufferPool_put :: "('q, 'b) array_queue \<Rightarrow> 'q BufferPool \<Rightarrow> 'b \<Rightarrow> 'q BufferPool" where
  "BufferPool_put Q p buf = (let (_, q) = aq_push Q (bp_pool p) buf in p\<lparr>bp_pool := q\<rparr>)"

definition BufferPool_available :: "('q, 'b) array_queue \<Rightarrow> 'q BufferPool \<Rightarrow> nat" where
  "BufferPool_available Q p = aq_len Q (bp_pool p)"

definition BufferPool_capacity :: "('q, 'b) array_queue \<Rightarrow> 'q BufferPool \<Rightarrow> nat" where
  "BufferPool_capacity Q p = aq_capacity Q (bp_pool p)"

definition BufferPool_clone :: "'q BufferPool \<Rightarrow> 'q BufferPool" where
  "BufferPool_clone p = \<lparr>bp_pool = bp_pool p, bp_buf_size = bp_buf_size p\<rparr>"

section \<open>The operations on the list of pooled buffers\<close>

abbreviation pooled :: "('q \<Rightarrow> 'b list) \<Rightarrow> 'q BufferPool \<Rightarrow> 'b list" where
  "pooled items p \<equiv> items (bp_pool p)"

lemma get_pooled:
  assumes "queue_laws Q items" and "BufferPool_get Q B p = (b, p')"
  shows "BufferPool_capacity Q p' = BufferPool_capacity Q p" and "bp_buf_size p' = bp_buf_size p"
    and "pooled items p = [] \<Longrightarrow> b = bm_zeroed B (bp_buf_size p) \<and> pooled items p' = []"
    and "pooled items p = x # xs \<Longrightarrow> b = bm_clear B x \<and> pooled items p' = xs"
proof -
  obtain r q where pop: "aq_pop Q (bp_pool p) = (r, q)" by (metis surj_pair)
  note l = queue_laws_pop [OF assms(1) pop]
  show "BufferPool_capacity Q p' = BufferPool_capacity Q p" and "bp_buf_size p' = bp_buf_size p"
    and "pooled items p = [] \<Longrightarrow> b = bm_zeroed B (bp_buf_size p) \<and> pooled items p' = []"
    and "pooled items p = x # xs \<Longrightarrow> b = bm_clear B x \<and> pooled items p' = xs"
    using assms(2) pop l
    by (auto simp: BufferPool_get_def BufferPool_capacity_def Let_def split: option.splits)
qed

lemma put_pooled:
  assumes "queue_laws Q items"
  shows "BufferPool_capacity Q (BufferPool_put Q p b) = BufferPool_capacity Q p"
    and "bp_buf_size (BufferPool_put Q p b) = bp_buf_size p"
    and "pooled items (BufferPool_put Q p b) =
      (if length (pooled items p) < BufferPool_capacity Q p then pooled items p @ [b] else pooled items p)"
proof -
  obtain r q where push: "aq_push Q (bp_pool p) b = (r, q)" by (metis surj_pair)
  note l = queue_laws_push [OF assms push]
  show "BufferPool_capacity Q (BufferPool_put Q p b) = BufferPool_capacity Q p"
    and "bp_buf_size (BufferPool_put Q p b) = bp_buf_size p"
    and "pooled items (BufferPool_put Q p b) =
      (if length (pooled items p) < BufferPool_capacity Q p then pooled items p @ [b] else pooled items p)"
    using push l by (auto simp: BufferPool_put_def BufferPool_capacity_def)
qed

section \<open>Interleavings of several threads\<close>

text \<open>
  Each pool call makes one queue operation, which is atomic; what a thread does to a buffer
  it holds is its own. The state counts the buffers allocated by \<^verbatim>\<open>get\<close> and dropped by
  \<^verbatim>\<open>put\<close>, and those handed in from elsewhere.
\<close>

record ('q, 'b) pool_state =
  ps_pool :: "'q BufferPool"
  ps_held :: "(nat \<times> 'b) multiset"
  ps_made :: nat
  ps_dropped :: nat

inductive pool_step ::
    "('q, 'b) array_queue \<Rightarrow> 'b bytes_mut \<Rightarrow> ('q, 'b) pool_state \<Rightarrow> ('q, 'b) pool_state \<Rightarrow> bool" for Q B where
  get: "BufferPool_get Q B (ps_pool s) = (b, p) \<Longrightarrow>
    made = (if BufferPool_available Q (ps_pool s) = 0 then 1 else 0) \<Longrightarrow>
    pool_step Q B s (s\<lparr>ps_pool := p, ps_held := add_mset (t, b) (ps_held s), ps_made := ps_made s + made\<rparr>)"
| put: "(t, b) \<in># ps_held s \<Longrightarrow>
    dropped = (if BufferPool_available Q (ps_pool s) < BufferPool_capacity Q (ps_pool s) then 0 else 1) \<Longrightarrow>
    pool_step Q B s (s\<lparr>ps_pool := BufferPool_put Q (ps_pool s) b, ps_held := ps_held s - {#(t, b)#},
      ps_dropped := ps_dropped s + dropped\<rparr>)"
| use: "(t, b) \<in># ps_held s \<Longrightarrow>
    pool_step Q B s (s\<lparr>ps_held := add_mset (t, b') (ps_held s - {#(t, b)#})\<rparr>)"
| bring: "pool_step Q B s (s\<lparr>ps_held := add_mset (t, b) (ps_held s), ps_made := ps_made s + 1\<rparr>)"

inductive_cases pool_stepE: "pool_step Q B s s'"

definition pool_inv :: "('q, 'b) array_queue \<Rightarrow> ('q \<Rightarrow> 'b list) \<Rightarrow> nat \<Rightarrow> ('q, 'b) pool_state \<Rightarrow> bool" where
  "pool_inv Q items c s \<longleftrightarrow>
     BufferPool_capacity Q (ps_pool s) = c \<and> length (pooled items (ps_pool s)) \<le> c \<and>
     ps_made s = length (pooled items (ps_pool s)) + size (ps_held s) + ps_dropped s"

lemma available_pooled: "queue_laws Q items \<Longrightarrow> BufferPool_available Q p = length (pooled items p)"
  by (simp add: BufferPool_available_def queue_laws_len)

lemma pool_step_inv:
  assumes "queue_laws Q items" and "pool_step Q B s s'" and "pool_inv Q items c s"
  shows "pool_inv Q items c s'"
  using assms(2)
proof cases
  case (get b p made t)
  note g = get_pooled [OF assms(1) get(2)]
  show ?thesis
  proof (cases "pooled items (ps_pool s)")
    case Nil
    with g assms(3) get show ?thesis by (simp add: pool_inv_def available_pooled [OF assms(1)])
  next
    case (Cons x xs)
    with g assms(3) get show ?thesis by (simp add: pool_inv_def available_pooled [OF assms(1)])
  qed
next
  case (put t b dropped)
  then have "size (ps_held s) = Suc (size (ps_held s - {#(t, b)#}))"
    by (simp add: size_Suc_Diff1)
  with put put_pooled [OF assms(1), of "ps_pool s" b] assms(3) show ?thesis
    by (auto simp: pool_inv_def available_pooled [OF assms(1)])
next
  case (use t b b')
  then have "size (ps_held s) = Suc (size (ps_held s - {#(t, b)#}))"
    by (simp add: size_Suc_Diff1)
  with use assms(3) show ?thesis by (simp add: pool_inv_def)
next
  case (bring t b)
  with assms(3) show ?thesis by (simp add: pool_inv_def)
qed

lemma pool_reachable_inv:
  assumes "queue_laws Q items" and "(pool_step Q B)\<^sup>*\<^sup>* s s'" and "pool_inv Q items c s"
  shows "pool_inv Q items c s'"
  using assms(2,3) by induction (auto intro: pool_step_inv [OF assms(1)])

section \<open>Sequences of calls\<close>

primrec put_all :: "('q, 'b) array_queue \<Rightarrow> 'q BufferPool \<Rightarrow> 'b list \<Rightarrow> 'q BufferPool" where
  "put_all Q p [] = p"
| "put_all Q p (b # bs) = put_all Q (BufferPool_put Q p b) bs"

primrec get_many ::
    "('q, 'b) array_queue \<Rightarrow> 'b bytes_mut \<Rightarrow> 'q BufferPool \<Rightarrow> nat \<Rightarrow> 'b list \<times> 'q BufferPool" where
  "get_many Q B p 0 = ([], p)"
| "get_many Q B p (Suc n) =
     (let (b, p1) = BufferPool_get Q B p; (bs, p2) = get_many Q B p1 n in (b # bs, p2))"

lemma put_all_pooled:
  assumes "queue_laws Q items" and "length (pooled items p) \<le> BufferPool_capacity Q p"
  shows "pooled items (put_all Q p bs) =
      pooled items p @ take (BufferPool_capacity Q p - length (pooled items p)) bs \<and>
    bp_buf_size (put_all Q p bs) = bp_buf_size p"
  using assms(2)
proof (induction bs arbitrary: p)
  case Nil
  then show ?case by simp
next
  case (Cons b bs)
  note q = put_pooled [OF assms(1), of p b]
  show ?case
  proof (cases "length (pooled items p) < BufferPool_capacity Q p")
    case True
    then obtain k where "BufferPool_capacity Q p - length (pooled items p) = Suc k"
      by (metis Suc_diff_Suc)
    moreover have "BufferPool_capacity Q p - Suc (length (pooled items p)) = k" using calculation by simp
    ultimately show ?thesis using Cons.IH [of "BufferPool_put Q p b"] q True by simp
  next
    case False
    with Cons.IH [of "BufferPool_put Q p b"] q Cons.prems show ?thesis by simp
  qed
qed

lemma get_many_pooled:
  assumes "queue_laws Q items"
  shows "fst (get_many Q B p n) =
    map (bm_clear B) (take n (pooled items p)) @
    replicate (n - length (pooled items p)) (bm_zeroed B (bp_buf_size p))"
proof (induction n arbitrary: p)
  case 0
  then show ?case by simp
next
  case (Suc n)
  obtain b p1 where g: "BufferPool_get Q B p = (b, p1)" by (metis surj_pair)
  note gp = get_pooled [OF assms g]
  show ?case
    using Suc.IH [of p1] gp g by (cases "pooled items p") (auto split: prod.splits)
qed

section \<open>A concrete queue and concrete buffers\<close>

text \<open>A queue as its capacity and its elements; a buffer as its bytes and its capacity.\<close>

definition list_queue :: "(nat \<times> 'b list, 'b) array_queue" where
  "list_queue =
     \<lparr>aq_new = (\<lambda>c. if c = 0 then Panics else Returns (c, [])),
      aq_push = (\<lambda>(c, xs) b. if length xs < c then (Inr (), (c, xs @ [b])) else (Inl b, (c, xs))),
      aq_pop = (\<lambda>(c, xs). case xs of [] \<Rightarrow> (None, (c, [])) | x # xs' \<Rightarrow> (Some x, (c, xs'))),
      aq_len = (\<lambda>(c, xs). length xs), aq_capacity = fst\<rparr>"

definition vec_buffer :: "(bytes \<times> nat) bytes_mut" where
  "vec_buffer =
     \<lparr>bm_zeroed = (\<lambda>n. (replicate n 0, n)), bm_clear = (\<lambda>(bs, c). ([], c)), bm_bytes = fst, bm_capacity = snd\<rparr>"

lemma list_queue_laws: "queue_laws list_queue snd"
  by (auto simp: queue_laws_def list_queue_def split: list.splits)

lemma vec_buffer_laws: "buffer_laws vec_buffer"
  by (simp add: buffer_laws_def vec_buffer_def split: prod.splits)

section \<open>Properties\<close>

text \<open>The pool recycles first in, first out: after buffers are put into a new pool, gets
  return the first \<^verbatim>\<open>capacity\<close> of them, in order and cleared, and then fresh zeroed buffers; a
  pool of capacity 0 cannot be created, the constructor panics.\<close>

lemma pool_recycles:
  assumes "queue_laws Q items" and "BufferPool_new Q c n = Returns p"
  shows "0 < c \<and> fst (get_many Q B (put_all Q p bs) k) =
     map (bm_clear B) (take k (take c bs)) @ replicate (k - min c (length bs)) (bm_zeroed B n)"
proof -
  have c: "0 < c" using assms queue_laws_new(1) [OF assms(1)]
    by (cases "c = 0") (simp_all add: BufferPool_new_def)
  from queue_laws_new(2) [OF assms(1) c] assms(2)
  have p: "pooled items p = []" "BufferPool_capacity Q p = c" "bp_buf_size p = n"
    by (auto simp: BufferPool_new_def BufferPool_capacity_def)
  from put_all_pooled [OF assms(1), of p bs] p
  have "pooled items (put_all Q p bs) = take c bs" "bp_buf_size (put_all Q p bs) = n" by simp_all
  with get_many_pooled [OF assms(1), of B "put_all Q p bs" k] c show ?thesis
    by (simp add: min.commute)
qed

text \<open>The length of a buffer from \<^verbatim>\<open>get\<close> tells where it came from: a recycled buffer is empty
  and keeps its own capacity, whatever the pool's buffer size; a fresh one has the pool's
  buffer size as its length and is filled with zeros.\<close>

lemma pool_get_lengths:
  assumes "queue_laws Q items" and "buffer_laws B" and "BufferPool_get Q B p = (b, p')"
  shows "if BufferPool_available Q p = 0
     then bm_bytes B b = replicate (bp_buf_size p) 0
     else bm_bytes B b = [] \<and> bm_capacity B b = bm_capacity B (hd (pooled items p))"
  using get_pooled [OF assms(1,3)] assms(2)
  by (cases "pooled items p") (simp_all add: available_pooled [OF assms(1)] buffer_laws_def)



end
