(* ===== verification/Unit_Tests.thy ===== *)
theory Unit_Tests
  imports Examples Buffer_Pool
begin

text \<open>
  The unit tests of \<^verbatim>\<open>batch.rs\<close>, \<^verbatim>\<open>bufs.rs\<close>, \<^verbatim>\<open>metrics.rs\<close> and \<^verbatim>\<open>sockaddr/unix.rs\<close> that need no socket, run on
  the model: each is the conjunction of its assertions, an \<^verbatim>\<open>unwrap\<close> being one more. They hold of
  the model as they hold of the code, which checks the definitions against what the authors
  expect of them. Where the code uses another crate, they hold for every crate with its laws.
\<close>

section \<open>batch.rs\<close>

text \<open>Addresses \<^verbatim>\<open>"127.0.0.1:8080".parse()\<close> and the like.\<close>

abbreviation local_port :: "u16 \<Rightarrow> SocketAddr" where
  "local_port p \<equiv> V4 (Ipv4Addr 127 0 0 1) p"

text \<open>Byte-string literals: where they lie, and that they are there.\<close>

definition literals :: "memory \<Rightarrow> (string \<Rightarrow> slice) \<Rightarrow> string list \<Rightarrow> bool" where
  "literals m lit ss \<longleftrightarrow> list_all (\<lambda>s. read_mem m (lit s) = Some (text_bytes s)) ss"

text \<open>What a test sees of an entry: the bytes and the destination.\<close>

definition entry_bytes :: "memory \<Rightarrow> SendBatchRaw \<Rightarrow> nat \<Rightarrow> (bytes \<times> SocketAddr option) outcome" where
  "entry_bytes m b i = outcome_bind (SendBatchRaw_entry m b i) (\<lambda>(d, a). Returns (payload m d, a))"

subsection \<open>SendBatch<N>\<close>

definition test_send_batch_new_is_empty :: "(nat \<Rightarrow> nat) \<Rightarrow> bool" where
  "test_send_batch_new_is_empty va \<longleftrightarrow>
     (let batch = SendBatch_new va 4 in
      SendBatch_len batch = 0 \<and> SendBatch_is_empty batch \<and> SendBatch_capacity batch = 4)"

definition test_send_batch_push_increments_len :: "(nat \<Rightarrow> nat) \<Rightarrow> (string \<Rightarrow> slice) \<Rightarrow> bool" where
  "test_send_batch_push_increments_len va lit \<longleftrightarrow>
     (let (r, batch) = SendBatch_push (SendBatch_new va 4) (lit ''hello'') (local_port 8080) in
      r = Inr () \<and> SendBatch_len batch = 1 \<and> \<not> SendBatch_is_empty batch)"

definition test_send_batch_push_multiple :: "(nat \<Rightarrow> nat) \<Rightarrow> memory \<Rightarrow> (string \<Rightarrow> slice) \<Rightarrow> bool" where
  "test_send_batch_push_multiple va m lit \<longleftrightarrow>
     (let addr = local_port 8080;
          (r1, b1) = SendBatch_push (SendBatch_new va 4) (lit ''a'') addr;
          (r2, b2) = SendBatch_push b1 (lit ''b'') addr;
          (r3, batch) = SendBatch_push b2 (lit ''c'') addr in
      r1 = Inr () \<and> r2 = Inr () \<and> r3 = Inr () \<and> SendBatch_len batch = 3 \<and>
      entry_bytes m (SendBatch_deref batch) 0 = Returns (text_bytes ''a'', Some addr) \<and>
      entry_bytes m (SendBatch_deref batch) 1 = Returns (text_bytes ''b'', Some addr) \<and>
      entry_bytes m (SendBatch_deref batch) 2 = Returns (text_bytes ''c'', Some addr))"

definition test_send_batch_push_batch_full :: "(nat \<Rightarrow> nat) \<Rightarrow> (string \<Rightarrow> slice) \<Rightarrow> bool" where
  "test_send_batch_push_batch_full va lit \<longleftrightarrow>
     (let addr = local_port 8080;
          (r1, b1) = SendBatch_push (SendBatch_new va 2) (lit ''a'') addr;
          (r2, b2) = SendBatch_push b1 (lit ''b'') addr;
          (r3, _) = SendBatch_push b2 (lit ''c'') addr in
      r1 = Inr () \<and> r2 = Inr () \<and> r3 = Inl (BatchFull 2))"

definition test_send_batch_push_connected_addr_is_none :: "(nat \<Rightarrow> nat) \<Rightarrow> memory \<Rightarrow> (string \<Rightarrow> slice) \<Rightarrow> bool" where
  "test_send_batch_push_connected_addr_is_none va m lit \<longleftrightarrow>
     (let (r, batch) = SendBatch_push_connected (SendBatch_new va 4) (lit ''hello'') in
      r = Inr () \<and> SendBatch_len batch = 1 \<and>
      entry_bytes m (SendBatch_deref batch) 0 = Returns (text_bytes ''hello'', None))"

definition test_send_batch_clear_resets_len :: "(nat \<Rightarrow> nat) \<Rightarrow> (string \<Rightarrow> slice) \<Rightarrow> bool" where
  "test_send_batch_clear_resets_len va lit \<longleftrightarrow>
     (let addr = local_port 8080;
          (r1, b1) = SendBatch_push (SendBatch_new va 4) (lit ''a'') addr;
          (r2, b2) = SendBatch_push b1 (lit ''b'') addr;
          batch = SendBatch_clear b2 in
      r1 = Inr () \<and> r2 = Inr () \<and> SendBatch_len b2 = 2 \<and> SendBatch_len batch = 0 \<and> SendBatch_is_empty batch)"

definition test_send_batch_default_trait :: "(nat \<Rightarrow> nat) \<Rightarrow> bool" where
  "test_send_batch_default_trait va \<longleftrightarrow>
     (let batch = SendBatch_default va 4 in
      SendBatch_len batch = 0 \<and> SendBatch_is_empty batch \<and> SendBatch_capacity batch = 4)"

definition test_send_batch_capacity_returns_const_generic :: "(nat \<Rightarrow> nat) \<Rightarrow> bool" where
  "test_send_batch_capacity_returns_const_generic va \<longleftrightarrow>
     SendBatch_capacity (SendBatch_new va 16) = 16 \<and> SendBatch_capacity (SendBatch_new va 1) = 1"

definition test_send_batch_deref_to_raw :: "(nat \<Rightarrow> nat) \<Rightarrow> memory \<Rightarrow> (string \<Rightarrow> slice) \<Rightarrow> bool" where
  "test_send_batch_deref_to_raw va m lit \<longleftrightarrow>
     (let addr = local_port 8080; (r, batch) = SendBatch_push (SendBatch_new va 4) (lit ''data'') addr in
      r = Inr () \<and> entry_bytes m (SendBatch_deref batch) 0 = Returns (text_bytes ''data'', Some addr))"

lemmas send_batch_tests = test_send_batch_new_is_empty_def test_send_batch_push_increments_len_def
  test_send_batch_push_multiple_def test_send_batch_push_batch_full_def
  test_send_batch_push_connected_addr_is_none_def test_send_batch_clear_resets_len_def
  test_send_batch_default_trait_def test_send_batch_capacity_returns_const_generic_def
  test_send_batch_deref_to_raw_def

subsection \<open>RecvBatch<N>\<close>

text \<open>The steps with which the tests play the kernel: \<^verbatim>\<open>buffer_mut\<close>, a copy to the start of the buffer,
  the source, and the length.\<close>

definition arrive :: "nat \<Rightarrow> bytes \<Rightarrow> SocketAddr \<Rightarrow> RecvBatchRaw \<Rightarrow> RecvBatchRaw outcome" where
  "arrive idx bs addr b =
     outcome_bind (RecvBatchRaw_buffer_mut b idx) (\<lambda>(buf, _).
     outcome_bind (write_buffer b idx (put_bytes buf 0 bs)) (\<lambda>b1.
     outcome_bind (write_addr b1 idx addr) (\<lambda>b2.
     RecvBatchRaw_set_recv_len b2 idx (length bs))))"

definition test_recv_batch_new_has_correct_capacity :: bool where
  "test_recv_batch_new_has_correct_capacity \<longleftrightarrow>
     (let batch = RecvBatch_new 4 1024 in
      RecvBatch_capacity batch = 4 \<and> RecvBatch_len batch = 0 \<and> RecvBatch_is_empty batch)"

definition test_recv_batch_data_returns_empty_slice_initial :: bool where
  "test_recv_batch_data_returns_empty_slice_initial \<longleftrightarrow>
     (let batch = RecvBatch_new 4 1024 in
      RecvBatch_data batch 0 = Returns [] \<and> RecvBatch_data batch 1 = Returns [] \<and>
      RecvBatch_data batch 2 = Returns [] \<and> RecvBatch_data batch 3 = Returns [])"

definition test_recv_batch_addr_returns_default_initial :: bool where
  "test_recv_batch_addr_returns_default_initial \<longleftrightarrow>
     (let batch = RecvBatch_new 4 1024; dflt = V4 (Ipv4Addr 0 0 0 0) 0 in
      RecvBatch_addr batch 0 = Returns dflt \<and> RecvBatch_addr batch 3 = Returns dflt)"

definition test_recv_batch_simulate_receive :: bool where
  "test_recv_batch_simulate_receive \<longleftrightarrow>
     outcome_bind (arrive 0 (text_bytes ''hello'') (local_port 9000) (recv_raw (RecvBatch_new 4 64))) (\<lambda>raw.
       let batch = \<lparr>recv_N = 4, recv_raw = RecvBatchRaw_set_len raw 1\<rparr> in
       Returns (RecvBatch_len batch = 1 \<and> RecvBatch_data batch 0 = Returns (text_bytes ''hello'') \<and>
         RecvBatch_addr batch 0 = Returns (local_port 9000))) = Returns True"

definition test_recv_batch_clear_resets_len_and_recv_data :: bool where
  "test_recv_batch_clear_resets_len_and_recv_data \<longleftrightarrow>
     outcome_bind (arrive 0 (text_bytes ''hello'') (local_port 9000) (recv_raw (RecvBatch_new 4 64))) (\<lambda>raw.
       let batch = RecvBatch_clear \<lparr>recv_N = 4, recv_raw = RecvBatchRaw_set_len raw 1\<rparr> in
       Returns (RecvBatch_len batch = 0 \<and> RecvBatch_is_empty batch \<and> RecvBatch_data batch 0 = Returns [])) = Returns True"

definition test_recv_batch_iter_empty :: bool where
  "test_recv_batch_iter_empty \<longleftrightarrow> RecvBatch_iter (RecvBatch_new 4 64) = Returns []"

definition test_recv_batch_iter_yields_correct_items :: bool where
  "test_recv_batch_iter_yields_correct_items \<longleftrightarrow>
     outcome_bind (arrive 0 (text_bytes ''ab'') (local_port 9001) (recv_raw (RecvBatch_new 4 64))) (\<lambda>raw1.
     outcome_bind (arrive 1 (text_bytes ''cde'') (local_port 9002) raw1) (\<lambda>raw2.
       RecvBatch_iter \<lparr>recv_N = 4, recv_raw = RecvBatchRaw_set_len raw2 2\<rparr>)) =
     Returns [(text_bytes ''ab'', local_port 9001), (text_bytes ''cde'', local_port 9002)]"

definition test_recv_batch_capacity_returns_const_generic :: bool where
  "test_recv_batch_capacity_returns_const_generic \<longleftrightarrow>
     RecvBatch_capacity (RecvBatch_new 8 512) = 8 \<and> RecvBatch_capacity (RecvBatch_new 2 512) = 2"

subsection \<open>SendBatchRaw\<close>

definition test_send_raw_with_capacity_creates_empty :: "(nat \<Rightarrow> nat) \<Rightarrow> bool" where
  "test_send_raw_with_capacity_creates_empty va \<longleftrightarrow>
     (let raw = SendBatchRaw_with_capacity va 4 in SendBatchRaw_len raw = 0 \<and> SendBatchRaw_is_empty raw)"

definition test_send_raw_push_with_addr :: "(nat \<Rightarrow> nat) \<Rightarrow> memory \<Rightarrow> (string \<Rightarrow> slice) \<Rightarrow> bool" where
  "test_send_raw_push_with_addr va m lit \<longleftrightarrow>
     (let addr = V4 (Ipv4Addr 10 0 0 1) 1234;
          (r, raw) = SendBatchRaw_push (SendBatchRaw_with_capacity va 4) (lit ''test data'') (Some addr) in
      r = Inr () \<and> SendBatchRaw_len raw = 1 \<and> entry_bytes m raw 0 = Returns (text_bytes ''test data'', Some addr))"

definition test_send_raw_push_without_addr :: "(nat \<Rightarrow> nat) \<Rightarrow> memory \<Rightarrow> (string \<Rightarrow> slice) \<Rightarrow> bool" where
  "test_send_raw_push_without_addr va m lit \<longleftrightarrow>
     (let (r, raw) = SendBatchRaw_push (SendBatchRaw_with_capacity va 4) (lit ''no-destination'') None in
      r = Inr () \<and> entry_bytes m raw 0 = Returns (text_bytes ''no-destination'', None))"

definition test_send_raw_batch_full :: "(nat \<Rightarrow> nat) \<Rightarrow> (string \<Rightarrow> slice) \<Rightarrow> bool" where
  "test_send_raw_batch_full va lit \<longleftrightarrow>
     (let addr = Some (local_port 8080);
          (r1, b1) = SendBatchRaw_push (SendBatchRaw_with_capacity va 2) (lit ''a'') addr;
          (r2, b2) = SendBatchRaw_push b1 (lit ''b'') addr;
          (r3, _) = SendBatchRaw_push b2 (lit ''c'') addr in
      r1 = Inr () \<and> r2 = Inr () \<and> r3 = Inl (BatchFull 2))"

definition test_send_raw_clear_resets_len :: "(nat \<Rightarrow> nat) \<Rightarrow> (string \<Rightarrow> slice) \<Rightarrow> bool" where
  "test_send_raw_clear_resets_len va lit \<longleftrightarrow>
     (let addr = Some (local_port 8080);
          (r1, b1) = SendBatchRaw_push (SendBatchRaw_with_capacity va 4) (lit ''a'') addr;
          (r2, b2) = SendBatchRaw_push b1 (lit ''b'') addr;
          raw = SendBatchRaw_clear b2 in
      r1 = Inr () \<and> r2 = Inr () \<and> SendBatchRaw_len b2 = 2 \<and> SendBatchRaw_len raw = 0 \<and> SendBatchRaw_is_empty raw)"

definition test_send_raw_after_clear_can_push_again :: "(nat \<Rightarrow> nat) \<Rightarrow> memory \<Rightarrow> (string \<Rightarrow> slice) \<Rightarrow> bool" where
  "test_send_raw_after_clear_can_push_again va m lit \<longleftrightarrow>
     (let addr = Some (local_port 8080);
          (r1, b1) = SendBatchRaw_push (SendBatchRaw_with_capacity va 2) (lit ''a'') addr;
          (r2, b2) = SendBatchRaw_push b1 (lit ''b'') addr;
          (r3, raw) = SendBatchRaw_push (SendBatchRaw_clear b2) (lit ''c'') addr in
      r1 = Inr () \<and> r2 = Inr () \<and> r3 = Inr () \<and> SendBatchRaw_len raw = 1 \<and>
      entry_bytes m raw 0 = Returns (text_bytes ''c'', addr))"

lemmas send_raw_tests = test_send_raw_with_capacity_creates_empty_def test_send_raw_push_with_addr_def
  test_send_raw_push_without_addr_def test_send_raw_batch_full_def test_send_raw_clear_resets_len_def
  test_send_raw_after_clear_can_push_again_def

subsection \<open>RecvBatchRaw\<close>

definition test_recv_raw_with_capacity :: bool where
  "test_recv_raw_with_capacity \<longleftrightarrow>
     (let raw = RecvBatchRaw_with_capacity 3 128 in
      RecvBatchRaw_capacity raw = 3 \<and> RecvBatchRaw_len raw = 0 \<and> RecvBatchRaw_is_empty raw)"

definition test_recv_raw_buffer_mut_returns_slice_and_addr_mut :: bool where
  "test_recv_raw_buffer_mut_returns_slice_and_addr_mut \<longleftrightarrow>
     (let raw = RecvBatchRaw_with_capacity 2 64; new_addr = V4 (Ipv4Addr 192 168 1 1) 9999 in
      outcome_bind (RecvBatchRaw_buffer_mut raw 0) (\<lambda>(buf, addr).
      outcome_bind (write_addr raw 0 new_addr) (\<lambda>raw1.
      outcome_bind (RecvBatchRaw_buffer_mut raw1 0) (\<lambda>(_, addr_back).
      Returns (length buf = 64 \<and> addr = V4 (Ipv4Addr 0 0 0 0) 0 \<and> addr_back = new_addr)))) = Returns True)"

definition test_recv_raw_set_recv_len_and_data :: bool where
  "test_recv_raw_set_recv_len_and_data \<longleftrightarrow>
     (let raw = RecvBatchRaw_with_capacity 1 32 in
      outcome_bind (RecvBatchRaw_buffer_mut raw 0) (\<lambda>(buf, _).
      outcome_bind (write_buffer raw 0 (put_bytes buf 0 (text_bytes ''data''))) (\<lambda>raw1.
      outcome_bind (RecvBatchRaw_set_recv_len raw1 0 4) (\<lambda>raw2.
      outcome_bind (RecvBatchRaw_data raw2 0) (\<lambda>d.
      Returns (d = text_bytes ''data'' \<and> length d = 4))))) = Returns True)"

definition test_recv_raw_set_len_updates_len :: bool where
  "test_recv_raw_set_len_updates_len \<longleftrightarrow>
     (let raw = RecvBatchRaw_with_capacity 4 32; raw1 = RecvBatchRaw_set_len raw 2; raw2 = RecvBatchRaw_set_len raw1 0 in
      RecvBatchRaw_len raw = 0 \<and> RecvBatchRaw_len raw1 = 2 \<and> \<not> RecvBatchRaw_is_empty raw1 \<and>
      RecvBatchRaw_len raw2 = 0 \<and> RecvBatchRaw_is_empty raw2)"

definition test_recv_raw_clear_resets_len_and_recv_len :: bool where
  "test_recv_raw_clear_resets_len_and_recv_len \<longleftrightarrow>
     (let addr = V4 (Ipv4Addr 10 0 0 1) 5555 in
      outcome_bind (arrive 0 (text_bytes ''foo'') addr (RecvBatchRaw_with_capacity 2 32)) (\<lambda>raw1.
      outcome_bind (arrive 1 (text_bytes ''bar'') addr raw1) (\<lambda>raw2.
      let raw = RecvBatchRaw_clear (RecvBatchRaw_set_len raw2 2) in
      Returns (RecvBatchRaw_len raw = 0 \<and> RecvBatchRaw_is_empty raw \<and>
        RecvBatchRaw_data raw 0 = Returns [] \<and> RecvBatchRaw_data raw 1 = Returns []))) = Returns True)"

definition test_recv_raw_untouched_slot_data_is_empty :: bool where
  "test_recv_raw_untouched_slot_data_is_empty \<longleftrightarrow>
     (let raw = RecvBatchRaw_with_capacity 4 32 in RecvBatchRaw_data raw 0 = Returns [] \<and> RecvBatchRaw_data raw 3 = Returns [])"

lemmas recv_tests = test_recv_batch_new_has_correct_capacity_def test_recv_batch_data_returns_empty_slice_initial_def
  test_recv_batch_addr_returns_default_initial_def test_recv_batch_simulate_receive_def
  test_recv_batch_clear_resets_len_and_recv_data_def test_recv_batch_iter_empty_def
  test_recv_batch_iter_yields_correct_items_def test_recv_batch_capacity_returns_const_generic_def
  test_recv_raw_with_capacity_def test_recv_raw_buffer_mut_returns_slice_and_addr_mut_def
  test_recv_raw_set_recv_len_and_data_def test_recv_raw_set_len_updates_len_def
  test_recv_raw_clear_resets_len_and_recv_len_def test_recv_raw_untouched_slot_data_is_empty_def

subsection \<open>Timestamp\<close>

definition test_timestamp_as_duration_basic :: bool where
  "test_timestamp_as_duration_basic \<longleftrightarrow>
     Timestamp_as_duration \<lparr>tv_sec = 1, tv_nsec = 500000000\<rparr> = Returns \<lparr>dur_secs = 1, dur_nanos = 500000000\<rparr>"

definition test_timestamp_as_duration_zero :: bool where
  "test_timestamp_as_duration_zero \<longleftrightarrow>
     Timestamp_as_duration \<lparr>tv_sec = 0, tv_nsec = 0\<rparr> = Returns \<lparr>dur_secs = 0, dur_nanos = 0\<rparr>"

definition test_timestamp_as_duration_large_values :: bool where
  "test_timestamp_as_duration_large_values \<longleftrightarrow>
     Timestamp_as_duration \<lparr>tv_sec = 1000000, tv_nsec = 123456789\<rparr> = Returns \<lparr>dur_secs = 1000000, dur_nanos = 123456789\<rparr>"

text \<open>All of them hold. The tests of a full batch expect \<^verbatim>\<open>Vec::with_capacity(2)\<close> to allocate exactly two
  slots; its documentation promises at least two.\<close>

lemmas send_ops = SendBatch_new_def SendBatch_default_def SendBatch_push_def SendBatch_push_connected_def SendBatch_len_def
  SendBatch_is_empty_def SendBatch_capacity_def SendBatch_clear_def SendBatch_deref_def SendBatchRaw_with_capacity_def
  SendBatchRaw_push_def SendBatchRaw_len_def SendBatchRaw_is_empty_def SendBatchRaw_clear_def SendBatchRaw_entry_def
  slot_slice_def index_or_panic_def

lemmas recv_ops = RecvBatch_new_def RecvBatch_len_def RecvBatch_is_empty_def RecvBatch_capacity_def RecvBatch_data_def
  RecvBatch_addr_def RecvBatch_clear_def RecvBatch_iter_def RecvBatchRaw_with_capacity_def RecvBatchRaw_capacity_def
  RecvBatchRaw_len_def RecvBatchRaw_is_empty_def RecvBatchRaw_set_len_def RecvBatchRaw_set_recv_len_def
  RecvBatchRaw_buffer_mut_def RecvBatchRaw_data_def RecvBatchRaw_addr_def RecvBatchRaw_clear_def write_buffer_def write_addr_def
  on_slot_def update_or_panic_def index_or_panic_def prefix_or_panic_def fresh_slot_def arrive_def put_bytes_def text_bytes_def

lemma send_tests_pass:
  assumes "\<And>n. n \<le> va n" and "literals m lit [''a'', ''b'', ''c'', ''hello'', ''data'', ''test data'', ''no-destination'']"
  shows "test_send_batch_new_is_empty va" and "test_send_batch_push_increments_len va lit"
    and "test_send_batch_push_multiple va m lit" and "test_send_batch_push_connected_addr_is_none va m lit"
    and "test_send_batch_clear_resets_len va lit" and "test_send_batch_default_trait va"
    and "test_send_batch_capacity_returns_const_generic va" and "test_send_batch_deref_to_raw va m lit"
    and "test_send_raw_with_capacity_creates_empty va" and "test_send_raw_push_with_addr va m lit"
    and "test_send_raw_push_without_addr va m lit" and "test_send_raw_clear_resets_len va lit"
    and "test_send_raw_after_clear_can_push_again va m lit"
proof -
  have room: "\<not> va 4 \<le> 0" "\<not> va 4 \<le> 1" "\<not> va 4 \<le> 2" "\<not> va 2 \<le> 0" "\<not> va 2 \<le> 1" "va 4 \<noteq> 0" "va 2 \<noteq> 0"
    using assms(1) [of 4] assms(1) [of 2] by simp_all
  have slice: "\<lparr>slice_ptr = slice_ptr x, slice_len = slice_len x\<rparr> = x" for x :: slice by simp
  note eval = send_batch_tests send_raw_tests send_ops entry_bytes_def payload_def slice Let_def nth_Cons'
  show "test_send_batch_new_is_empty va" "test_send_batch_push_increments_len va lit"
    "test_send_batch_push_multiple va m lit" "test_send_batch_push_connected_addr_is_none va m lit"
    "test_send_batch_clear_resets_len va lit" "test_send_batch_default_trait va"
    "test_send_batch_capacity_returns_const_generic va" "test_send_batch_deref_to_raw va m lit"
    "test_send_raw_with_capacity_creates_empty va" "test_send_raw_push_with_addr va m lit"
    "test_send_raw_push_without_addr va m lit" "test_send_raw_clear_resets_len va lit"
    "test_send_raw_after_clear_can_push_again va m lit"
    using room assms(2) by (simp_all add: eval literals_def)
qed

lemma full_tests_pass:
  assumes "va 2 = 2"
  shows "test_send_batch_push_batch_full va lit" and "test_send_raw_batch_full va lit"
  using assms by (simp_all add: test_send_batch_push_batch_full_def test_send_raw_batch_full_def send_ops Let_def)

lemma recv_tests_pass:
  "test_recv_batch_new_has_correct_capacity" "test_recv_batch_data_returns_empty_slice_initial"
  "test_recv_batch_addr_returns_default_initial" "test_recv_batch_simulate_receive"
  "test_recv_batch_clear_resets_len_and_recv_data" "test_recv_batch_iter_empty"
  "test_recv_batch_iter_yields_correct_items" "test_recv_batch_capacity_returns_const_generic"
  "test_recv_raw_with_capacity" "test_recv_raw_buffer_mut_returns_slice_and_addr_mut"
  "test_recv_raw_set_recv_len_and_data" "test_recv_raw_set_len_updates_len"
  "test_recv_raw_clear_resets_len_and_recv_len" "test_recv_raw_untouched_slot_data_is_empty"
  by (simp_all add: recv_tests recv_ops Let_def upt_rec)

lemma timestamp_tests_pass:
  "test_timestamp_as_duration_basic" "test_timestamp_as_duration_zero" "test_timestamp_as_duration_large_values"
  by (simp_all add: test_timestamp_as_duration_basic_def test_timestamp_as_duration_zero_def
      test_timestamp_as_duration_large_values_def Timestamp_as_duration_def Duration_new_def)

section \<open>bufs.rs\<close>

text \<open>A new pool is unwrapped by \<open>outcome_bind\<close>: a panic of \<^verbatim>\<open>new\<close> fails the test. \<open>appended\<close> is
  \<^verbatim>\<open>BytesMut::extend_from_slice\<close>.\<close>

definition test_new_pool_is_empty :: "('q, 'b) array_queue \<Rightarrow> bool" where
  "test_new_pool_is_empty Q \<longleftrightarrow>
     outcome_bind (BufferPool_new Q 4 64) (\<lambda>pool.
       Returns (BufferPool_available Q pool = 0 \<and> BufferPool_capacity Q pool = 4)) = Returns True"

definition test_get_returns_zeroed_buffer_when_empty :: "('q, 'b) array_queue \<Rightarrow> 'b bytes_mut \<Rightarrow> bool" where
  "test_get_returns_zeroed_buffer_when_empty Q B \<longleftrightarrow>
     outcome_bind (BufferPool_new Q 4 64) (\<lambda>pool.
       let (buf, _) = BufferPool_get Q B pool in
       Returns (length (bm_bytes B buf) = 64 \<and> list_all (\<lambda>b. b = 0) (bm_bytes B buf))) = Returns True"

definition test_put_and_get_roundtrip :: "('q, 'b) array_queue \<Rightarrow> 'b bytes_mut \<Rightarrow> ('b \<Rightarrow> bytes \<Rightarrow> 'b) \<Rightarrow> bool" where
  "test_put_and_get_roundtrip Q B appended \<longleftrightarrow>
     outcome_bind (BufferPool_new Q 4 64) (\<lambda>pool.
       let (buf, pool1) = BufferPool_get Q B pool;
           pool2 = BufferPool_put Q pool1 (appended buf (text_bytes ''hello''));
           (buf2, _) = BufferPool_get Q B pool2 in
       Returns (BufferPool_available Q pool2 = 1 \<and> length (bm_bytes B buf2) = 0 \<and> bm_capacity B buf2 \<ge> 5)) = Returns True"

definition test_put_does_not_exceed_capacity :: "('q, 'b) array_queue \<Rightarrow> 'b bytes_mut \<Rightarrow> bool" where
  "test_put_does_not_exceed_capacity Q B \<longleftrightarrow>
     outcome_bind (BufferPool_new Q 2 64) (\<lambda>pool.
       let (b1, p1) = BufferPool_get Q B pool;
           (b2, p2) = BufferPool_get Q B p1;
           (b3, p3) = BufferPool_get Q B p2;
           p4 = BufferPool_put Q (BufferPool_put Q (BufferPool_put Q p3 b1) b2) b3 in
       Returns (BufferPool_available Q p4 = 2)) = Returns True"

text \<open>The clone shares the queue of the pool, so its state is the one after the \<^verbatim>\<open>get\<close>.\<close>

definition test_clone_shares_pool :: "('q, 'b) array_queue \<Rightarrow> 'b bytes_mut \<Rightarrow> bool" where
  "test_clone_shares_pool Q B \<longleftrightarrow>
     outcome_bind (BufferPool_new Q 4 64) (\<lambda>pool.
       let (buf, pool1) = BufferPool_get Q B pool; cloned = BufferPool_clone pool1 in
       Returns (length (bm_bytes B buf) = 64 \<and> BufferPool_available Q cloned = 0 \<and> BufferPool_capacity Q cloned = 4)) =
     Returns True"

lemmas pool_tests = test_new_pool_is_empty_def test_get_returns_zeroed_buffer_when_empty_def test_put_and_get_roundtrip_def
  test_put_does_not_exceed_capacity_def test_clone_shares_pool_def

lemma new_pool:
  assumes "queue_laws Q items" and "0 < c"
  obtains p where "BufferPool_new Q c n = Returns p" "items (bp_pool p) = []" "BufferPool_capacity Q p = c" "bp_buf_size p = n"
proof -
  from queue_laws_new(2) [OF assms] obtain q where q: "aq_new Q c = Returns q" "items q = []" "aq_capacity Q q = c" by blast
  show ?thesis by (rule that [of "\<lparr>bp_pool = q, bp_buf_size = n\<rparr>"]) (simp_all add: q BufferPool_new_def BufferPool_capacity_def)
qed

lemma get_empty:
  assumes "queue_laws Q items" and "items (bp_pool p) = []"
  obtains p' where "BufferPool_get Q B p = (bm_zeroed B (bp_buf_size p), p')" "items (bp_pool p') = []"
    "BufferPool_capacity Q p' = BufferPool_capacity Q p" "bp_buf_size p' = bp_buf_size p"
proof -
  obtain b p' where g: "BufferPool_get Q B p = (b, p')" by (metis surj_pair)
  note l = get_pooled [OF assms(1) g]
  from l(3) [OF assms(2)] g l(1,2) show ?thesis by (intro that [of p']) simp_all
qed

lemma pool_tests_pass:
  assumes "queue_laws Q items" and "buffer_laws B"
    and "\<And>b bs. bm_bytes B (appended b bs) = bm_bytes B b @ bs" and "\<And>b. length (bm_bytes B b) \<le> bm_capacity B b"
  shows "test_new_pool_is_empty Q" and "test_get_returns_zeroed_buffer_when_empty Q B"
    and "test_put_and_get_roundtrip Q B appended" and "test_put_does_not_exceed_capacity Q B" and "test_clone_shares_pool Q B"
proof -
  have B: "bm_bytes B (bm_zeroed B n) = replicate n 0" "bm_bytes B (bm_clear B b) = []" "bm_capacity B (bm_clear B b) = bm_capacity B b"
    for n b using assms(2) by (simp_all add: buffer_laws_def)
  note avail = BufferPool_available_def queue_laws_len [OF assms(1)] and put = put_pooled [OF assms(1)]
  obtain p where p: "BufferPool_new Q 4 64 = Returns p" "items (bp_pool p) = []" "BufferPool_capacity Q p = 4" "bp_buf_size p = 64"
    by (rule new_pool [OF assms(1), of 4 64]) simp_all
  obtain p1 where p1: "BufferPool_get Q B p = (bm_zeroed B 64, p1)" "items (bp_pool p1) = []" "BufferPool_capacity Q p1 = 4"
    using get_empty [OF assms(1) p(2), of B] p(3,4) by metis
  show "test_new_pool_is_empty Q" "test_get_returns_zeroed_buffer_when_empty Q B"
    using p p1 by (simp_all add: pool_tests avail B list_all_iff)
  show "test_clone_shares_pool Q B"
    using p p1 by (simp add: pool_tests avail B BufferPool_clone_def BufferPool_capacity_def)
  let ?x = "appended (bm_zeroed B 64) (text_bytes ''hello'')"
  let ?p2 = "BufferPool_put Q p1 ?x"
  have i2: "items (bp_pool ?p2) = [?x]" using put(3) [of p1 ?x] p1(2,3) by simp
  obtain b p3 where g: "BufferPool_get Q B ?p2 = (b, p3)" by (metis surj_pair)
  have "b = bm_clear B ?x" using get_pooled(4) [OF assms(1) g i2] by simp
  moreover have "5 \<le> bm_capacity B ?x" using assms(4) [of ?x] by (simp add: assms(3) B text_bytes_def)
  ultimately show "test_put_and_get_roundtrip Q B appended"
    using p p1 i2 g by (simp add: pool_tests avail B)
  obtain q where q: "BufferPool_new Q 2 64 = Returns q" "items (bp_pool q) = []" "BufferPool_capacity Q q = 2"
    by (rule new_pool [OF assms(1), of 2 64]) simp_all
  obtain q1 where q1: "BufferPool_get Q B q = (bm_zeroed B (bp_buf_size q), q1)" "items (bp_pool q1) = []" "BufferPool_capacity Q q1 = 2"
    using get_empty [OF assms(1) q(2), of B] q(3) by metis
  obtain q2 where q2: "BufferPool_get Q B q1 = (bm_zeroed B (bp_buf_size q1), q2)" "items (bp_pool q2) = []" "BufferPool_capacity Q q2 = 2"
    using get_empty [OF assms(1) q1(2), of B] q1(3) by metis
  obtain q3 where q3: "BufferPool_get Q B q2 = (bm_zeroed B (bp_buf_size q2), q3)" "items (bp_pool q3) = []" "BufferPool_capacity Q q3 = 2"
    using get_empty [OF assms(1) q2(2), of B] q2(3) by metis
  show "test_put_does_not_exceed_capacity Q B"
    using q q1 q2 q3 by (simp add: pool_tests avail put)
qed

section \<open>metrics.rs\<close>

definition test_default_all_zero :: bool where
  "test_default_all_zero \<longleftrightarrow>
     (let m = BingerMetrics_default in
      packets_sent m = 0 \<and> packets_received m = 0 \<and> batches_sent m = 0 \<and> batches_received m = 0 \<and>
      send_syscalls m = 0 \<and> recv_syscalls m = 0 \<and> send_errors m = 0 \<and> recv_errors m = 0 \<and>
      send_would_block m = 0 \<and> recv_would_block m = 0)"

definition test_inc_counters :: bool where
  "test_inc_counters \<longleftrightarrow>
     (let m = inc_recv_would_block (inc_send_would_block (inc_recv_errors (inc_send_errors (inc_recv_syscalls
                (inc_send_syscalls (inc_batches_received (inc_batches_sent (inc_packets_received 5
                (inc_packets_sent 10 BingerMetrics_default))))))))) in
      packets_sent m = 10 \<and> packets_received m = 5 \<and> batches_sent m = 1 \<and> batches_received m = 1 \<and>
      send_syscalls m = 1 \<and> recv_syscalls m = 1 \<and> send_errors m = 1 \<and> recv_errors m = 1 \<and>
      send_would_block m = 1 \<and> recv_would_block m = 1)"

definition test_inc_accumulates :: bool where
  "test_inc_accumulates \<longleftrightarrow> packets_sent (inc_packets_sent 7 (inc_packets_sent 3 BingerMetrics_default)) = 10"

definition test_snapshot_matches_counters :: bool where
  "test_snapshot_matches_counters \<longleftrightarrow>
     (let snap = snapshot (inc_batches_sent (inc_packets_sent 32 BingerMetrics_default)) in
      s_packets_sent snap = 32 \<and> s_batches_sent snap = 1 \<and> s_packets_received snap = 0)"

definition test_reset_clears_all :: bool where
  "test_reset_clears_all \<longleftrightarrow>
     (let m = reset (inc_send_syscalls (inc_packets_sent 100 BingerMetrics_default)) in
      packets_sent m = 0 \<and> send_syscalls m = 0)"

text \<open>\<^verbatim>\<open>f64::EPSILON\<close>. The differences the tests take are of equal numbers, so the subtraction is exact.\<close>

definition EPSILON :: f64 where
  "EPSILON = 1 / 2 ^ 52"

definition test_efficiency_ratio_no_syscalls :: bool where
  "test_efficiency_ratio_no_syscalls \<longleftrightarrow> \<bar>syscall_efficiency_ratio BingerMetrics_default\<bar> < EPSILON"

definition test_efficiency_ratio_perfect_batching :: bool where
  "test_efficiency_ratio_perfect_batching \<longleftrightarrow>
     \<bar>syscall_efficiency_ratio (inc_send_syscalls (inc_packets_sent 32 BingerMetrics_default)) - 32\<bar> < EPSILON"

definition test_efficiency_ratio_no_batching :: bool where
  "test_efficiency_ratio_no_batching \<longleftrightarrow>
     \<bar>syscall_efficiency_ratio (inc_send_syscalls (inc_packets_sent 1 BingerMetrics_default)) - 1\<bar> < EPSILON"

definition test_efficiency_ratio_mixed :: bool where
  "test_efficiency_ratio_mixed \<longleftrightarrow>
     \<bar>syscall_efficiency_ratio (inc_send_syscalls (inc_send_syscalls (inc_send_syscalls (inc_send_syscalls (inc_send_syscalls
        (inc_send_syscalls (inc_send_syscalls (inc_send_syscalls (inc_send_syscalls (inc_send_syscalls
        (inc_packets_sent 100 BingerMetrics_default))))))))))) - 10\<bar> < EPSILON"

definition test_snapshot_efficiency_matches :: bool where
  "test_snapshot_efficiency_matches \<longleftrightarrow>
     \<bar>s_syscall_efficiency (snapshot (inc_send_syscalls (inc_packets_sent 64 BingerMetrics_default))) - 64\<bar> < EPSILON"

lemmas metrics_tests = test_default_all_zero_def test_inc_counters_def test_inc_accumulates_def test_snapshot_matches_counters_def
  test_reset_clears_all_def test_efficiency_ratio_no_syscalls_def test_efficiency_ratio_perfect_batching_def
  test_efficiency_ratio_no_batching_def test_efficiency_ratio_mixed_def test_snapshot_efficiency_matches_def

lemma rnd_numeral: "numeral n \<le> (2 ^ 53 :: nat) \<Longrightarrow> rnd (numeral n) = numeral n" "rnd 1 = 1" "rnd 0 = 0"
  using rnd_of_nat [of "numeral n"] rnd_of_nat [of 1] by (simp_all add: rnd_def)

lemma metrics_tests_pass:
  "test_default_all_zero" "test_inc_counters" "test_inc_accumulates" "test_snapshot_matches_counters" "test_reset_clears_all"
  "test_efficiency_ratio_no_syscalls" "test_efficiency_ratio_perfect_batching" "test_efficiency_ratio_no_batching"
  "test_efficiency_ratio_mixed" "test_snapshot_efficiency_matches"
  by (simp_all add: metrics_tests counter_loads counter_incs BingerMetrics_default_def snapshot_def reset_def Let_def EPSILON_def
      syscall_efficiency_ratio_def f64_of_u64_def f64_div_def rnd_numeral)

section \<open>sockaddr/unix.rs\<close>

definition comes_back :: "libc \<Rightarrow> SocketAddr \<Rightarrow> bool" where
  "comes_back c addr \<longleftrightarrow>
     (let (storage, len) = encode_sockaddr c addr (zeroed_storage c) in decode_sockaddr c storage len = addr)"

definition test_encode_decode_v4_loopback :: "libc \<Rightarrow> bool" where
  "test_encode_decode_v4_loopback c \<longleftrightarrow> comes_back c (V4 (Ipv4Addr 127 0 0 1) 8080)"

definition test_encode_decode_v4_broadcast :: "libc \<Rightarrow> bool" where
  "test_encode_decode_v4_broadcast c \<longleftrightarrow> comes_back c (V4 (Ipv4Addr 255 255 255 255) 0)"

definition test_encode_decode_v4_unspecified :: "libc \<Rightarrow> bool" where
  "test_encode_decode_v4_unspecified c \<longleftrightarrow> comes_back c (V4 (Ipv4Addr 0 0 0 0) 0)"

definition test_encode_decode_v6_loopback :: "libc \<Rightarrow> bool" where
  "test_encode_decode_v6_loopback c \<longleftrightarrow> comes_back c (V6 (Ipv6Addr (replicate 15 0 @ [1])) 8080 0 0)"

definition test_encode_decode_v6_unspecified :: "libc \<Rightarrow> bool" where
  "test_encode_decode_v6_unspecified c \<longleftrightarrow> comes_back c (V6 (Ipv6Addr (replicate 16 0)) 0 0 0)"

definition test_encode_decode_v6_with_flowinfo_scope_id :: "libc \<Rightarrow> bool" where
  "test_encode_decode_v6_with_flowinfo_scope_id c \<longleftrightarrow>
     comes_back c (V6 (Ipv6Addr ([254, 128] @ replicate 13 0 @ [1])) 12345 11259375 42)"

definition test_decode_zero_len_returns_v4_unspecified :: "libc \<Rightarrow> bool" where
  "test_decode_zero_len_returns_v4_unspecified c \<longleftrightarrow> decode_sockaddr c (zeroed_storage c) 0 = V4 (Ipv4Addr 0 0 0 0) 0"

definition test_decode_unknown_family_returns_v4_unspecified :: "libc \<Rightarrow> bool" where
  "test_decode_unknown_family_returns_v4_unspecified c \<longleftrightarrow>
     decode_sockaddr c (put_bytes (zeroed_storage c) (off_family c) (family_bytes c 255)) (of_nat (size_storage c)) =
     V4 (Ipv4Addr 0 0 0 0) 0"

lemma comes_back: "libc_ok c \<Longrightarrow> wf_addr a \<Longrightarrow> comes_back c a"
  using decode_encode [of c a "zeroed_storage c"] by (auto simp: comes_back_def split: prod.splits)

lemma sockaddr_tests_pass:
  assumes "libc_ok c" and "AF_INET c \<noteq> 255" and "AF_INET6 c \<noteq> 255"
  shows "test_encode_decode_v4_loopback c" and "test_encode_decode_v4_broadcast c" and "test_encode_decode_v4_unspecified c"
    and "test_encode_decode_v6_loopback c" and "test_encode_decode_v6_unspecified c"
    and "test_encode_decode_v6_with_flowinfo_scope_id c" and "test_decode_zero_len_returns_v4_unspecified c"
    and "test_decode_unknown_family_returns_v4_unspecified c"
proof -
  show "test_encode_decode_v4_loopback c" "test_encode_decode_v4_broadcast c" "test_encode_decode_v4_unspecified c"
    "test_encode_decode_v6_loopback c" "test_encode_decode_v6_unspecified c" "test_encode_decode_v6_with_flowinfo_scope_id c"
    unfolding test_encode_decode_v4_loopback_def test_encode_decode_v4_broadcast_def test_encode_decode_v4_unspecified_def
      test_encode_decode_v6_loopback_def test_encode_decode_v6_unspecified_def test_encode_decode_v6_with_flowinfo_scope_id_def
    by (simp_all add: comes_back [OF assms(1)])
  show "test_decode_zero_len_returns_v4_unspecified c"
    by (simp add: test_decode_zero_len_returns_v4_unspecified_def decode_unknown_unspecified)
  let ?st = "put_bytes (zeroed_storage c) (off_family c) (family_bytes c 255)"
  have "off_family c + family_width c \<le> size_storage c" using assms(1) by (simp add: libc_ok_def)
  then have "get_bytes ?st (off_family c) (family_width c) = family_bytes c 255"
    using get_put_same [of "off_family c" "family_bytes c 255" "zeroed_storage c"] by (simp add: bytes_simps)
  moreover have "(255 :: int) < 2 ^ (8 * family_width c)" by (simp add: family_width_def)
  ultimately have "ss_family c ?st = 255" by (intro ss_family_of_bytes) simp_all
  then show "test_decode_unknown_family_returns_v4_unspecified c"
    unfolding test_decode_unknown_family_returns_v4_unspecified_def
    using assms(2,3) by (intro decode_unknown_unspecified) simp
qed

end
