(* ===== verification/Offload.thy ===== *)
theory Offload
  imports Socket_Runs
begin

text \<open>
  Segmentation offload on Linux. Receiving (\<^verbatim>\<open>gro\<close>): the kernel may hand over several datagrams of a
  flow as one message with a segment size, which \<^verbatim>\<open>try_recv_batch\<close> splits over the slots. Sending
  (\<^verbatim>\<open>gso\<close>): one buffer goes to the kernel with a segment size, and leaves as a datagram per segment.
\<close>

section \<open>Splitting a coalesced message\<close>

text \<open>A payload in pieces of the segment size, the last possibly shorter.\<close>

function chunks :: "nat \<Rightarrow> 'a list \<Rightarrow> 'a list list" where
  "chunks s xs = (if s = 0 \<or> xs = [] then [] else take s xs # chunks s (drop s xs))"
  by pat_completeness auto
termination
  by (relation "measure (\<lambda>(s, xs). length xs)") auto

declare chunks.simps [simp del]

lemma concat_chunks: "0 < s \<Longrightarrow> concat (chunks s xs) = xs"
  by (induction s xs rule: chunks.induct) (simp add: chunks.simps)

lemma chunks_Nil [simp]: "chunks s [] = []"
  by (simp add: chunks.simps)

lemma chunks_Cons: "0 < s \<Longrightarrow> xs \<noteq> [] \<Longrightarrow> chunks s xs = take s xs # chunks s (drop s xs)"
  by (subst chunks.simps) simp

lemma chunks_length: "ch \<in> set (chunks s xs) \<Longrightarrow> length ch \<le> s \<and> length ch \<le> length xs"
  by (induction s xs rule: chunks.induct) (subst (asm) (2) chunks.simps, auto split: if_splits)

definition gro_slot :: "features \<Rightarrow> RecvSlot \<Rightarrow> bytes \<Rightarrow> SocketAddr \<Rightarrow> RecvSlot \<Rightarrow> RecvSlot" where
  "gro_slot f fs seg a s =
     s\<lparr>rs_buf := put_bytes (rs_buf s) 0 seg, rs_recv_len := of_nat (length seg), rs_addr := a,
       rs_timestamp := (if feat_timestamping f then rs_timestamp fs else rs_timestamp s),
       rs_dst_addr := (if feat_pktinfo f then rs_dst_addr fs else rs_dst_addr s)\<rparr>"

lemma gro_copy_slot:
  assumes "nxt < length (rb_slots b)" and "first < nxt"
    and "length seg \<le> length (rs_buf (rb_slots b ! nxt))"
  shows "gro_copy f seg first nxt a b =
     Returns (put_slot b nxt (gro_slot f (rb_slots b ! first) seg a (rb_slots b ! nxt)))"
  using assms
  by (simp add: gro_copy_def gro_meta_def slot_reads slot_op_put gro_slot_def)

lemma slot_packet_gro_slot:
  "length seg < 65536 \<Longrightarrow> slot_packet (gro_slot f fs seg a s) = (seg, a)"
  by (simp add: slot_packet_def gro_slot_def unat_of_nat_u16 put_bytes_def)

text \<open>The loop from its second round on: the rest of the payload, chunk after chunk.\<close>

lemma chunks_step:
  assumes "0 < seg" and "off < length co"
  shows "chunks seg (drop off co) =
     take (min (off + seg) (length co) - off) (drop off co) # chunks seg (drop (min (off + seg) (length co)) co)"
    and "take (min (off + seg) (length co) - off) (drop off co) = take seg (drop off co)"
proof -
  let ?e = "min (off + seg) (length co)"
  show chunk: "take (?e - off) (drop off co) = take seg (drop off co)" by (auto simp: min_def)
  have rest: "drop seg (drop off co) = drop ?e co" by (auto simp: min_def add.commute)
  show "chunks seg (drop off co) = take (?e - off) (drop off co) # chunks seg (drop ?e co)"
    using assms by (subst chunk, subst rest [symmetric], intro chunks_Cons) auto
qed

text \<open>One further segment: the next slot takes the next chunk.\<close>

lemma gro_split_one:
  assumes "0 < seg" and "off < length co" and "0 < cnt" and "rb_inv n b" and "length co \<le> n"
    and "first + cnt < length (rb_slots b)" and "e = min (off + seg) (length co)"
    and "b1 = put_slot b (first + cnt) (gro_slot f (rb_slots b ! first) (take (e - off) (drop off co)) a
      (rb_slots b ! (first + cnt)))"
  shows "gro_split f co seg first a cnt off b = gro_split f co seg first a (cnt + 1) e b1" and "same_shape n b b1"
proof -
  have "length (rs_buf (rb_slots b ! (first + cnt))) = n"
    using assms(4,6) by (simp add: rb_inv_def list_all_length)
  then have "length (take (e - off) (drop off co)) \<le> length (rs_buf (rb_slots b ! (first + cnt)))"
    using assms(5) by simp
  then have cp: "gro_copy f (take (e - off) (drop off co)) first (first + cnt) a b = Returns b1"
    unfolding assms(8) using assms(3) by (intro gro_copy_slot assms(6)) simp_all
  show "same_shape n b b1" using gro_copy_shape [OF assms(4) cp] by simp
  show "gro_split f co seg first a cnt off b = gro_split f co seg first a (cnt + 1) e b1"
    using assms(1-3,6,7) cp by (subst gro_split.simps) (simp add: Let_def RecvBatchRaw_capacity_def)
qed

lemma gro_split_rest:
  assumes "0 < seg" and "seg < 65536" and "0 < cnt" and "rb_inv n b" and "length co \<le> n"
    and "first + cnt + length (chunks seg (drop off co)) \<le> length (rb_slots b)"
  shows "\<exists>b'. gro_split f co seg first a cnt off b = Returns (b', cnt + length (chunks seg (drop off co))) \<and>
     same_shape n b b' \<and>
     (\<forall>m < length (chunks seg (drop off co)).
        slot_packet (rb_slots b' ! (first + cnt + m)) = (chunks seg (drop off co) ! m, a)) \<and>
     (\<forall>m. m < first + cnt \<or> first + cnt + length (chunks seg (drop off co)) \<le> m \<longrightarrow>
        rb_slots b' ! m = rb_slots b ! m)"
  using assms(3-)
proof (induction "length co - off" arbitrary: cnt off b rule: less_induct)
  case less
  show ?case
  proof (cases "off < length co")
    case False
    with assms(1) less.prems(2) show ?thesis
      by (subst gro_split.simps) (simp add: same_shape_refl)
  next
    case True
    let ?e = "min (off + seg) (length co)" and ?nxt = "first + cnt"
    let ?ch = "take (?e - off) (drop off co)"
    note cs = chunks_step(1) [OF assms(1) True] and chunk = chunks_step(2) [OF assms(1) True]
    have nxt: "?nxt < length (rb_slots b)" using less.prems(4) cs by simp
    let ?b = "put_slot b ?nxt (gro_slot f (rb_slots b ! first) ?ch a (rb_slots b ! ?nxt))"
    note one = gro_split_one [OF assms(1) True less.prems(1-3) nxt refl refl, of f a]
    have "length co - ?e < length co - off" using True assms(1) by simp
    from less.hyps [OF this, of "cnt + 1" ?b] less.prems one(2) cs obtain b' where ih:
      "gro_split f co seg first a (cnt + 1) ?e ?b = Returns (b', cnt + 1 + length (chunks seg (drop ?e co)))"
      "same_shape n ?b b'"
      "\<forall>m < length (chunks seg (drop ?e co)).
        slot_packet (rb_slots b' ! (first + (cnt + 1) + m)) = (chunks seg (drop ?e co) ! m, a)"
      "\<forall>m. m < first + (cnt + 1) \<or> first + (cnt + 1) + length (chunks seg (drop ?e co)) \<le> m \<longrightarrow>
        rb_slots b' ! m = rb_slots ?b ! m"
      by (auto simp: same_shape_def)
    have "slot_packet (rb_slots b' ! ?nxt) = (?ch, a)"
      using ih(4) nxt slot_packet_gro_slot assms(2) by (simp add: chunk)
    then have "slot_packet (rb_slots b' ! (?nxt + m)) = (chunks seg (drop off co) ! m, a)"
      if "m < length (chunks seg (drop off co))" for m
      using ih(3) that unfolding cs by (cases m) auto
    with ih(1,2,4) one cs show ?thesis
      by (auto intro: same_shape_trans)
  qed
qed

lemma gro_split_whole:
  assumes "0 < seg" and "seg < 65536" and "rb_inv n b" and "t \<le> n"
    and co: "co = take t (rs_buf (rb_slots b ! first))" and "co \<noteq> []"
    and "first + length (chunks seg co) \<le> length (rb_slots b)" and "rs_addr (rb_slots b ! first) = a"
  shows "\<exists>b'. gro_split f co seg first a 0 0 b = Returns (b', length (chunks seg co)) \<and> same_shape n b b' \<and>
     (\<forall>m < length (chunks seg co). slot_packet (rb_slots b' ! (first + m)) = (chunks seg co ! m, a)) \<and>
     (\<forall>m < first. rb_slots b' ! m = rb_slots b ! m)"
proof -
  let ?e = "min seg (length co)"
  have cs: "chunks seg co = take ?e co # chunks seg (drop ?e co)"
    using chunks_Cons [OF assms(1,6)] by (cases "seg \<le> length co") simp_all
  have first: "first < length (rb_slots b)" using assms(7) cs by simp
  let ?s = "(rb_slots b ! first)\<lparr>rs_recv_len := of_nat ?e\<rparr>"
  let ?b = "put_slot b first ?s"
  have op: "RecvBatchRaw_set_recv_len b first ?e = Returns ?b"
    by (rule slot_op_put(1) [OF first])
  have len: "length co \<le> n" using co assms(4) by simp
  have sh: "same_shape n b ?b" using op_shapes(5) [OF assms(3) op] len by simp
  have unf: "gro_split f co seg first a 0 0 b = gro_split f co seg first a 1 ?e ?b"
    using assms(1,6) op by (subst gro_split.simps) (simp add: Let_def)
  have "first + 1 + length (chunks seg (drop ?e co)) \<le> length (rb_slots ?b)"
    using assms(7) cs by simp
  from gro_split_rest [OF assms(1,2) _ same_shapeD [OF sh] len this, of f a] obtain b' where r:
    "gro_split f co seg first a 1 ?e ?b = Returns (b', 1 + length (chunks seg (drop ?e co)))"
    "same_shape n ?b b'"
    "\<forall>m < length (chunks seg (drop ?e co)).
        slot_packet (rb_slots b' ! (first + 1 + m)) = (chunks seg (drop ?e co) ! m, a)"
    "rb_slots b' ! first = rb_slots ?b ! first" "\<forall>m < first. rb_slots b' ! m = rb_slots ?b ! m" by auto
  have "?e mod 65536 = ?e" using assms(2) by (simp add: min_def)
  moreover have "take ?e (rs_buf (rb_slots b ! first)) = take ?e co"
    using co by (simp add: min_def)
  ultimately have "slot_packet (rb_slots b' ! first) = (take ?e co, a)"
    using r(4) first assms(8) by (simp add: slot_packet_def unat_of_nat_u16)
  then have "slot_packet (rb_slots b' ! (first + m)) = (chunks seg co ! m, a)"
    if "m < length (chunks seg co)" for m
    using r(3) that unfolding cs by (cases m) auto
  with r(1,2,5) sh cs unf show ?thesis by (auto intro: same_shape_trans)
qed

lemma recv_one_gro:
  assumes "feat_gro f" and "rb_inv n b" and "i < length (rb_slots b)" and "unat (rx_len r) \<le> n"
    and g: "g = fold (cmsg_seg f c) (rx_control r) 0" "0 < g"
    and co: "co = take (unat (rx_len r)) (rs_buf (rb_slots b ! i))" "co \<noteq> []"
    and "i + length (chunks (unat g) co) \<le> length (rb_slots b)"
  shows "\<exists>b'. recv_one f c r i b = Returns (b', i + length (chunks (unat g) co)) \<and> same_shape n b b' \<and>
     (\<forall>m < length (chunks (unat g) co). slot_packet (rb_slots b' ! (i + m)) =
        (chunks (unat g) co ! m, decode_sockaddr c (rx_name r) (rx_namelen r))) \<and>
     (\<forall>m < i. rb_slots b' ! m = rb_slots b ! m)"
proof -
  let ?a = "decode_sockaddr c (rx_name r) (rx_namelen r)"
  let ?b = "put_slot b i (recv_slot f c r (rb_slots b ! i))"
  have buf: "rs_buf (rb_slots ?b ! i) = rs_buf (rb_slots b ! i)" and addr: "rs_addr (rb_slots ?b ! i) = ?a"
    using assms(3) by (simp_all add: recv_slot_def cmsg_slot_keeps)
  have n: "length (rs_buf (rb_slots b ! i)) = n"
    using assms(2,3) by (simp add: rb_inv_def list_all_length)
  have "unat (ucast (rx_len r) :: u16) \<le> n"
    using unat_of_nat_le [OF assms(4), where 'a = 16] by simp
  then have inv: "same_shape n b ?b"
    using assms(2-4) n
    by (auto simp: same_shape_def rb_inv_def put_slot_def list_all_length nth_list_update recv_slot_def
        cmsg_slot_keeps)
  have g': "0 < unat g" "unat g < 65536"
    using g(2) unsigned_less [of g] by (simp_all add: word_less_nat_alt)
  have eq: "recv_one f c r i b = outcome_bind (gro_split f co (unat g) i ?a 0 0 ?b) (\<lambda>(b', cnt). Returns (b', i + cnt))"
    using assms(1,3,4) g co n
    by (simp add: recv_one_def Let_def slot_op_put cmsg_walk_slot slot_reads recv_slot_def cmsg_slot_keeps)
  have "i + length (chunks (unat g) co) \<le> length (rb_slots ?b)" using assms(9) by simp
  from gro_split_whole [OF g' same_shapeD [OF inv] assms(4) co(1) [folded buf] co(2) this addr, of f]
  show ?thesis unfolding eq using inv by (auto intro: same_shape_trans)
qed

section \<open>Properties\<close>

text \<open>What the user should see of one message: its segments, or the whole payload when the kernel did
  not coalesce.\<close>

definition msg_payload :: "rx_msg \<Rightarrow> bytes" where
  "msg_payload r = take (unat (rx_len r)) (rx_buf r)"

definition msg_source :: "libc \<Rightarrow> rx_msg \<Rightarrow> SocketAddr" where
  "msg_source c r = decode_sockaddr c (rx_name r) (rx_namelen r)"

definition seg_size :: "features \<Rightarrow> libc \<Rightarrow> rx_msg \<Rightarrow> u16" where
  "seg_size f c r = fold (cmsg_seg f c) (rx_control r) 0"

definition msg_segments :: "features \<Rightarrow> libc \<Rightarrow> rx_msg \<Rightarrow> bytes list" where
  "msg_segments f c r =
     (if seg_size f c r = 0 then [msg_payload r] else chunks (unat (seg_size f c r)) (msg_payload r))"

lemma concat_msg_segments: "concat (msg_segments f c r) = msg_payload r"
  by (simp add: msg_segments_def concat_chunks unat_gt_0)

lemma recv_msgs_snoc:
  "recv_msgs f c ms (xs @ [j]) i b = outcome_bind (recv_msgs f c ms xs i b) (\<lambda>(b', i').
     outcome_bind (index_or_panic ms j) (\<lambda>r. recv_one f c r i' b'))"
proof (induction xs arbitrary: i b)
  case (Cons a xs)
  show ?case unfolding append_Cons recv_msgs.simps outcome_bind_assoc Cons.IH split_beta ..
qed (simp add: split_beta)

text \<open>One message, coalesced or not, recorded from slot \<open>i\<close> on.\<close>

lemma recv_one_segments:
  assumes "rb_inv n b" and "i < length (rb_slots b)" and "rs_buf (rb_slots b ! i) = rx_buf r"
    and "0 < unat (rx_len r)" and "unat (rx_len r) \<le> n" and "unat (rx_len r) < 65536"
    and "i + length (msg_segments f c r) \<le> length (rb_slots b)"
  shows "\<exists>b'. recv_one f c r i b = Returns (b', i + length (msg_segments f c r)) \<and>
     length (rb_slots b') = length (rb_slots b) \<and>
     (\<forall>m < length (msg_segments f c r). slot_packet (rb_slots b' ! (i + m)) = (msg_segments f c r ! m, msg_source c r)) \<and>
     (\<forall>m < i. rb_slots b' ! m = rb_slots b ! m)"
proof (cases "seg_size f c r = 0")
  case True
  then have one: "recv_one f c r i b = Returns (put_slot b i (recv_slot f c r (rb_slots b ! i)), i + 1)"
    by (intro recv_one_plain assms(2)) (simp add: seg_size_def)
  have "unat (ucast (rx_len r) :: u16) = unat (rx_len r)"
    using unat_of_nat_u16 [of "unat (rx_len r)"] assms(6) by simp
  then have "slot_packet (recv_slot f c r (rb_slots b ! i)) = (msg_payload r, msg_source c r)"
    using assms(3) by (simp add: slot_packet_def recv_slot_def cmsg_slot_keeps msg_payload_def msg_source_def)
  with one True assms(2) show ?thesis
    by (intro exI [of _ "put_slot b i (recv_slot f c r (rb_slots b ! i))"]) (simp add: msg_segments_def)
next
  case False
  then have "feat_gro f" using cmsg_seg_plain [of f c "rx_control r" 0] by (auto simp: seg_size_def)
  moreover have "0 < seg_size f c r" using False by (simp add: word_gt_0)
  moreover have "length (rx_buf r) = n" using assms(1-3) by (auto simp: rb_inv_def list_all_length)
  then have "msg_payload r \<noteq> []" using assms(4,5) by (auto simp: msg_payload_def)
  moreover have "i + length (chunks (unat (seg_size f c r)) (msg_payload r)) \<le> length (rb_slots b)"
    using assms(7) False by (simp add: msg_segments_def)
  ultimately obtain b' where "recv_one f c r i b = Returns (b', i + length (chunks (unat (seg_size f c r)) (msg_payload r)))"
    "same_shape n b b'" "\<forall>m < length (chunks (unat (seg_size f c r)) (msg_payload r)).
      slot_packet (rb_slots b' ! (i + m)) = (chunks (unat (seg_size f c r)) (msg_payload r) ! m, msg_source c r)"
    "\<forall>m < i. rb_slots b' ! m = rb_slots b ! m"
    using recv_one_gro [OF _ assms(1,2,5), of f "seg_size f c r" c "msg_payload r"] assms(3)
    by (auto simp: seg_size_def msg_payload_def msg_source_def)
  with False show ?thesis by (intro exI [of _ b']) (simp add: msg_segments_def same_shape_def)
qed

lemma gro_last_segments:
  assumes "rb_inv n b" and "j < RecvBatchRaw_capacity b"
    and call: "k_recvmmsg k fd (rx_init (k_libc k) b) (of_nat (RecvBatchRaw_capacity b)) w = (int j + 1, ms, w')"
    and "length ms = RecvBatchRaw_capacity b" and "\<forall>i < length ms. length (rx_buf (ms ! i)) = n"
    and "\<forall>i \<le> j. unat (rx_len (ms ! i)) \<le> n \<and> unat (rx_len (ms ! i)) < 65536" and "0 < unat (rx_len (ms ! j))"
    and "\<forall>i < j. seg_size f (k_libc k) (ms ! i) = 0"
    and "j + length (msg_segments f (k_libc k) (ms ! j)) \<le> RecvBatchRaw_capacity b"
  shows "\<exists>b'. linux_try_recv_batch f k fd b w = Returns (Inr (j + length (msg_segments f (k_libc k) (ms ! j))), b', w') \<and>
     rb_packets b' = map (\<lambda>r. (msg_payload r, msg_source (k_libc k) r)) (take j ms) @
       map (\<lambda>s. (s, msg_source (k_libc k) (ms ! j))) (msg_segments f (k_libc k) (ms ! j)) \<and>
     concat (map fst (rb_packets b')) = concat (map msg_payload (take (Suc j) ms))"
proof -
  let ?c = "k_libc k" and ?cap = "length (rb_slots b)" and ?b = "sync_buffers b ms"
  let ?segs = "msg_segments f ?c (ms ! j)"
  have cap: "RecvBatchRaw_capacity b = ?cap" "length ms = ?cap" "j < ?cap" "0 < ?cap"
    using assms(2,4) by (auto simp: RecvBatchRaw_capacity_def)
  note sy = sync_buffers_inv [OF assms(1) cap(2) assms(5)]
  from recv_msgs_plain [of j f ?c ms "[0 ..< j]" 0 ?b] assms(8) cap sy(2) obtain b1 where
    b1: "recv_msgs f ?c ms [0 ..< j] 0 ?b = Returns (b1, j)" "length (rb_slots b1) = ?cap"
      "\<forall>m. rb_slots b1 ! m = (if m < j then recv_slot f ?c (ms ! m) (rb_slots ?b ! m) else rb_slots ?b ! m)"
    by (auto simp: seg_size_def)
  have inv: "rb_inv n b1"
    using recv_msgs_shape [OF sy(1) _ _ b1(1)] assms(6) by (auto simp: same_shape_def)
  have buf: "rs_buf (rb_slots b1 ! j) = rx_buf (ms ! j)" using b1(3) sy(4) cap(3) by simp
  from recv_one_segments [OF inv _ buf assms(7), of f ?c] assms(6,9) b1(2) cap obtain b' where
    one: "recv_one f ?c (ms ! j) j b1 = Returns (b', j + length ?segs)" "length (rb_slots b') = ?cap"
      "\<forall>m < length ?segs. slot_packet (rb_slots b' ! (j + m)) = (?segs ! m, msg_source ?c (ms ! j))"
      "\<forall>m < j. rb_slots b' ! m = rb_slots b1 ! m" by auto
  have all: "recv_msgs f ?c ms [0 ..< Suc j] 0 ?b = Returns (b', j + length ?segs)"
    using b1(1) one(1) cap by (simp add: recv_msgs_snoc index_or_panic_def)
  have rt: "retry_eintr k (\<lambda>ms. k_recvmmsg k fd ms (of_nat ?cap)) (rx_init ?c b) w = Some (Inr (int j + 1), ms, w')"
    using retry_answer [of "\<lambda>ms. k_recvmmsg k fd ms (of_nat ?cap)", OF call [unfolded cap(1)], of k] by simp
  have "nat (int j + 1) = Suc j" by simp
  with rt all cap(1,4) have run: "linux_try_recv_batch f k fd b w =
      Returns (Inr (j + length ?segs), RecvBatchRaw_set_len b' (j + length ?segs), w')"
    by (simp add: linux_recv_call call_recvmmsg_def option_outcome_def del: upt_Suc)
  have plain: "slot_packet (rb_slots b' ! m) = (msg_payload (ms ! m), msg_source ?c (ms ! m))" if m: "m < j" for m
  proof -
    have "unat (ucast (rx_len (ms ! m)) :: u16) = unat (rx_len (ms ! m))"
      using unat_of_nat_u16 [of "unat (rx_len (ms ! m))"] assms(6) m by simp
    with m one(4) b1(3) sy(4) cap show ?thesis
      by (simp add: slot_packet_def recv_slot_def cmsg_slot_keeps msg_payload_def msg_source_def)
  qed
  let ?packets = "map (\<lambda>r. (msg_payload r, msg_source ?c r)) (take j ms) @ map (\<lambda>s. (s, msg_source ?c (ms ! j))) ?segs"
  have pk: "rb_packets (RecvBatchRaw_set_len b' (j + length ?segs)) = ?packets"
  proof (rule nth_equalityI)
    show "length (rb_packets (RecvBatchRaw_set_len b' (j + length ?segs))) = length ?packets"
      using one(2) assms(9) cap by (simp add: rb_packets_def RecvBatchRaw_set_len_def)
    fix m
    assume "m < length (rb_packets (RecvBatchRaw_set_len b' (j + length ?segs)))"
    then have "m < j + length ?segs" using one(2) assms(9) cap by (simp add: rb_packets_def RecvBatchRaw_set_len_def)
    then show "rb_packets (RecvBatchRaw_set_len b' (j + length ?segs)) ! m = ?packets ! m"
      using plain [of m] one(2,3) assms(9) cap
      by (cases "m < j") (auto simp: rb_packets_def RecvBatchRaw_set_len_def nth_append dest: spec [of _ "m - j"])
  qed
  have "concat (map fst ?packets) = concat (map msg_payload (take (Suc j) ms))"
    using cap by (simp add: comp_def concat_msg_segments take_Suc_conv_app_nth)
  with run pk show ?thesis by auto
qed

text \<open>C14. The GRO receive is exact as long as only the last message of a call is coalesced, whatever the
  features: the user gets the payloads of the messages before it, then the segments of the last
  one, in order, each with its source; together they are all the bytes that were received.\<close>

theorem gro_last_coalesced:
  assumes "rb_inv n b" and "j < RecvBatchRaw_capacity b"
    and "k_recvmmsg k fd (rx_init (k_libc k) b) (of_nat (RecvBatchRaw_capacity b)) w = (int j + 1, ms, w')"
    and "length ms = RecvBatchRaw_capacity b" and "\<forall>i < length ms. length (rx_buf (ms ! i)) = n"
    and "\<forall>i \<le> j. unat (rx_len (ms ! i)) \<le> n \<and> unat (rx_len (ms ! i)) < 65536" and "0 < unat (rx_len (ms ! j))"
    and "\<forall>i < j. seg_size f (k_libc k) (ms ! i) = 0"
    and "j + length (msg_segments f (k_libc k) (ms ! j)) \<le> RecvBatchRaw_capacity b"
  shows "\<exists>b'. linux_try_recv_batch f k fd b w = Returns (Inr (j + length (msg_segments f (k_libc k) (ms ! j))), b', w') \<and>
     rb_packets b' = map (\<lambda>r. (msg_payload r, msg_source (k_libc k) r)) (take j ms) @
       map (\<lambda>s. (s, msg_source (k_libc k) (ms ! j))) (msg_segments f (k_libc k) (ms ! j)) \<and>
     concat (map fst (rb_packets b')) = concat (map msg_payload (take (Suc j) ms))"
  using assms by (rule gro_last_segments)

text \<open>A kernel that answers the next \<^verbatim>\<open>recvmmsg\<close> with the given payloads and segment sizes.\<close>

definition gro_cmsg :: "u16 \<Rightarrow> cmsg" where
  "gro_cmsg seg = \<lparr>cmsg_level = 17, cmsg_type = 104, as_u16 = seg, as_tv_sec = 0, as_tv_nsec = 0,
     as_ipi_addr = 0, as_ipi6_addr = []\<rparr>"

definition gro_fill :: "bytes \<times> u16 \<Rightarrow> rx_msg \<Rightarrow> rx_msg" where
  "gro_fill p r = r\<lparr>rx_buf := deposit (rx_buf r) (fst p), rx_namelen := 0,
     rx_control := (if snd p = 0 then [] else [gro_cmsg (snd p)]), rx_len := of_nat (length (fst p))\<rparr>"

definition gro_kernel :: "(bytes \<times> u16) list \<Rightarrow> world kernel" where
  "gro_kernel ps = (loopback linux_libc)\<lparr>k_recvmmsg := \<lambda>_ ms _ w.
     (int (length ps), map2 gro_fill ps ms @ drop (length ps) ms, w)\<rparr>"

definition gro_only :: features where
  "gro_only = \<lparr>feat_gro = True, feat_timestamping = False, feat_pktinfo = False\<rparr>"

lemma gro_kernel_libc [simp]: "k_libc (gro_kernel ps) = linux_libc"
  by (simp add: gro_kernel_def loopback_def)

lemmas gro_eval = gro_kernel_def gro_fill_def gro_cmsg_def gro_only_def rx_init_def rx_entry_def fresh_slot_def
  RecvBatchRaw_with_capacity_def RecvBatchRaw_capacity_def deposit_def put_bytes_def

theorem gro_last_coalesced_witness:
  "\<exists>b'. linux_try_recv_batch gro_only (gro_kernel [([9, 9, 9], 0), ([1, 2, 3, 4, 5], 2)]) 3
         (RecvBatchRaw_with_capacity 4 8) idle = Returns (Inr 4, b', idle) \<and>
     map fst (rb_packets b') = [[9, 9, 9], [1, 2], [3, 4], [5]]"
proof -
  let ?ps = "[([9, 9, 9], 0), ([1, 2, 3, 4, 5], 2)]" and ?b = "RecvBatchRaw_with_capacity 4 8"
  let ?k = "gro_kernel ?ps"
  define ms where "ms = map2 gro_fill ?ps (rx_init linux_libc ?b) @ drop 2 (rx_init linux_libc ?b)"
  have cs: "chunks 2 [1, 2, 3, 4, 5 :: u8] = [[1, 2], [3, 4], [5]]"
    by (simp add: chunks_Cons)
  have seg: "seg_size gro_only linux_libc (ms ! 0) = 0" "seg_size gro_only linux_libc (ms ! 1) = 2"
    by (simp_all add: ms_def gro_eval seg_size_def cmsg_seg_def is_gro_cmsg_def linux_libc_def upt_rec)
  have data: "msg_payload (ms ! 0) = [9, 9, 9]" "msg_payload (ms ! 1) = [1, 2, 3, 4, 5]"
    "unat (rx_len (ms ! 0)) = 3" "unat (rx_len (ms ! 1)) = 5" "length ms = 4" "take 1 ms = [ms ! 0]"
    by (simp_all add: ms_def gro_eval msg_payload_def upt_rec)
  have "\<forall>i < length ms. length (rx_buf (ms ! i)) = 8"
    by (auto simp: ms_def gro_eval upt_rec less_Suc_eq numeral_eq_Suc)
  moreover have "k_recvmmsg ?k 3 (rx_init (k_libc ?k) ?b) (of_nat (RecvBatchRaw_capacity ?b)) idle = (int 1 + 1, ms, idle)"
    by (simp add: gro_kernel_def ms_def loopback_def numeral_2_eq_2)
  moreover have segs: "msg_segments gro_only linux_libc (ms ! 1) = [[1, 2], [3, 4], [5]]"
    using seg data cs by (simp add: msg_segments_def)
  ultimately show ?thesis
    using gro_last_coalesced [OF rb_inv_with_capacity, of 1 4 8 ?k 3 idle ms idle gro_only] data seg
    by (auto simp: RecvBatchRaw_capacity_def RecvBatchRaw_with_capacity_def le_Suc_eq)
qed


text \<open>With GRO, a receive can panic: when the segments of the first message fill the batch,
  the next message is recorded at an index past the last slot.\<close>

lemma gro_full_batch_panics:
  "linux_try_recv_batch gro_only (gro_kernel [([1, 2, 3, 4], 2), ([9], 0)]) 3
     (RecvBatchRaw_with_capacity 2 8) idle = Panics"
  by (simp add: linux_recv_call call_recvmmsg_def gro_eval loopback_def upt_rec retry_eintr.simps
      option_outcome_def sync_buffers_def index_or_panic_def recv_one_def slot_op_put put_slot_def
      cmsg_step_def is_gro_cmsg_def linux_libc_def decode_sockaddr_def slot_reads gro_split.simps
      gro_copy_slot gro_slot_def RecvBatchRaw_set_recv_len_def on_slot_def update_or_panic_def)

section \<open>Sending with segmentation offload\<close>

text \<open>What the kernel makes of a buffer and a segment size (udp(7), \<^verbatim>\<open>UDP_SEGMENT\<close>): one datagram per
  segment; without a size, or without data, a single datagram.\<close>

definition segments :: "nat \<Rightarrow> bytes \<Rightarrow> bytes list" where
  "segments s d = (if s = 0 \<or> d = [] then [d] else chunks s d)"

definition gso_datagrams :: "u16 \<Rightarrow> bytes \<Rightarrow> tx_msg list" where
  "gso_datagrams s d = map (\<lambda>x. \<lparr>tx_name = None, tx_data = x\<rparr>) (segments (unat s) d)"

definition gso_contract :: "'w kernel \<Rightarrow> ('w \<Rightarrow> tx_msg list) \<Rightarrow> bool" where
  "gso_contract k txlog \<longleftrightarrow>
     (\<forall>fd g data w n w'. k_sendmsg_gso k fd g data w = (n, w') \<longrightarrow>
        txlog w' = txlog w @ (if 0 \<le> n then gso_datagrams (gso_size g) (take (nat n) data) else []))"

lemma try_send_gso_log:
  assumes "gso_contract k txlog" and "try_send_gso k fd data seg w = (r, w')"
  shows "txlog w' = txlog w @ (case r of Inl _ \<Rightarrow> [] | Inr n \<Rightarrow> gso_datagrams seg (take n data))"
proof -
  obtain n w1 where c: "k_sendmsg_gso k fd \<lparr>gso_controllen = 64, gso_level = IPPROTO_UDP (k_libc k),
      gso_type = UDP_SEGMENT (k_libc k), gso_size = seg\<rparr> data w = (n, w1)" by (metis surj_pair)
  with assms(1) have "txlog w1 = txlog w @ (if 0 \<le> n then gso_datagrams seg (take (nat n) data) else [])"
    unfolding gso_contract_def by (metis gso_control.select_convs(4))
  with assms(2) c show ?thesis
    by (auto simp: try_send_gso_def Let_def split: if_splits)
qed

lemma send_gso_loop_log:
  "send_gso_loop bld k u data seg w = Some x \<Longrightarrow> gso_contract k txlog \<and> quiet_contract k txlog \<longrightarrow>
     txlog (snd x) = txlog w @ (case fst x of Inl _ \<Rightarrow> [] | Inr n \<Rightarrow> gso_datagrams seg (take n data))"
proof (erule send_gso_loop.raw_induct [where P = "\<lambda>bld k u data seg w x. gso_contract k txlog \<and> quiet_contract k txlog \<longrightarrow>
    txlog (snd x) = txlog w @ (case fst x of Inl _ \<Rightarrow> [] | Inr n \<Rightarrow> gso_datagrams seg (take n data))", rotated], intro impI)
  fix g bld k u data seg w x
  assume ih: "\<And>bld k u data seg w x. g bld k u data seg w = Some x \<Longrightarrow> gso_contract k txlog \<and> quiet_contract k txlog \<longrightarrow>
      txlog (snd x) = txlog w @ (case fst x of Inl _ \<Rightarrow> [] | Inr n \<Rightarrow> gso_datagrams seg (take n data))"
    and g: "(let (r, w1) = udp_try_send_gso k u data seg w in
      if would_block (k_libc k) r then
        (case wait_writable bld k u w1 of
           (Inl e', w2) \<Rightarrow> Some (Inl e', w2)
         | (Inr _, w2) \<Rightarrow> g bld k u data seg w2)
      else Some (r, w1)) = Some x" and k: "gso_contract k txlog \<and> quiet_contract k txlog"
  obtain r w1 where t: "udp_try_send_gso k u data seg w = (r, w1)" by (metis surj_pair)
  obtain v w2 where wt: "wait_writable bld k u w1 = (v, w2)" by (metis surj_pair)
  have one: "txlog w1 = txlog w @ (case r of Inl _ \<Rightarrow> [] | Inr n \<Rightarrow> gso_datagrams seg (take n data))"
    using k t by (auto simp: udp_try_send_gso_def dest: try_send_gso_log)
  have quiet: "txlog w2 = txlog w1" using k wait_writable_quiet [OF _ wt] by blast
  show "txlog (snd x) = txlog w @ (case fst x of Inl _ \<Rightarrow> [] | Inr n \<Rightarrow> gso_datagrams seg (take n data))"
  proof (cases "would_block (k_libc k) r")
    case False
    with g t one show ?thesis by auto
  next
    case True
    then obtain e where "r = Inl e" by (auto elim: would_blockE)
    with one quiet have same: "txlog w2 = txlog w" by simp
    show ?thesis
    proof (cases v)
      case (Inl e')
      with g t wt True same show ?thesis by auto
    next
      case (Inr y)
      with g t wt True have "g bld k u data seg w2 = Some x" by simp
      with ih [OF this] k same show ?thesis by simp
    qed
  qed
qed

lemma send_gso_log:
  assumes "gso_contract k txlog" and "quiet_contract k txlog"
    and "send_gso bld k u data seg w = Returns (r, w')"
  shows "txlog w' = txlog w @ (case r of Inl _ \<Rightarrow> [] | Inr n \<Rightarrow> gso_datagrams seg (take n data))"
  using assms send_gso_loop_log [of bld k u data seg w "(r, w')" txlog]
  by (auto simp: send_gso_def option_outcome_def split: option.split_asm)


text \<open>A loopback that segments; the first attempt finds the socket full.\<close>

definition gso_kernel :: "world kernel" where
  "gso_kernel = (loopback linux_libc)\<lparr>k_sendmsg_gso := \<lambda>_ g data w.
     if w_budget w = 0 then refuse (w_refusal w) w
     else (int (length data), accept (gso_datagrams (gso_size g) data) w)\<rparr>"

lemma gso_kernel_ok: "gso_contract gso_kernel w_sent" "quiet_contract gso_kernel w_sent"
  by (auto simp: gso_contract_def quiet_contract_def gso_kernel_def loopback_def refuse_def accept_def split: if_splits)

definition gso_build :: build where
  "gso_build = \<lparr>build_os = Linux, miri_safe = False, has_tokio = True, has_metrics = False, has_gso = True,
     has_busy_poll = False, has_pacing = False, build_rx = gro_only\<rparr>"

definition bare_socket :: BingerUdp where
  "bare_socket = \<lparr>udp_fd = 3, udp_metrics = None, adaptive_send = None, adaptive_recv = None\<rparr>"

lemma gso_kernel_run:
  "\<exists>w'. send_gso gso_build gso_kernel bare_socket [1, 2, 3, 4, 5] 2 (idle\<lparr>w_budget := 0\<rparr>) = Returns (Inr 5, w')"
  by (simp add: send_gso_def send_gso_loop.simps udp_try_send_gso_def try_send_gso_def gso_kernel_def loopback_def
      linux_libc_def idle_def refuse_def last_os_error_def wait_writable_def gso_build_def Let_def option_outcome_def)


text \<open>What \<^verbatim>\<open>send_gso\<close> puts on the wire is what a GRO receive hands out: when the segments of a buffer
  reach a receiver as one coalesced message with the same segment size, \<^verbatim>\<open>try_recv_batch\<close> fills one
  slot per datagram that was sent, with exactly its bytes.\<close>

lemma gso_gro_roundtrip:
  assumes "gso_contract k txlog" and "quiet_contract k txlog"
    and "send_gso bld k u data seg w = Returns (Inr (length data), w1)" and "data \<noteq> []" and "0 < seg"
    and "rb_inv n b" and "0 < RecvBatchRaw_capacity b"
    and "k_recvmmsg k2 fd (rx_init (k_libc k2) b) (of_nat (RecvBatchRaw_capacity b)) v = (1, ms, v')"
    and "length ms = RecvBatchRaw_capacity b" and "\<forall>i < length ms. length (rx_buf (ms ! i)) = n"
    and "unat (rx_len (ms ! 0)) \<le> n" and "unat (rx_len (ms ! 0)) < 65536"
    and "msg_payload (ms ! 0) = data" and "seg_size f (k_libc k2) (ms ! 0) = seg"
    and "length (segments (unat seg) data) \<le> RecvBatchRaw_capacity b"
  shows "\<exists>b' sent. txlog w1 = txlog w @ sent \<and>
     linux_try_recv_batch f k2 fd b v = Returns (Inr (length sent), b', v') \<and>
     map fst (rb_packets b') = map tx_data sent"
proof -
  let ?sent = "gso_datagrams seg data"
  have sent: "txlog w1 = txlog w @ ?sent" using send_gso_log [OF assms(1-3)] by simp
  have s: "unat seg \<noteq> 0" using assms(5) by (simp add: word_less_nat_alt)
  then have segs: "msg_segments f (k_libc k2) (ms ! 0) = segments (unat seg) data"
    using assms(4,5,13,14) by (auto simp: msg_segments_def segments_def)
  have "0 < unat (rx_len (ms ! 0))" using assms(4,13) by (auto simp: msg_payload_def)
  with gro_last_segments [where j = 0 and k = k2 and f = f and fd = fd and w = v and w' = v', OF assms(6,7) _ assms(9,10)] assms(8,11,12,15) segs
  obtain b' where "linux_try_recv_batch f k2 fd b v = Returns (Inr (length (segments (unat seg) data)), b', v')"
    "rb_packets b' = map (\<lambda>s. (s, msg_source (k_libc k2) (ms ! 0))) (segments (unat seg) data)" by auto
  then have "linux_try_recv_batch f k2 fd b v = Returns (Inr (length ?sent), b', v') \<and> map fst (rb_packets b') = map tx_data ?sent"
    by (simp add: gso_datagrams_def comp_def)
  with sent show ?thesis by blast
qed

text \<open>A second control message: a header behind \<^verbatim>\<open>CMSG_SPACE(2)\<close>, which is a header and 8 bytes, still
  within \<^verbatim>\<open>msg_controllen\<close>.\<close>

definition second_header :: "libc \<Rightarrow> gso_control \<Rightarrow> bool" where
  "second_header c g \<longleftrightarrow> size_cmsghdr c + 8 + size_cmsghdr c \<le> gso_controllen g"

text \<open>C34. \<^verbatim>\<open>send_gso\<close> passes the length of its zeroed 64-byte buffer as \<^verbatim>\<open>msg_controllen\<close>, not the length of
  the one control message it wrote: a kernel that walks the control messages finds a second
  one, of length 0, and if it rejects a control message shorter than its header with \<^verbatim>\<open>EINVAL\<close>,
  as Linux does, every call returns that error and nothing is sent.\<close>

theorem send_gso_rejected:
  assumes "size_cmsghdr (k_libc k) = 16" and "kind (k_libc k) (Os einval) \<noteq> WouldBlock" and "gso_contract k txlog"
    and "\<forall>fd g data w n w'. k_sendmsg_gso k fd g data w = (n, w') \<and> second_header (k_libc k) g \<longrightarrow>
      n < 0 \<and> k_errno k w' = einval"
  shows "\<exists>w'. send_gso bld k u data seg w = Returns (Inl (Os einval), w') \<and> txlog w' = txlog w"
proof -
  let ?g = "\<lparr>gso_controllen = 64, gso_level = IPPROTO_UDP (k_libc k), gso_type = UDP_SEGMENT (k_libc k), gso_size = seg\<rparr>"
  obtain n w' where c: "k_sendmsg_gso k (udp_fd u) ?g data w = (n, w')" by (metis surj_pair)
  have "second_header (k_libc k) ?g" using assms(1) by (simp add: second_header_def)
  with assms(4) c have n: "n < 0" "last_os_error k w' = Os einval" by (auto simp: last_os_error_def)
  then have t: "udp_try_send_gso k u data seg w = (Inl (Os einval), w')"
    using c assms(1) by (simp add: udp_try_send_gso_def try_send_gso_def Let_def)
  then have "txlog w' = txlog w" using try_send_gso_log [OF assms(3)] by (fastforce simp: udp_try_send_gso_def)
  with t assms(2) show ?thesis
    by (simp add: send_gso_def option_outcome_def send_gso_loop.simps)
qed

text \<open>A segmenting loopback that is strict about control messages; \<^verbatim>\<open>EINVAL\<close> is 22.\<close>

definition strict_kernel :: "world kernel" where
  "strict_kernel = gso_kernel\<lparr>k_sendmsg_gso := \<lambda>fd g data w.
     if second_header linux_libc g then refuse 22 w else k_sendmsg_gso gso_kernel fd g data w\<rparr>"

theorem send_gso_rejected_witness:
  "\<exists>w'. send_gso gso_build strict_kernel bare_socket [1, 2, 3, 4, 5] 2 idle = Returns (Inl (Os 22), w') \<and> w_sent w' = []"
proof -
  have "gso_contract strict_kernel w_sent"
    using gso_kernel_ok(1) by (auto simp: gso_contract_def strict_kernel_def refuse_def split: if_splits)
  moreover have "\<forall>fd g data w n w'. k_sendmsg_gso strict_kernel fd g data w = (n, w') \<and> second_header (k_libc strict_kernel) g \<longrightarrow>
      n < 0 \<and> k_errno strict_kernel w' = 22"
    by (auto simp: strict_kernel_def gso_kernel_def loopback_def refuse_def)
  moreover have "size_cmsghdr (k_libc strict_kernel) = 16" "kind (k_libc strict_kernel) (Os 22) \<noteq> WouldBlock" "w_sent idle = []"
    by (simp_all add: strict_kernel_def gso_kernel_def loopback_def linux_libc_def idle_def)
  ultimately show ?thesis using send_gso_rejected [of strict_kernel 22 w_sent gso_build bare_socket _ 2 idle] by simp
qed

end
