(* ===== verification/Threads.thy ===== *)
theory Threads
  imports Socket_Runs
begin

text \<open>
  Threads of a multi-threaded runtime. Between two \<^verbatim>\<open>await\<close>s a task makes one attempt, but an attempt
  is several system calls, and attempts of other threads on the same socket run in between. Here
  an attempt is a resumption: it ends, or it makes one more system call and leaves what remains.
  (\<^verbatim>\<open>errno\<close> belongs to the thread, so a call and the reading of its error are one step;
  \<^verbatim>\<open>OnceLock::get_or_init\<close> makes other threads wait, so finding a function is one step too.) Run
  alone, the resumptions are the attempts of the other theories; the theorems are about all
  interleavings.
\<close>

section \<open>Attempts, one system call at a time\<close>

codatatype ('r, 'w) resume = Ends "'r outcome" | Step "'w \<Rightarrow> ('r, 'w) resume \<times> 'w"

text \<open>A thread that runs alone; not ending is \<open>None\<close>.\<close>

partial_function (option) resume_run :: "('r, 'w) resume \<Rightarrow> 'w \<Rightarrow> ('r outcome \<times> 'w) option" where
  "resume_run r w =
     (case r of
        Ends x \<Rightarrow> Some (x, w)
      | Step f \<Rightarrow> (case f w of (r', w') \<Rightarrow> resume_run r' w'))"

definition alone :: "('r, 'w) resume \<Rightarrow> 'w \<Rightarrow> ('r \<times> 'w) outcome" where
  "alone r w =
     (case resume_run r w of
        None \<Rightarrow> Diverges
      | Some (x, w') \<Rightarrow> outcome_bind x (\<lambda>y. Returns (y, w')))"

text \<open>What the thread computes on its own before it goes on.\<close>

primrec resume_after :: "'a outcome \<Rightarrow> ('a \<Rightarrow> ('r, 'w) resume) \<Rightarrow> ('r, 'w) resume" where
  "resume_after (Returns x) f = f x"
| "resume_after Panics f = Ends Panics"
| "resume_after Undefined f = Ends Undefined"
| "resume_after Diverges f = Ends Diverges"

lemma resume_run_simps:
  "resume_run (Ends x) w = Some (x, w)"
  "resume_run (Step f) w = (case f w of (a, w') \<Rightarrow> resume_run a w')"
  by (subst resume_run.simps, simp)+

lemma alone_simps [simp]:
  "alone (Ends x) w = outcome_bind x (\<lambda>y. Returns (y, w))"
  "alone (Step f) w = (case f w of (a, w') \<Rightarrow> alone a w')"
  "alone (resume_after v g) w = outcome_bind v (\<lambda>y. alone (g y) w)"
  by (simp_all add: alone_def resume_run_simps split: prod.splits) (cases v; simp add: resume_run_simps)

text \<open>\<^verbatim>\<open>retry_eintr\<close>, one call at a time; \<open>g\<close> is what follows it.\<close>

primcorec retry_steps ::
    "'w kernel \<Rightarrow> ('m \<Rightarrow> 'w \<Rightarrow> int \<times> 'm \<times> 'w) \<Rightarrow> (int io_result \<Rightarrow> 'm \<Rightarrow> ('r, 'w) resume) \<Rightarrow> 'm
       \<Rightarrow> ('r, 'w) resume" where
  "retry_steps k f g ms = Step (\<lambda>w. case f ms w of (n, ms', w') \<Rightarrow>
     (if 0 \<le> n then g (Inr n) ms'
      else if kind (k_libc k) (last_os_error k w') = Interrupted then retry_steps k f g ms'
      else g (Inl (last_os_error k w')) ms', w'))"

subsection \<open>The portable backend\<close>

fun send_steps ::
    "'w kernel \<Rightarrow> fd \<Rightarrow> memory \<Rightarrow> SendBatchRaw \<Rightarrow> bool \<Rightarrow> nat list \<Rightarrow> nat \<Rightarrow> (nat io_result, 'w) resume" where
  "send_steps k fd m b is_conn [] sent = Ends (Returns (Inr sent))"
| "send_steps k fd m b is_conn (i # is) sent =
     resume_after (SendBatchRaw_entry m b i) (\<lambda>(data, addr). Step (\<lambda>w.
       let (result, w') =
             (case (is_conn, addr) of
                (True, _) \<Rightarrow> raw_send k fd (payload m data) w
              | (_, None) \<Rightarrow> raw_send k fd (payload m data) w
              | (_, Some a) \<Rightarrow> raw_sendto k fd (payload m data) a w)
       in (case result of
             Inr _ \<Rightarrow> send_steps k fd m b is_conn is (sent + 1)
           | Inl e \<Rightarrow> if kind (k_libc k) e = WouldBlock then Ends (Returns (Inr sent))
                     else Ends (Returns (Inl e)), w')))"

definition fallback_steps :: "'w kernel \<Rightarrow> fd \<Rightarrow> memory \<Rightarrow> SendBatchRaw \<Rightarrow> (nat io_result, 'w) resume" where
  "fallback_steps k fd m b =
     (let len = SendBatchRaw_len b in
      if len = 0 then Ends (Returns (Inr 0))
      else Step (\<lambda>w. let (is_conn, w1) = is_connected k fd w in (send_steps k fd m b is_conn [0 ..< len] 0, w1)))"

subsection \<open>Linux\<close>

definition sendmmsg_steps ::
    "'w kernel \<Rightarrow> fd \<Rightarrow> memory \<Rightarrow> SendBatchRaw \<Rightarrow> send_arrays \<Rightarrow> nat \<Rightarrow> (nat io_result, 'w) resume" where
  "sendmmsg_steps k fd m b st len =
     resume_after (outcome_map (tx_view m (sa_iovecs st) (sa_addrs st)) (take len (sa_msgs st))) (\<lambda>msgs. Step (\<lambda>w.
       let (sent, w') = k_sendmmsg k fd msgs (of_nat len) w in
       (if 0 \<le> sent then Ends (Returns (Inr (nat sent)))
        else let err = last_os_error k w' in
          if raw_os_error err = Some (ENOSYS (k_libc k)) then fallback_steps k fd m b
          else Ends (Returns (Inl err)), w')))"

definition linux_steps :: "'w kernel \<Rightarrow> fd \<Rightarrow> memory \<Rightarrow> SendBatchRaw \<Rightarrow> (nat io_result, 'w) resume" where
  "linux_steps k fd m b =
     (let c = k_libc k; len = SendBatchRaw_len b in
      if len = 0 then Ends (Returns (Inr 0))
      else if len \<le> MAX_STACK then
        resume_after (stack_fill c m b [0 ..< len] (stack_arrays c)) (\<lambda>st. sendmmsg_steps k fd m b st len)
      else
        resume_after (heap_fill c m b [0 ..< len]
            \<lparr>sa_msgs = [], sa_iovecs = [], sa_addrs = [], sa_addr_idx = 0\<rparr>) (\<lambda>st.
          resume_after (heap_fix m b (sa_iovecs st) (sa_addrs st) 0 0 (sa_msgs st)) (\<lambda>msgs.
            sendmmsg_steps k fd m b (st\<lparr>sa_msgs := msgs\<rparr>) len)))"

subsection \<open>macOS\<close>

definition sendmsg_x_steps ::
    "'w kernel \<Rightarrow> (fd \<Rightarrow> tx_msg list \<Rightarrow> u32 \<Rightarrow> 'w \<Rightarrow> int \<times> 'w) \<Rightarrow> fd \<Rightarrow> memory \<Rightarrow> send_arrays \<Rightarrow> nat
       \<Rightarrow> (nat io_result, 'w) resume" where
  "sendmsg_x_steps k sendmsg_x fd m st len =
     resume_after (outcome_map (tx_view m (sa_iovecs st) (sa_addrs st)) (take len (sa_msgs st))) (\<lambda>msgs.
       retry_steps k (\<lambda>_ w. let (n, w') = sendmsg_x fd msgs (of_nat len) w in (n, (), w'))
         (\<lambda>sent _. Ends (Returns (map_sum id nat sent))) ())"

definition macos_steps ::
    "'w macos_api \<Rightarrow> 'w kernel \<Rightarrow> fd \<Rightarrow> memory \<Rightarrow> SendBatchRaw \<Rightarrow> (nat io_result, 'w) resume" where
  "macos_steps A k fd m b =
     (let len = SendBatchRaw_len b in
      if len = 0 then Ends (Returns (Inr 0))
      else Step (\<lambda>w. let (is_conn, w1) = is_connected k fd w in
        (if is_conn then send_steps k fd m b True [0 ..< len] 0
         else resume_after (macos_headers (k_libc k) m b len) (\<lambda>st. Step (\<lambda>w.
           case sendmsg_x_fn A w of
             (Some sendmsg_x, w2) \<Rightarrow> (sendmsg_x_steps k sendmsg_x fd m st len, w2)
           | (None, w2) \<Rightarrow> (send_steps k fd m b False [0 ..< len] 0, w2))), w1)))"

subsection \<open>Windows\<close>

fun windows_loop_steps ::
    "'w winsock \<Rightarrow> 'w kernel \<Rightarrow> fd \<Rightarrow> memory \<Rightarrow> SendBatchRaw \<Rightarrow> bool \<Rightarrow> nat list \<Rightarrow> nat \<Rightarrow> (nat io_result, 'w) resume" where
  "windows_loop_steps W k fd m b is_conn [] sent = Ends (Returns (Inr sent))"
| "windows_loop_steps W k fd m b is_conn (i # is) sent =
     resume_after (SendBatchRaw_entry m b i) (\<lambda>(data, addr). Step (\<lambda>w.
       let (rc, _, w') = ws_WSASendMsg W fd (wsa_tx_msg (k_libc k) m is_conn data addr) w in
       (if rc = 0 then windows_loop_steps W k fd m b is_conn is (sent + 1)
        else let err = last_os_error k w' in
          if kind (k_libc k) err = WouldBlock then Ends (Returns (Inr sent))
          else if 0 < sent then Ends (Returns (Inr sent))
          else Ends (Returns (Inl err)), w')))"

definition windows_steps :: "'w winsock \<Rightarrow> 'w kernel \<Rightarrow> fd \<Rightarrow> memory \<Rightarrow> SendBatchRaw \<Rightarrow> (nat io_result, 'w) resume" where
  "windows_steps W k fd m b =
     (let len = SendBatchRaw_len b in
      if len = 0 then Ends (Returns (Inr 0))
      else Step (\<lambda>w. let (is_conn, w1) = win_is_connected k fd w in
        (windows_loop_steps W k fd m b is_conn [0 ..< len] 0, w1)))"

subsection \<open>The receives\<close>

text \<open>The loop over the slots, with the calls of one receive left open: \<open>recv1\<close> makes them on a
  buffer and goes on with their result.\<close>

primrec slot_steps ::
    "libc \<Rightarrow> (bytes \<Rightarrow> ((nat \<times> SocketAddr) io_result \<Rightarrow> bytes \<Rightarrow> (nat io_result \<times> RecvBatchRaw, 'w) resume)
         \<Rightarrow> (nat io_result \<times> RecvBatchRaw, 'w) resume)
       \<Rightarrow> nat list \<Rightarrow> nat \<Rightarrow> RecvBatchRaw \<Rightarrow> (nat io_result \<times> RecvBatchRaw, 'w) resume" where
  "slot_steps c recv1 [] = (\<lambda>received b. Ends (Returns (Inr received, b)))"
| "slot_steps c recv1 (i # is) = (\<lambda>received b.
     resume_after (RecvBatchRaw_buffer_mut b i) (\<lambda>(buf, _).
       recv1 buf (\<lambda>result buf'.
         resume_after (write_buffer b i buf') (\<lambda>b0.
           case result of
             Inr (n, addr) \<Rightarrow>
               resume_after (RecvBatchRaw_set_recv_len b0 i n) (\<lambda>b1.
                 resume_after (write_addr b1 i addr) (\<lambda>b2.
                   slot_steps c recv1 is (received + 1) (RecvBatchRaw_set_len b2 (i + 1))))
           | Inl e \<Rightarrow> if kind c e = WouldBlock then Ends (Returns (Inr received, b0))
                     else Ends (Returns (Inl e, b0))))))"

definition recvfrom_steps ::
    "'w kernel \<Rightarrow> fd \<Rightarrow> bytes \<Rightarrow> ((nat \<times> SocketAddr) io_result \<Rightarrow> bytes \<Rightarrow> ('r, 'w) resume) \<Rightarrow> ('r, 'w) resume" where
  "recvfrom_steps k fd buf g = Step (\<lambda>w. let (result, buf', w') = raw_recvfrom k fd buf w in (g result buf', w'))"

definition fallback_recv_steps ::
    "'w kernel \<Rightarrow> fd \<Rightarrow> RecvBatchRaw \<Rightarrow> (nat io_result \<times> RecvBatchRaw, 'w) resume" where
  "fallback_recv_steps k fd b =
     slot_steps (k_libc k) (recvfrom_steps k fd) [0 ..< RecvBatchRaw_capacity b] 0 b"

definition recvmmsg_done ::
    "features \<Rightarrow> 'w kernel \<Rightarrow> fd \<Rightarrow> RecvBatchRaw \<Rightarrow> int io_result \<Rightarrow> rx_msg list
       \<Rightarrow> (nat io_result \<times> RecvBatchRaw, 'w) resume" where
  "recvmmsg_done f k fd b received ms =
     (let b1 = sync_buffers b ms in
      case received of
        Inl e \<Rightarrow> if raw_os_error e = Some (ENOSYS (k_libc k)) then fallback_recv_steps k fd b1
                else Ends (Returns (Inl e, b1))
      | Inr received \<Rightarrow>
          resume_after (recv_msgs f (k_libc k) ms [0 ..< nat received] 0 b1) (\<lambda>(b2, out_idx).
            Ends (Returns (Inr out_idx, RecvBatchRaw_set_len b2 out_idx))))"

definition recvmmsg_steps ::
    "features \<Rightarrow> 'w kernel \<Rightarrow> fd \<Rightarrow> RecvBatchRaw \<Rightarrow> rx_msg list \<Rightarrow> (nat io_result \<times> RecvBatchRaw, 'w) resume" where
  "recvmmsg_steps f k fd b =
     retry_steps k (\<lambda>ms. k_recvmmsg k fd ms (of_nat (RecvBatchRaw_capacity b))) (recvmmsg_done f k fd b)"

definition linux_recv_steps ::
    "features \<Rightarrow> 'w kernel \<Rightarrow> fd \<Rightarrow> RecvBatchRaw \<Rightarrow> (nat io_result \<times> RecvBatchRaw, 'w) resume" where
  "linux_recv_steps f k fd b =
     (let capacity = RecvBatchRaw_capacity b in
      if capacity = 0 then Ends (Returns (Inr 0, b))
      else if capacity \<le> MAX_STACK then
        resume_after (rx_stack_fill (k_libc k) b [0 ..< capacity] (replicate MAX_STACK zeroed_rx)) (\<lambda>msgs.
          recvmmsg_steps f k fd b (take capacity msgs))
      else resume_after (rx_heap_fill (k_libc k) b [0 ..< capacity] []) (recvmmsg_steps f k fd b))"

definition recvmsg_x_done ::
    "'w kernel \<Rightarrow> RecvBatchRaw \<Rightarrow> int io_result \<Rightarrow> msghdr_x list \<Rightarrow> (nat io_result \<times> RecvBatchRaw, 'w) resume" where
  "recvmsg_x_done k b received ms =
     (let b1 = x_sync b ms in
      case received of
        Inl e \<Rightarrow> Ends (Returns (Inl e, b1))
      | Inr received \<Rightarrow>
          let n = nat received in
          resume_after (x_record (k_libc k) ms [0 ..< n] b1) (\<lambda>b2.
            Ends (Returns (Inr n, RecvBatchRaw_set_len b2 n))))"

definition recvmsg_x_steps ::
    "'w kernel \<Rightarrow> (fd \<Rightarrow> msghdr_x list \<Rightarrow> u32 \<Rightarrow> 'w \<Rightarrow> int \<times> msghdr_x list \<times> 'w) \<Rightarrow> fd \<Rightarrow> RecvBatchRaw
       \<Rightarrow> msghdr_x list \<Rightarrow> (nat io_result \<times> RecvBatchRaw, 'w) resume" where
  "recvmsg_x_steps k recvmsg_x fd b =
     retry_steps k (\<lambda>ms. recvmsg_x fd ms (of_nat (RecvBatchRaw_capacity b))) (recvmsg_x_done k b)"

definition macos_recv_steps ::
    "'w macos_api \<Rightarrow> 'w kernel \<Rightarrow> fd \<Rightarrow> RecvBatchRaw \<Rightarrow> (nat io_result \<times> RecvBatchRaw, 'w) resume" where
  "macos_recv_steps A k fd b =
     (let capacity = RecvBatchRaw_capacity b in
      if capacity = 0 then Ends (Returns (Inr 0, b))
      else resume_after (x_fill (k_libc k) b [0 ..< capacity] []) (\<lambda>msgs. Step (\<lambda>w.
        case recvmsg_x_fn A w of
          (Some recvmsg_x, w1) \<Rightarrow> (recvmsg_x_steps k recvmsg_x fd b msgs, w1)
        | (None, w1) \<Rightarrow> (fallback_recv_steps k fd b, w1))))"

definition wsa_recv_steps ::
    "'w winsock \<Rightarrow> 'w kernel \<Rightarrow> fd \<Rightarrow> bytes \<Rightarrow> ((nat \<times> SocketAddr) io_result \<Rightarrow> bytes \<Rightarrow> ('r, 'w) resume)
       \<Rightarrow> ('r, 'w) resume" where
  "wsa_recv_steps W k fd buf g =
     (let c = k_libc k; source = zeroed_storage c; size = of_nat (size_storage c) in
      Step (\<lambda>w. case get_wsa_recvmsg W k w of (found, w1) \<Rightarrow> (Step (\<lambda>w.
        if found \<noteq> None then
          let (rc, bytes_recv, buf', source', namelen, w2) =
                ws_WSARecvMsg W fd buf (of_nat (length buf)) source size w
          in (g (if rc = SOCKET_ERROR then Inl (last_os_error k w2)
                 else Inr (unat bytes_recv, windows_decode_sockaddr c source' namelen)) buf', w2)
        else
          let (rc, buf', source', addr_len, w2) = ws_recvfrom W fd buf (of_nat (length buf)) source size w
          in (g (if rc = SOCKET_ERROR then Inl (last_os_error k w2)
                 else Inr (nat (rc mod 2 ^ 64), windows_decode_sockaddr c source' addr_len)) buf', w2)), w1)))"

definition windows_recv_steps ::
    "'w winsock \<Rightarrow> 'w kernel \<Rightarrow> fd \<Rightarrow> RecvBatchRaw \<Rightarrow> (nat io_result \<times> RecvBatchRaw, 'w) resume" where
  "windows_recv_steps W k fd b =
     (let capacity = RecvBatchRaw_capacity b in
      if capacity = 0 then Ends (Returns (Inr 0, b))
      else slot_steps (k_libc k) (wsa_recv_steps W k fd) [0 ..< capacity] 0 b)"

subsection \<open>The backend of a build\<close>

definition imp_send_steps ::
    "build \<Rightarrow> 'w macos_api \<Rightarrow> 'w winsock \<Rightarrow> 'w kernel \<Rightarrow> fd \<Rightarrow> memory \<Rightarrow> SendBatchRaw \<Rightarrow> (nat io_result, 'w) resume" where
  "imp_send_steps bld A W =
     (case native bld of
        Linux \<Rightarrow> linux_steps | MacOS \<Rightarrow> macos_steps A | Windows \<Rightarrow> windows_steps W | OtherOS \<Rightarrow> fallback_steps)"

definition imp_recv_steps ::
    "build \<Rightarrow> 'w macos_api \<Rightarrow> 'w winsock \<Rightarrow> 'w kernel \<Rightarrow> fd \<Rightarrow> RecvBatchRaw
       \<Rightarrow> (nat io_result \<times> RecvBatchRaw, 'w) resume" where
  "imp_recv_steps bld A W =
     (case native bld of
        Linux \<Rightarrow> linux_recv_steps (build_rx bld) | MacOS \<Rightarrow> macos_recv_steps A
      | Windows \<Rightarrow> windows_recv_steps W | OtherOS \<Rightarrow> fallback_recv_steps)"

section \<open>Run alone\<close>

text \<open>The loop of \<^verbatim>\<open>retry_eintr\<close> ends when \<^verbatim>\<open>retry_eintr\<close> does.\<close>

lemma retry_steps_Step:
  "retry_steps k f g ms = Step (\<lambda>w. case f ms w of (n, ms', w') \<Rightarrow>
     (if 0 \<le> n then g (Inr n) ms'
      else if kind (k_libc k) (last_os_error k w') = Interrupted then retry_steps k f g ms'
      else g (Inl (last_os_error k w')) ms', w'))"
  by (rule retry_steps.code)

lemma retry_steps_answers:
  assumes "resume_run (retry_steps k f g ms) w = Some y"
  shows "answers k f ms w"
proof -
  have "\<forall>ms. r = retry_steps k f g ms \<longrightarrow> answers k f ms w" if "resume_run r w = Some y" for r w y
    using that
  proof (rule resume_run.raw_induct [rotated], intro allI impI)
    fix run r w y ms
    assume ih: "\<And>r w y. run r w = Some y \<Longrightarrow> \<forall>ms. r = retry_steps k f g ms \<longrightarrow> answers k f ms w"
      and s: "(case r of Ends x \<Rightarrow> Some (x, w) | Step f \<Rightarrow> (case f w of (r', w') \<Rightarrow> run r' w')) = Some y"
      and r: "r = retry_steps k f g ms"
    obtain n ms' w' where f: "f ms w = (n, ms', w')" by (metis surj_pair)
    show "answers k f ms w"
    proof (cases "0 \<le> n \<or> kind (k_libc k) (last_os_error k w') \<noteq> Interrupted")
      case True
      with f show ?thesis by (rule answers.now)
    next
      case False
      with s f have "run (retry_steps k f g ms') w' = Some y"
        unfolding r by (subst (asm) retry_steps_Step) simp
      with ih have "answers k f ms' w'" by blast
      from answers.later [OF f _ _ this] False show ?thesis by simp
    qed
  qed
  with assms show ?thesis by blast
qed

lemma retry_alone:
  "alone (retry_steps k f g ms) w =
     outcome_bind (option_outcome (retry_eintr k f ms w)) (\<lambda>(r, ms', w'). alone (g r ms') w')"
proof (cases "answers k f ms w")
  case True
  then show ?thesis
  proof (induction rule: answers.induct)
    case (now ms w n ms' w')
    from retry_answer [of f, OF now] now show ?case unfolding retry_steps_Step [of k f g ms] by (auto simp: option_outcome_def)
  next
    case (later ms w n ms' w')
    have "retry_eintr k f ms w = retry_eintr k f ms' w'"
      using later(1-3) by (subst retry_eintr.simps) (simp add: Let_def)
    with later show ?case unfolding retry_steps_Step [of k f g ms] by auto
  qed
next
  case False
  then have "resume_run (retry_steps k f g ms) w = None" and "retry_eintr k f ms w = None"
    using retry_steps_answers [of k f g ms w] retry_answers [of k f ms w] by (metis not_Some_eq)+
  then show ?thesis by (simp add: alone_def option_outcome_def)
qed

lemma send_steps_alone: "alone (send_steps k fd m b is_conn is sent) w = send_loop k fd m b is_conn is sent w"
proof (induction "is" arbitrary: sent w)
  case (Cons i rest)
  show ?case
    by (auto simp: Cons.IH Let_def intro!: outcome_bind_cong split: prod.splits sum.splits)
qed simp

lemma fallback_alone: "alone (fallback_steps k fd m b) w = fallback_try_send_batch k fd m b w"
  by (simp add: fallback_steps_def fallback_try_send_batch_def Let_def send_steps_alone split: prod.splits)

lemma sendmmsg_alone: "alone (sendmmsg_steps k fd m b st len) w = call_sendmmsg k fd m b st len w"
  by (auto simp: sendmmsg_steps_def call_sendmmsg_def Let_def fallback_alone linux_fallback_send_eq
      intro!: outcome_bind_cong split: prod.splits)

lemma linux_alone: "alone (linux_steps k fd m b) w = linux_try_send_batch k fd m b w"
  by (simp add: linux_steps_def linux_try_send_batch_def Let_def sendmmsg_alone)

lemma windows_loop_alone:
  "alone (windows_loop_steps W k fd m b is_conn is sent) w = windows_send_loop W k fd m b is_conn is sent w"
proof (induction "is" arbitrary: sent w)
  case (Cons i rest)
  show ?case by (auto simp: Cons.IH Let_def intro!: outcome_bind_cong split: prod.splits)
qed simp

lemma windows_alone: "alone (windows_steps W k fd m b) w = windows_try_send_batch W k fd m b w"
  by (simp add: windows_steps_def windows_try_send_batch_def Let_def windows_loop_alone split: prod.splits)

lemma macos_alone: "alone (macos_steps A k fd m b) w = macos_try_send_batch A k fd m b w"
  by (auto simp: macos_steps_def macos_try_send_batch_def Let_def send_steps_alone macos_connected_send_def
      macos_plain_send_def sendmsg_x_steps_def call_sendmsg_x_def retry_alone macos_retry_eintr_def
      intro!: outcome_bind_cong split: prod.splits option.splits)

text \<open>A receive also returns the batch.\<close>

abbreviation regroup :: "(('a \<times> 'b) \<times> 'w) outcome \<Rightarrow> ('a \<times> 'b \<times> 'w) outcome" where
  "regroup x \<equiv> outcome_bind x (\<lambda>((r, b), w). Returns (r, b, w))"

lemma slot_steps_alone:
  assumes "\<And>buf g w. alone (recv1s buf g) w = (case recv1 buf w of (r, buf', w') \<Rightarrow> alone (g r buf') w')"
  shows "regroup (alone (slot_steps c recv1s is received b) w) = recv_slots c recv1 is received b w"
proof (induction "is" arbitrary: received b w)
  case (Cons i rest)
  show ?case
    by (auto simp: assms Cons.IH Let_def outcome_bind_assoc intro!: outcome_bind_cong split: prod.splits sum.splits)
qed simp

lemma recvfrom_alone:
  "alone (recvfrom_steps k fd buf g) w = (case raw_recvfrom k fd buf w of (r, buf', w') \<Rightarrow> alone (g r buf') w')"
  by (simp add: recvfrom_steps_def split: prod.splits)

lemma fallback_recv_alone: "regroup (alone (fallback_recv_steps k fd b) w) = fallback_try_recv_batch k fd b w"
  by (simp add: fallback_recv_steps_def fallback_recv_slots slot_steps_alone [OF recvfrom_alone])

lemma recvmmsg_alone: "regroup (alone (recvmmsg_steps f k fd b msgs) w) = call_recvmmsg f k fd b msgs w"
  by (auto simp: recvmmsg_steps_def recvmmsg_done_def call_recvmmsg_def Let_def retry_alone outcome_bind_assoc fallback_recv_alone
      linux_fallback_recv_def fallback_try_recv_batch_def [symmetric] intro!: outcome_bind_cong split: prod.splits sum.splits)

lemma linux_recv_alone: "regroup (alone (linux_recv_steps f k fd b) w) = linux_try_recv_batch f k fd b w"
  by (auto simp: linux_recv_steps_def linux_try_recv_batch_def linux_recv_stack_def linux_recv_heap_def Let_def
      outcome_bind_assoc recvmmsg_alone)

lemma recvmsg_x_alone:
  "regroup (alone (recvmsg_x_steps k recvmsg_x fd b msgs) w) = call_recvmsg_x k recvmsg_x fd b msgs w"
  by (auto simp: recvmsg_x_steps_def recvmsg_x_done_def call_recvmsg_x_def Let_def retry_alone macos_retry_eintr_def outcome_bind_assoc
      intro!: outcome_bind_cong split: prod.splits sum.splits)

lemma macos_recv_alone: "regroup (alone (macos_recv_steps A k fd b) w) = macos_try_recv_batch A k fd b w"
  by (auto simp: macos_recv_steps_def macos_try_recv_batch_def Let_def outcome_bind_assoc recvmsg_x_alone
      fallback_recv_alone macos_plain_recv_def fallback_try_recv_batch_def [symmetric]
      intro!: outcome_bind_cong split: prod.splits option.splits)

lemma wsa_recv_alone:
  "alone (wsa_recv_steps W k fd buf g) w = (case windows_recv1 W k fd buf w of (r, buf', w') \<Rightarrow> alone (g r buf') w')"
  by (auto simp: wsa_recv_steps_def windows_recv1_def windows_recv_one_def Let_def split: prod.splits option.splits)

lemma windows_recv_alone: "regroup (alone (windows_recv_steps W k fd b) w) = windows_try_recv_batch W k fd b w"
  by (simp add: windows_recv_steps_def windows_recv_slots_fun Let_def slot_steps_alone [OF wsa_recv_alone])

lemma imp_alone:
  "alone (imp_send_steps bld A W k fd m b) w = be_try_send (imp bld A W) k fd m b w"
  "regroup (alone (imp_recv_steps bld A W k fd rb) w) = be_try_recv (imp bld A W) k fd rb w"
  by (cases "native bld"; simp add: imp_send_steps_def imp_recv_steps_def imp_def linux_backend_def macos_backend_def
      windows_backend_def fallback_backend_def linux_alone macos_alone windows_alone fallback_alone
      linux_recv_alone macos_recv_alone windows_recv_alone fallback_recv_alone)+

section \<open>Properties\<close>


end
