(* ===== verification/Interleavings.thy ===== *)
theory Interleavings
  imports Threads
begin

text \<open>
  All interleavings of the attempts of several threads on one socket. What a thread has done to
  the socket so far is a list: the datagrams it sent, or those it took. \<open>traces\<close> follows that list
  through a resumption, call by call, for every world the other threads may have left behind; the
  locale \<open>observation\<close> puts the lists of the threads together.
\<close>

section \<open>What a thread does to the socket\<close>

text \<open>
  \<open>rel w w' es\<close>: from \<open>w\<close> to \<open>w'\<close> exactly \<open>es\<close> was done. \<open>ok\<close> holds of what the thread has done at
  any moment, \<open>fin\<close> of that and its result when it has ended. \<open>valid\<close>: the worlds considered.
\<close>

coinductive traces ::
    "('w \<Rightarrow> bool) \<Rightarrow> ('w \<Rightarrow> 'w \<Rightarrow> 'e list \<Rightarrow> bool) \<Rightarrow> ('e list \<Rightarrow> bool) \<Rightarrow> ('e list \<Rightarrow> 'r outcome \<Rightarrow> bool)
       \<Rightarrow> 'e list \<Rightarrow> ('r, 'w) resume \<Rightarrow> bool"
  for valid rel ok fin where
  ends: "ok part \<Longrightarrow> fin part x \<Longrightarrow> traces valid rel ok fin part (Ends x)"
| calls: "ok part \<Longrightarrow>
    (\<And>w. valid w \<Longrightarrow> \<exists>es. rel w (snd (f w)) es \<and> traces valid rel ok fin (part @ es) (fst (f w))) \<Longrightarrow>
    traces valid rel ok fin part (Step f)"

inductive_cases traces_EndsE: "traces valid rel ok fin part (Ends x)"
inductive_cases traces_StepE: "traces valid rel ok fin part (Step f)"

lemma traces_ok: "traces valid rel ok fin part r \<Longrightarrow> ok part"
  by (erule traces.cases) simp_all

lemma traces_fin: "traces valid rel ok fin part (Ends x) \<Longrightarrow> fin part x"
  by (erule traces_EndsE)

section \<open>Interleavings\<close>

text \<open>One thread makes its next call, or something else happens to the world.\<close>

inductive thread_step ::
    "('w \<Rightarrow> 'w \<Rightarrow> bool) \<Rightarrow> ('r, 'w) resume list \<times> 'w \<Rightarrow> ('r, 'w) resume list \<times> 'w \<Rightarrow> bool"
  for env where
  thread: "i < length rs \<Longrightarrow> rs ! i = Step f \<Longrightarrow> f w = (r, w') \<Longrightarrow> thread_step env (rs, w) (rs[i := r], w')"
| other: "env w w' \<Longrightarrow> thread_step env (rs, w) (rs, w')"

text \<open>The part of thread \<open>i\<close> in what all threads have done, each entry with the thread it belongs to.\<close>

definition of_thread :: "nat \<Rightarrow> (nat \<times> 'e) list \<Rightarrow> 'e list" where
  "of_thread i tr = map snd (filter (\<lambda>x. fst x = i) tr)"

lemma of_thread_simps [simp]:
  "of_thread i [] = []"
  "of_thread i (tr @ map (Pair j) es) = of_thread i tr @ (if i = j then es else [])"
  by (auto simp: of_thread_def filter_map o_def)

locale observation =
  fixes valid :: "'w \<Rightarrow> bool" and rel :: "'w \<Rightarrow> 'w \<Rightarrow> 'e list \<Rightarrow> bool"
  assumes stays: "rel w w []"
    and together: "rel w w1 a \<Longrightarrow> rel w1 w2 b \<Longrightarrow> rel w w2 (a @ b)"
    and keeps_valid: "valid w \<Longrightarrow> rel w w' a \<Longrightarrow> valid w'"
begin

lemma interleaving:
  assumes "(thread_step env)\<^sup>*\<^sup>* (rs, w) s" and "valid w"
    and "\<And>i. i < length rs \<Longrightarrow> traces valid rel (ok i) (fin i) [] (rs ! i)"
    and "\<And>w w'. valid w \<Longrightarrow> env w w' \<Longrightarrow> rel w w' []"
  shows "\<exists>tr. rel w (snd s) (map snd tr) \<and> fst ` set tr \<subseteq> {..< length rs} \<and> length (fst s) = length rs \<and>
     (\<forall>i < length rs. traces valid rel (ok i) (fin i) (of_thread i tr) (fst s ! i))"
  using assms(1)
proof (induction rule: rtranclp_induct)
  case base
  show ?case using assms(3) by (intro exI [of _ "[]"]) (simp add: stays)
next
  case (step s s')
  from step.IH obtain tr where tr: "rel w (snd s) (map snd tr)" "fst ` set tr \<subseteq> {..< length rs}"
    "length (fst s) = length rs"
    "\<forall>i < length rs. traces valid rel (ok i) (fin i) (of_thread i tr) (fst s ! i)" by blast
  have v: "valid (snd s)" using keeps_valid [OF assms(2) tr(1)] .
  from step.hyps(2) show ?case
  proof cases
    case (thread i rs1 f w1 r w2)
    with tr(3,4) have "traces valid rel (ok i) (fin i) (of_thread i tr) (Step f)" by force
    then obtain es where es: "rel w1 w2 es" "traces valid rel (ok i) (fin i) (of_thread i tr @ es) r"
      using v thread by (force elim: traces_StepE)
    with thread tr together [OF tr(1), of w2 es] show ?thesis
      by (intro exI [of _ "tr @ map (Pair i) es"]) (auto simp: nth_list_update o_def)
  next
    case (other w1 w2 rs1)
    with tr together [OF tr(1), of w2 "[]"] assms(4) v show ?thesis by (intro exI [of _ tr]) auto
  qed
qed

lemma interleaving_results:
  assumes "(thread_step env)\<^sup>*\<^sup>* (rs, w) (rs', w')" and "valid w"
    and "\<And>i. i < length rs \<Longrightarrow> traces valid rel (ok i) (fin i) [] (rs ! i)"
    and "\<And>w w'. valid w \<Longrightarrow> env w w' \<Longrightarrow> rel w w' []"
  shows "length rs' = length rs \<and> (\<exists>tr. rel w w' (map snd tr) \<and> fst ` set tr \<subseteq> {..< length rs} \<and>
     (\<forall>i < length rs. ok i (of_thread i tr) \<and> (\<forall>x. rs' ! i = Ends x \<longrightarrow> fin i (of_thread i tr) x)))"
proof -
  from interleaving [OF assms] obtain tr where tr: "rel w w' (map snd tr)" "fst ` set tr \<subseteq> {..< length rs}"
    "length rs' = length rs" "\<forall>i < length rs. traces valid rel (ok i) (fin i) (of_thread i tr) (rs' ! i)" by auto
  moreover have "ok i (of_thread i tr) \<and> (\<forall>x. rs' ! i = Ends x \<longrightarrow> fin i (of_thread i tr) x)" if "i < length rs" for i
    using tr(4) that traces_ok traces_fin by metis
  ultimately show ?thesis by blast
qed

lemma call_then:
  assumes "ok part" and "\<And>w r w'. valid w \<Longrightarrow> call w = (r, w') \<Longrightarrow>
      \<exists>es. rel w w' es \<and> traces valid rel ok fin (part @ es) (g r w')"
  shows "traces valid rel ok fin part (Step (\<lambda>w. let (r, w') = call w in (g r w', w')))"
  using assms by (intro traces.calls) (auto simp: Let_def split: prod.splits)

lemma call_then3:
  assumes "ok part" and "\<And>w r x w'. valid w \<Longrightarrow> call w = (r, x, w') \<Longrightarrow>
      \<exists>es. rel w w' es \<and> traces valid rel ok fin (part @ es) (g r x w')"
  shows "traces valid rel ok fin part (Step (\<lambda>w. let (r, x, w') = call w in (g r x w', w')))"
  using assms by (intro traces.calls) (auto simp: Let_def split: prod.splits)

text \<open>A call that does nothing to the socket, and one after which the thread has ended.\<close>

lemma quiet_call:
  assumes "ok part" and "\<And>w. valid w \<Longrightarrow> rel w (snd (f w)) [] \<and> traces valid rel ok fin part (fst (f w))"
  shows "traces valid rel ok fin part (Step f)"
  using assms by (intro traces.calls) (metis append_Nil2)+

lemma last_call:
  assumes "ok part" and "\<And>w. valid w \<Longrightarrow> \<exists>x es. fst (f w) = Ends x \<and> rel w (snd (f w)) es \<and>
      ok (part @ es) \<and> fin (part @ es) x"
  shows "traces valid rel ok fin part (Step f)"
  using assms by (intro traces.calls) (metis traces.ends)+

text \<open>\<^verbatim>\<open>retry_eintr\<close> around a call that does nothing when it is interrupted.\<close>

lemma retry_traces:
  assumes "ok part" and "P ms"
    and "\<And>ms w n ms' w'. P ms \<Longrightarrow> valid w \<Longrightarrow> f ms w = (n, ms', w') \<Longrightarrow>
      (if n < 0 \<and> kind (k_libc k) (last_os_error k w') = Interrupted then rel w w' [] \<and> P ms'
       else \<exists>es. rel w w' es \<and>
         traces valid rel ok fin (part @ es) (g (if 0 \<le> n then Inr n else Inl (last_os_error k w')) ms'))"
  shows "traces valid rel ok fin part (retry_steps k f g ms)"
proof -
  define X where "X p r \<longleftrightarrow> (\<exists>ms. p = part \<and> P ms \<and> r = retry_steps k f g ms)" for p r
  have "X part (retry_steps k f g ms)" using assms(2) X_def by blast
  then show ?thesis
  proof (coinduct rule: traces.coinduct)
    case (traces p r)
    then obtain ms where ms: "p = part" "P ms" "r = retry_steps k f g ms" unfolding X_def by blast
    let ?s = "\<lambda>w. case f ms w of (n, ms', w') \<Rightarrow>
      (if 0 \<le> n then g (Inr n) ms'
       else if kind (k_libc k) (last_os_error k w') = Interrupted then retry_steps k f g ms'
       else g (Inl (last_os_error k w')) ms', w')"
    have "\<exists>es. rel w (snd (?s w)) es \<and>
        (X (part @ es) (fst (?s w)) \<or> Interleavings.traces valid rel ok fin (part @ es) (fst (?s w)))"
      if w: "valid w" for w
    proof -
      obtain n ms' w' where fw: "f ms w = (n, ms', w')" by (metis surj_pair)
      show ?thesis
      proof (cases "n < 0 \<and> kind (k_libc k) (last_os_error k w') = Interrupted")
        case True
        with assms(3) [OF ms(2) w fw] fw show ?thesis
          by (intro exI [of _ "[]"]) (auto simp: X_def)
      next
        case False
        with assms(3) [OF ms(2) w fw] obtain es where "rel w w' es"
          "Interleavings.traces valid rel ok fin (part @ es) (g (if 0 \<le> n then Inr n else Inl (last_os_error k w')) ms')"
          by auto
        with False fw show ?thesis by (intro exI [of _ es]) auto
      qed
    qed
    with assms(1) ms show ?case unfolding retry_steps_Step [of k f g ms] by auto
  qed
qed

end

section \<open>Senders\<close>

interpretation sending: observation "\<lambda>_. True" "\<lambda>w w' es. txlog w' = txlog w @ es" for txlog :: "'w \<Rightarrow> tx_msg list"
  by unfold_locales auto

text \<open>What a sender has sent at any moment, and when it has ended.\<close>

definition sent_so_far :: "tx_msg list \<Rightarrow> tx_msg list \<Rightarrow> bool" where
  "sent_so_far ds part \<longleftrightarrow> (\<exists>n is_conn. n \<le> length ds \<and> part = take n (map (strip_name is_conn) ds))"

definition send_answers :: "libc \<Rightarrow> tx_msg list \<Rightarrow> tx_msg list \<Rightarrow> nat io_result outcome \<Rightarrow> bool" where
  "send_answers c ds part x \<longleftrightarrow>
     x = Returns (Inr (length part)) \<or>
     (\<exists>e. x = Returns (Inl e) \<and> length part < length ds \<and> (kind c e = WouldBlock \<longrightarrow> part = []))"

abbreviation sender_traces :: "('w \<Rightarrow> tx_msg list) \<Rightarrow> libc \<Rightarrow> tx_msg list \<Rightarrow> tx_msg list \<Rightarrow> (nat io_result, 'w) resume \<Rightarrow> bool" where
  "sender_traces txlog c ds \<equiv> traces (\<lambda>_. True) (\<lambda>w w' es. txlog w' = txlog w @ es) (sent_so_far ds) (send_answers c ds)"

lemma sent_so_far_take: "sent_so_far ds (take n (map (strip_name is_conn) ds))"
  unfolding sent_so_far_def by (metis length_map linear take_all)

lemma sent_so_far_Nil [simp]: "sent_so_far ds []"
  using sent_so_far_take [of ds 0] by simp

locale threaded_sender =
  fixes steps :: "'w kernel \<Rightarrow> fd \<Rightarrow> memory \<Rightarrow> SendBatchRaw \<Rightarrow> (nat io_result, 'w) resume"
    and sendable :: "SendBatchRaw \<Rightarrow> bool"
    and tx_contract :: "'w kernel \<Rightarrow> ('w \<Rightarrow> tx_msg list) \<Rightarrow> bool"
  assumes sends: "tx_contract k txlog \<Longrightarrow> sb_inv b \<Longrightarrow> sb_readable m b \<Longrightarrow> sendable b \<Longrightarrow>
      sender_traces txlog (k_libc k) (datagrams (k_libc k) m b) [] (steps k fd m b)"
begin

lemma all_interleavings:
  assumes "tx_contract k txlog" and "\<forall>b \<in> set bs. sb_inv b \<and> sb_readable m b \<and> sendable b"
    and "(thread_step env)\<^sup>*\<^sup>* (map (steps k fd m) bs, w) (rs, w')"
    and "\<And>w w'. env w w' \<Longrightarrow> txlog w' = txlog w"
  shows "length rs = length bs \<and> (\<exists>tr. txlog w' = txlog w @ map snd tr \<and> fst ` set tr \<subseteq> {..< length bs} \<and>
     (\<forall>i < length bs. sent_so_far (datagrams (k_libc k) m (bs ! i)) (of_thread i tr) \<and>
        (\<forall>x. rs ! i = Ends x \<longrightarrow> send_answers (k_libc k) (datagrams (k_libc k) m (bs ! i)) (of_thread i tr) x)))"
proof -
  let ?ok = "\<lambda>i. sent_so_far (datagrams (k_libc k) m (bs ! i))"
  let ?fin = "\<lambda>i. send_answers (k_libc k) (datagrams (k_libc k) m (bs ! i))"
  have t: "traces (\<lambda>_. True) (\<lambda>w w' es. txlog w' = txlog w @ es) (?ok i) (?fin i) [] (map (steps k fd m) bs ! i)"
    if "i < length (map (steps k fd m) bs)" for i
    using that sends [OF assms(1), of "bs ! i" m fd] assms(2) by simp
  from sending.interleaving_results [where txlog = txlog and ok = ?ok and fin = ?fin, OF assms(3) TrueI t] assms(4)
  show ?thesis by simp
qed

end

lemma send_steps_sends:
  assumes "log_contract k txlog" and "sb_inv b" and "sb_readable m b" and "is = [i ..< sb_len b]" and "i \<le> sb_len b"
  shows "sender_traces txlog (k_libc k) (datagrams (k_libc k) m b)
     (take i (map (strip_name is_conn) (datagrams (k_libc k) m b))) (send_steps k fd m b is_conn is i)"
  using assms(4,5)
proof (induction "is" arbitrary: i)
  case Nil
  then show ?case
    by (auto intro!: traces.ends sent_so_far_take simp: send_answers_def length_datagrams [OF assms(2)])
next
  case (Cons j js)
  let ?c = "k_libc k"
  let ?ds = "map (strip_name is_conn) (datagrams ?c m b)"
  have j: "j = i" "i < sb_len b" and js: "js = [Suc i ..< sb_len b]"
    using Cons.prems(1) [symmetric] by (auto simp: upt_eq_Cons_conv)
  obtain d a where e: "sb_entries b ! i = (d, a)" by (cases "sb_entries b ! i")
  note entry = entry_readable [OF assms(2,3) j(2), unfolded e]
  have len: "length ?ds = sb_len b" using assms(2) by (simp add: length_datagrams)
  have nth: "?ds ! i = strip_name is_conn \<lparr>tx_name = map_option (\<lambda>a. encode_sockaddr ?c a
      (zeroed_storage ?c)) a, tx_data = payload m d\<rparr>"
    using j(2) assms(2) e by (simp add: datagrams_def datagram_def length_sb_entries)
  have take: "take (Suc i) ?ds = take i ?ds @ [?ds ! i]"
    using j(2) len by (simp add: take_Suc_conv_app_nth)
  note ih = Cons.IH [OF js Suc_leI [OF j(2)], unfolded take]
  let ?call = "\<lambda>w. case (is_conn, a) of (True, _) \<Rightarrow> raw_send k fd (payload m d) w
      | (_, None) \<Rightarrow> raw_send k fd (payload m d) w | (_, Some a') \<Rightarrow> raw_sendto k fd (payload m d) a' w"
  have "sender_traces txlog ?c (datagrams ?c m b) (take i ?ds) (Step (\<lambda>w. let (result, w') = ?call w in
      (case result of Inr _ \<Rightarrow> send_steps k fd m b is_conn js (i + 1)
       | Inl e \<Rightarrow> if kind ?c e = WouldBlock then Ends (Returns (Inr i)) else Ends (Returns (Inl e)), w')))"
  proof (rule sending.call_then)
    fix w r w1
    assume r: "?call w = (r, w1)"
    have "sender_traces txlog ?c (datagrams ?c m b) (take i ?ds)
        (if kind ?c err = WouldBlock then Ends (Returns (Inr i)) else Ends (Returns (Inl err)))" for err
      using j(2) len by (auto intro!: traces.ends sent_so_far_take simp: send_answers_def)
    with ih send_one_log [OF assms(1) r, folded nth]
    show "\<exists>es. txlog w1 = txlog w @ es \<and> sender_traces txlog ?c (datagrams ?c m b) (take i ?ds @ es)
      (case r of Inr _ \<Rightarrow> send_steps k fd m b is_conn js (i + 1)
       | Inl e \<Rightarrow> if kind ?c e = WouldBlock then Ends (Returns (Inr i)) else Ends (Returns (Inl e)))"
      by (cases r) auto
  qed (rule sent_so_far_take)
  with entry j(1) show ?case by simp
qed

lemma send_loop_sends:
  assumes "log_contract k txlog" and "sb_inv b" and "sb_readable m b"
  shows "sender_traces txlog (k_libc k) (datagrams (k_libc k) m b) [] (send_steps k fd m b is_conn [0 ..< SendBatchRaw_len b] 0)"
  using send_steps_sends [OF assms refl, of 0] by (simp add: SendBatchRaw_len_def)

lemma fallback_sends:
  assumes "log_contract k txlog" and "sb_inv b" and "sb_readable m b"
  shows "sender_traces txlog (k_libc k) (datagrams (k_libc k) m b) [] (fallback_steps k fd m b)"
  using send_loop_sends [OF assms] is_connected_quiet [OF assms(1)]
  by (auto simp: fallback_steps_def Let_def send_answers_def intro!: traces.ends sending.quiet_call split: prod.splits)

text \<open>What \<^verbatim>\<open>sendmmsg\<close> is given, and what follows.\<close>

lemma linux_steps_call:
  assumes "sb_inv b" and "sb_readable m b" and "0 < sb_len b"
  shows "linux_steps k fd m b = Step (\<lambda>w.
     let (sent, w') = k_sendmmsg k fd (if sb_len b \<le> MAX_STACK then datagrams (k_libc k) m b
           else map (heap_datagram (k_libc k) m b) [0 ..< sb_len b]) (of_nat (sb_len b)) w in
     (if 0 \<le> sent then Ends (Returns (Inr (nat sent)))
      else let err = last_os_error k w' in
        if raw_os_error err = Some (ENOSYS (k_libc k)) then fallback_steps k fd m b
        else Ends (Returns (Inl err)), w'))"
proof (cases "sb_len b \<le> MAX_STACK")
  case True
  have "stack_done (k_libc k) b 0 (stack_arrays (k_libc k))"
    by (simp add: stack_done_def stack_arrays_def)
  from stack_fill_done [OF assms(1,2) True this refl] obtain st where
    "stack_fill (k_libc k) m b [0 ..< sb_len b] (stack_arrays (k_libc k)) = Returns st"
    and "stack_done (k_libc k) b (sb_len b) st" by auto
  with stack_views [OF assms(1) True this(2), of m] True assms(3) show ?thesis
    by (simp add: linux_steps_def SendBatchRaw_len_def sendmmsg_steps_def Let_def)
next
  case False
  from heap_build [OF assms(1,2), of "k_libc k"] heap_views [OF assms(1), of m "k_libc k"] False assms(3)
  show ?thesis by (simp add: linux_steps_def SendBatchRaw_len_def sendmmsg_steps_def Let_def)
qed

text \<open>One call that is given all datagrams.\<close>

lemma all_at_once:
  assumes "sb_inv b" and "0 < sb_len b" and "n \<le> int (sb_len b)" and "\<not> 0 \<le> n \<longrightarrow> x = Returns (Inl e)"
    and "0 \<le> n \<longrightarrow> x = Returns (Inr (nat n))"
  shows "sender_traces txlog c (datagrams c m b) (take (nat n) (datagrams c m b)) (Ends x)"
proof (rule traces.ends)
  have "map (strip_name False) ds = ds" for ds by (simp add: strip_name_def map_idI)
  then show "sent_so_far (datagrams c m b) (take (nat n) (datagrams c m b))"
    using sent_so_far_take [of "datagrams c m b" "nat n" False] by simp
  show "send_answers c (datagrams c m b) (take (nat n) (datagrams c m b)) x"
    using assms by (cases "0 \<le> n") (auto simp: send_answers_def length_datagrams)
qed

lemma linux_sends:
  assumes "log_contract k txlog" and "sb_inv b" and "sb_readable m b" and "sb_len b \<le> MAX_STACK \<or> dests_first b"
  shows "sender_traces txlog (k_libc k) (datagrams (k_libc k) m b) [] (linux_steps k fd m b)"
proof (cases "0 < sb_len b")
  case True
  have ms: "(if sb_len b \<le> MAX_STACK then datagrams (k_libc k) m b
      else map (heap_datagram (k_libc k) m b) [0 ..< sb_len b]) = datagrams (k_libc k) m b"
    using heap_datagrams [OF assms(2)] assms(4) by auto
  show ?thesis
    unfolding linux_steps_call [OF assms(2,3) True] ms
  proof (rule sending.call_then)
    fix w n w'
    assume s: "k_sendmmsg k fd (datagrams (k_libc k) m b) (of_nat (sb_len b)) w = (n, w')"
    have n: "n \<le> int (sb_len b)"
      using le_trans [OF nat_le_unat [OF count_contractD [OF log_contract_count [OF assms(1)] s]] unat_of_nat_le [OF order_refl]]
      by linarith
    let ?rest = "if 0 \<le> n then Ends (Returns (Inr (nat n)))
      else let err = last_os_error k w' in
        if raw_os_error err = Some (ENOSYS (k_libc k)) then fallback_steps k fd m b
        else Ends (Returns (Inl err))"
    have "sender_traces txlog (k_libc k) (datagrams (k_libc k) m b) (take (nat n) (datagrams (k_libc k) m b)) ?rest"
      using all_at_once [OF assms(2) True n, of "Returns (Inr (nat n))" undefined txlog "k_libc k" m]
        all_at_once [OF assms(2) True n, of "Returns (Inl (last_os_error k w'))" "last_os_error k w'" txlog "k_libc k" m]
        fallback_sends [OF assms(1-3), of fd]
      by (cases "0 \<le> n") (simp_all add: Let_def)
    with log_contract_sendmmsg [OF assms(1) s]
    show "\<exists>es. txlog w' = txlog w @ es \<and>
        sender_traces txlog (k_libc k) (datagrams (k_libc k) m b) ([] @ es) ?rest" by auto
  qed simp
qed (simp add: linux_steps_def SendBatchRaw_len_def traces.ends send_answers_def)

lemma windows_loop_sends:
  assumes "winsock_log W k txlog" and "sb_inv b" and "sb_readable m b" and "wsa_sendable b"
    and "is = [i ..< sb_len b]" and "i \<le> sb_len b"
  shows "sender_traces txlog (k_libc k) (datagrams (k_libc k) m b)
     (take i (map (strip_name is_conn) (datagrams (k_libc k) m b))) (windows_loop_steps W k fd m b is_conn is i)"
  using assms(5,6)
proof (induction "is" arbitrary: i)
  case Nil
  then show ?case
    by (auto intro!: traces.ends sent_so_far_take simp: send_answers_def length_datagrams [OF assms(2)])
next
  case (Cons j js)
  let ?c = "k_libc k"
  let ?ds = "map (strip_name is_conn) (datagrams ?c m b)"
  have j: "j = i" "i < sb_len b" and js: "js = [Suc i ..< sb_len b]"
    using Cons.prems(1) [symmetric] by (auto simp: upt_eq_Cons_conv)
  obtain d a where e: "sb_entries b ! i = (d, a)" by (cases "sb_entries b ! i")
  note entry = entry_readable [OF assms(2,3) j(2), unfolded e]
  have "slice_len d < 2 ^ 32"
    using assms(2,4) j(2) e by (auto simp: wsa_sendable_def list_all_length length_sb_entries)
  then have "wsa_tx_msg ?c m is_conn d a = strip_name is_conn (datagram ?c m (d, a))"
    using assms(1) length_payload by (intro wsa_tx_msg_datagram) (simp_all add: winsock_log_def windows_abi_def)
  then have nth: "?ds ! i = wsa_tx_msg ?c m is_conn d a" and len: "length ?ds = sb_len b"
    using j(2) assms(2) e by (simp_all add: length_datagrams nth_datagrams)
  have take: "take (Suc i) ?ds = take i ?ds @ [wsa_tx_msg ?c m is_conn d a]"
    using j(2) len nth by (metis take_Suc_conv_app_nth)
  note ih = Cons.IH [OF js Suc_leI [OF j(2)], unfolded take]
  let ?rest = "\<lambda>rc w'. if rc = 0 then windows_loop_steps W k fd m b is_conn js (i + 1)
    else let err = last_os_error k w' in
      if kind ?c err = WouldBlock then Ends (Returns (Inr i))
      else if 0 < i then Ends (Returns (Inr i)) else Ends (Returns (Inl err))"
  have "sender_traces txlog ?c (datagrams ?c m b) (take i ?ds)
      (Step (\<lambda>w. let (rc, _, w') = ws_WSASendMsg W fd (wsa_tx_msg ?c m is_conn d a) w in (?rest rc w', w')))"
  proof (rule sending.call_then3)
    fix w rc n w1
    assume "ws_WSASendMsg W fd (wsa_tx_msg ?c m is_conn d a) w = (rc, n, w1)"
    with assms(1) have "txlog w1 = txlog w @ (if rc = 0 then [wsa_tx_msg ?c m is_conn d a] else [])"
      unfolding winsock_log_def by blast
    moreover have "sender_traces txlog ?c (datagrams ?c m b) (take i ?ds) (?rest rc w1)" if "rc \<noteq> 0"
      using that j(2) len by (auto intro!: traces.ends sent_so_far_take simp: send_answers_def Let_def)
    ultimately show "\<exists>es. txlog w1 = txlog w @ es \<and> sender_traces txlog ?c (datagrams ?c m b) (take i ?ds @ es) (?rest rc w1)"
      using ih by (cases "rc = 0") auto
  qed (rule sent_so_far_take)
  with entry j(1) show ?case by simp
qed

lemma windows_sends:
  assumes "winsock_log W k txlog" and "sb_inv b" and "sb_readable m b" and "wsa_sendable b"
  shows "sender_traces txlog (k_libc k) (datagrams (k_libc k) m b) [] (windows_steps W k fd m b)"
proof -
  have "txlog w1 = txlog w" if "win_is_connected k fd w = (is_conn, w1)" for w is_conn w1
    using assms(1) that unfolding winsock_log_def
    by (auto simp: win_is_connected_def Let_def split: prod.splits)
  with windows_loop_sends [OF assms refl, of 0] show ?thesis
    by (auto simp: windows_steps_def SendBatchRaw_len_def Let_def send_answers_def
        intro!: traces.ends sending.quiet_call split: prod.splits)
qed

lemma macos_sends:
  assumes "macos_log A k txlog" and "sb_inv b" and "sb_readable m b" and "dests_first b"
  shows "sender_traces txlog (k_libc k) (datagrams (k_libc k) m b) [] (macos_steps A k fd m b)"
proof (cases "0 < sb_len b")
  case True
  let ?c = "k_libc k" and ?ds = "datagrams (k_libc k) m b"
  note A = macos_logD(1,2) [OF assms(1)]
  note loop = send_loop_sends [OF A(1) assms(2,3), of fd, unfolded SendBatchRaw_len_def]
  from macos_headers_views [OF assms(2,3), of ?c] obtain st where
    st: "macos_headers ?c m b (sb_len b) = Returns st"
      "outcome_map (tx_view m (sa_iovecs st) (sa_addrs st)) (take (sb_len b) (sa_msgs st)) = Returns ?ds"
    unfolding heap_datagrams [OF assms(2,4)] by blast
  have x: "sender_traces txlog ?c ?ds [] (sendmsg_x_steps k (ma_sendmsg_x A) fd m st (sb_len b))"
    unfolding sendmsg_x_steps_def st(2) resume_after.simps
  proof (rule sending.retry_traces [where P = "\<lambda>_. True"])
    fix ms w n w' and ms' :: unit
    assume "(let (n, w') = ma_sendmsg_x A fd ?ds (of_nat (sb_len b)) w in (n, (), w')) = (n, ms', w')"
    then have f: "ma_sendmsg_x A fd ?ds (of_nat (sb_len b)) w = (n, w')" by (auto split: prod.splits)
    have n: "n \<le> int (sb_len b)"
      using le_trans [OF nat_le_unat [OF macos_tx_okD(1) [OF A(2) f]] unat_of_nat_le [OF order_refl]] by linarith
    let ?r = "if 0 \<le> n then Inr n else Inl (last_os_error k w')"
    have "sender_traces txlog ?c ?ds (take (nat n) ?ds) (Ends (Returns (map_sum id nat ?r)))"
      by (rule all_at_once [OF assms(2) True n]) auto
    then show "if n < 0 \<and> kind ?c (last_os_error k w') = Interrupted then txlog w' = txlog w @ [] \<and> True
        else \<exists>es. txlog w' = txlog w @ es \<and> sender_traces txlog ?c ?ds ([] @ es) (Ends (Returns (map_sum id nat ?r)))"
      using macos_logD(3) [OF assms(1) f] by auto
  qed simp_all
  have "sender_traces txlog ?c ?ds [] (Step (\<lambda>w. case sendmsg_x_fn A w of
      (Some sendmsg_x, w2) \<Rightarrow> (sendmsg_x_steps k sendmsg_x fd m st (sb_len b), w2)
    | (None, w2) \<Rightarrow> (send_steps k fd m b False [0 ..< sb_len b] 0, w2)))"
    using x loop macos_logD(4) [OF assms(1)]
    by (intro sending.quiet_call) (auto split: prod.splits option.splits dest!: sendmsg_x_fn_Some)
  with loop is_connected_quiet [OF A(1)] True st(1) show ?thesis
    by (auto simp: macos_steps_def SendBatchRaw_len_def Let_def intro!: sending.quiet_call split: prod.splits)
qed (simp add: macos_steps_def SendBatchRaw_len_def traces.ends send_answers_def)

interpretation fallback_threads: threaded_sender fallback_steps "\<lambda>_. True" log_contract
  by unfold_locales (rule fallback_sends)

interpretation linux_threads: threaded_sender linux_steps "\<lambda>b. sb_len b \<le> MAX_STACK \<or> dests_first b" log_contract
  by unfold_locales (rule linux_sends)

interpretation macos_threads: threaded_sender "macos_steps A" dests_first "macos_log A" for A :: "'w macos_api"
  by unfold_locales (rule macos_sends)

interpretation windows_threads: threaded_sender "windows_steps W" wsa_sendable "winsock_log W" for W :: "'w winsock"
  by unfold_locales (rule windows_sends)

interpretation imp_threads: threaded_sender "imp_send_steps bld A W" "imp_sendable bld" "imp_log bld A W"
  for bld and A :: "'w macos_api" and W :: "'w winsock"
  by (cases "native bld")
     (simp_all add: imp_send_steps_def imp_sendable_def imp_log_def linux_threads.threaded_sender_axioms
       macos_threads.threaded_sender_axioms windows_threads.threaded_sender_axioms
       fallback_threads.threaded_sender_axioms)

section \<open>Receivers\<close>

text \<open>From \<open>w\<close> to \<open>w'\<close> exactly \<open>es\<close> was taken, while datagrams with \<open>fits\<close> arrived.\<close>

definition takes ::
    "('p \<Rightarrow> bool) \<Rightarrow> ('w \<Rightarrow> 'p list) \<Rightarrow> 'w \<Rightarrow> 'w \<Rightarrow> 'p list \<Rightarrow> bool" where
  "takes fits rxq w w' es \<longleftrightarrow> (\<exists>arrivals. list_all fits arrivals \<and> rxq w @ arrivals = es @ rxq w')"

lemma takesI: "rxq w = es @ rxq w' \<Longrightarrow> takes fits rxq w w' es"
  by (auto simp: takes_def intro: exI [of _ "[]"])

interpretation taking: observation "\<lambda>w. list_all fits (rxq w)" "takes fits rxq" for fits and rxq :: "'w \<Rightarrow> 'p list"
proof unfold_locales
  fix w :: 'w
  show "takes fits rxq w w []" by (simp add: takesI)
next
  fix w w' :: 'w and es
  assume "list_all fits (rxq w)" and "takes fits rxq w w' es"
  then show "list_all fits (rxq w')" unfolding takes_def by (metis list_all_append)
next
  fix w w1 w2 :: 'w and es es'
  assume "takes fits rxq w w1 es" and "takes fits rxq w1 w2 es'"
  then obtain a a' where "list_all fits a" "rxq w @ a = es @ rxq w1" "list_all fits a'" "rxq w1 @ a' = es' @ rxq w2"
    unfolding takes_def by blast
  then show "takes fits rxq w w2 (es @ es')"
    unfolding takes_def by (intro exI [of _ "a @ a'"] conjI) (simp, metis append_assoc)
qed

definition recv_answers ::
    "libc \<Rightarrow> nat \<Rightarrow> nat \<Rightarrow> (bytes \<times> SocketAddr) list \<Rightarrow> (nat io_result \<times> RecvBatchRaw) outcome \<Rightarrow> bool" where
  "recv_answers c n cap part x \<longleftrightarrow> (\<exists>r b. x = Returns (r, b) \<and> rb_inv n b \<and> RecvBatchRaw_capacity b = cap \<and>
     (if part = [] then r = Inr 0 \<or> (\<exists>e. r = Inl e \<and> kind c e = WouldBlock)
      else r = Inr (length part) \<and> rb_packets b = map (cut_to n) part))"

lemma recv_answers_Returns:
  "recv_answers c n cap part (Returns (r, b)) \<longleftrightarrow> rb_inv n b \<and> RecvBatchRaw_capacity b = cap \<and>
     (if part = [] then r = Inr 0 \<or> (\<exists>e. r = Inl e \<and> kind c e = WouldBlock)
      else r = Inr (length part) \<and> rb_packets b = map (cut_to n) part)"
  by (simp add: recv_answers_def)

abbreviation receiver_traces ::
    "(bytes \<times> SocketAddr \<Rightarrow> bool) \<Rightarrow> ('w \<Rightarrow> (bytes \<times> SocketAddr) list) \<Rightarrow> libc \<Rightarrow> nat \<Rightarrow> nat
       \<Rightarrow> (bytes \<times> SocketAddr) list \<Rightarrow> (nat io_result \<times> RecvBatchRaw, 'w) resume \<Rightarrow> bool" where
  "receiver_traces fits rxq c n cap \<equiv>
     traces (\<lambda>w. list_all fits (rxq w)) (takes fits rxq) (\<lambda>part. length part \<le> cap) (recv_answers c n cap)"

subsection \<open>One slot at a time\<close>

text \<open>The calls of one receive: they take the next datagram and go on with it, or find none.\<close>

locale slot_calls =
  fixes recv1 :: "'w kernel \<Rightarrow> fd \<Rightarrow> bytes
      \<Rightarrow> ((nat \<times> SocketAddr) io_result \<Rightarrow> bytes \<Rightarrow> (nat io_result \<times> RecvBatchRaw, 'w) resume)
      \<Rightarrow> (nat io_result \<times> RecvBatchRaw, 'w) resume"
    and rx_ok :: "'w kernel \<Rightarrow> bool"
    and queue_ok :: "'w kernel \<Rightarrow> ('w \<Rightarrow> (bytes \<times> SocketAddr) list) \<Rightarrow> bool"
    and roomy :: "nat \<Rightarrow> bool"
    and admits :: "nat \<Rightarrow> bytes \<times> SocketAddr \<Rightarrow> bool"
  assumes one: "queue_ok k rxq \<Longrightarrow> rx_ok k \<Longrightarrow> roomy (length buf) \<Longrightarrow> (\<And>p. fits p \<Longrightarrow> admits (length buf) p) \<Longrightarrow>
      length part \<le> cap \<Longrightarrow>
      (\<And>p. length (fst p) < 65536 \<Longrightarrow> receiver_traces fits rxq (k_libc k) n cap (part @ [p])
         (g (Inr (min (length (fst p)) (length buf), snd p)) (deposit buf (fst p)))) \<Longrightarrow>
      (\<And>e buf'. kind (k_libc k) e = WouldBlock \<Longrightarrow> length buf' = length buf \<Longrightarrow>
         receiver_traces fits rxq (k_libc k) n cap part (g (Inl e) buf')) \<Longrightarrow>
      receiver_traces fits rxq (k_libc k) n cap part (recv1 k fd buf g)"

lemma slot_steps_step:
  assumes "i < length (rb_slots b)"
  shows "slot_steps c recv1 (i # is) received b = recv1 (rs_buf (rb_slots b ! i)) (\<lambda>r buf'.
     case r of
       Inr (n, a) \<Rightarrow> slot_steps c recv1 is (received + 1) (recv_into b i buf' n a)
     | Inl e \<Rightarrow> Ends (Returns (if kind c e = WouldBlock then Inr received else Inl e,
         b\<lparr>rb_slots := (rb_slots b)[i := (rb_slots b ! i)\<lparr>rs_buf := buf'\<rparr>]\<rparr>)))"
  using assms
  by (auto simp: slot_ops slot_reads on_slot_in_range recv_into_def RecvBatchRaw_set_len_def fun_eq_iff
      intro!: arg_cong [where f = "recv1 (rs_buf (rb_slots b ! i))"] split: sum.splits)

context slot_calls
begin

lemma slot_steps_receives:
  assumes "queue_ok k rxq" and "rx_ok k" and "roomy n" and "\<And>p. fits p \<Longrightarrow> admits n p"
    and "rb_inv n b" and "is = [length part ..< length (rb_slots b)]" and "length part \<le> length (rb_slots b)"
    and "map slot_packet (take (length part) (rb_slots b)) = map (cut_to n) part"
    and "part \<noteq> [] \<longrightarrow> rb_len b = length part"
  shows "receiver_traces fits rxq (k_libc k) n (length (rb_slots b)) part (slot_steps (k_libc k) (recv1 k fd) is (length part) b)"
  using assms(5-)
proof (induction "is" arbitrary: part b)
  case Nil
  then show ?case
    by (auto intro!: traces.ends simp: recv_answers_Returns RecvBatchRaw_capacity_def rb_packets_def)
next
  case (Cons j js)
  let ?i = "length part" and ?cap = "length (rb_slots b)" and ?c = "k_libc k"
  have j: "j = ?i" "?i < ?cap" and js: "js = [Suc ?i ..< ?cap]"
    using Cons.prems(2) [symmetric] by (auto simp: upt_eq_Cons_conv)
  let ?s = "rb_slots b ! ?i"
  have len: "length (rs_buf ?s) = n" using Cons.prems(1) j by (simp add: rb_inv_def list_all_length)
  have "receiver_traces fits rxq ?c n ?cap (part @ [p]) (slot_steps ?c (recv1 k fd) js (?i + 1)
      (recv_into b ?i (deposit (rs_buf ?s) (fst p)) (min (length (fst p)) n) (snd p)))"
    if p: "length (fst p) < 65536" for p
  proof -
    let ?b = "recv_into b ?i (deposit (rs_buf ?s) (fst p)) (min (length (fst p)) n) (snd p)"
    have "slot_packet (rb_slots ?b ! ?i) = cut_to n p"
      using slot_packet_recv_into [OF len p] j by (simp add: recv_into_def)
    moreover have "take (Suc ?i) (rb_slots ?b) = take ?i (rb_slots b) @ [rb_slots ?b ! ?i]"
      using j by (simp add: recv_into_def take_Suc_conv_app_nth)
    ultimately have "map slot_packet (take (length (part @ [p])) (rb_slots ?b)) = map (cut_to n) (part @ [p])"
      using Cons.prems(4) by simp
    moreover have "rb_inv n ?b" using recv_into_inv [OF Cons.prems(1) j(2)] len by simp
    moreover have "length (rb_slots ?b) = ?cap" "rb_len ?b = Suc ?i" by (simp_all add: recv_into_def)
    ultimately show ?thesis using Cons.IH [of ?b "part @ [p]"] js j(2) by simp
  qed
  moreover have "receiver_traces fits rxq ?c n ?cap part (Ends (Returns (Inr ?i,
      b\<lparr>rb_slots := (rb_slots b)[?i := ?s\<lparr>rs_buf := buf'\<rparr>]\<rparr>)))" if "length buf' = n" for buf'
    using that Cons.prems j
    by (auto intro!: traces.ends simp: recv_answers_Returns RecvBatchRaw_capacity_def rb_packets_def rb_inv_def
        list_all_length nth_list_update split: if_splits)
  ultimately show ?case
    unfolding j(1) slot_steps_step [OF j(2)]
    using Cons.prems(3) len by (intro one [OF assms(1,2)]) (simp_all add: assms(3,4))
qed

lemma slots_receive:
  assumes "queue_ok k rxq" and "rx_ok k" and "roomy n" and "\<And>p. fits p \<Longrightarrow> admits n p" and "rb_inv n b"
  shows "receiver_traces fits rxq (k_libc k) n (RecvBatchRaw_capacity b) []
     (slot_steps (k_libc k) (recv1 k fd) [0 ..< RecvBatchRaw_capacity b] 0 b)"
  using slot_steps_receives [of k rxq n fits b _ "[]" fd] assms by (simp add: RecvBatchRaw_capacity_def)

end

text \<open>One receive that is a single call.\<close>

context slot_source
begin

lemma one_receive:
  assumes "queue_ok k rxq" and "rx_ok k" and "roomy (length buf)" and "\<And>p. fits p \<Longrightarrow> admits (length buf) p"
    and "length part \<le> cap"
    and got: "\<And>p. length (fst p) < 65536 \<Longrightarrow> receiver_traces fits rxq (k_libc k) n cap (part @ [p])
         (g (Inr (min (length (fst p)) (length buf), snd p)) (deposit buf (fst p)))"
    and none: "\<And>e buf'. kind (k_libc k) e = WouldBlock \<Longrightarrow> length buf' = length buf \<Longrightarrow>
         receiver_traces fits rxq (k_libc k) n cap part (g (Inl e) buf')"
  shows "receiver_traces fits rxq (k_libc k) n cap part
     (Step (\<lambda>w. let (result, buf', w') = recv1 k fd buf w in (g result buf', w')))"
proof (rule taking.call_then3)
  fix w r buf' w'
  assume v: "list_all fits (rxq w)" and rf: "recv1 k fd buf w = (r, buf', w')"
  show "\<exists>es. takes fits rxq w w' es \<and> receiver_traces fits rxq (k_libc k) n cap (part @ es) (g r buf')"
  proof (cases "rxq w")
    case Nil
    then have "takes fits rxq w w' []" and "receiver_traces fits rxq (k_libc k) n cap part (g r buf')"
      using dry [OF assms(1) rf] bounds [OF assms(2) rf] none assms(3) by (auto intro: takesI)
    then show ?thesis by (intro exI [of _ "[]"]) simp
  next
    case (Cons p ps)
    then have "admits (length buf) p" using v assms(4) by simp
    from head [OF assms(1) rf Cons assms(3) this]
    have "takes fits rxq w w' [p]" and "receiver_traces fits rxq (k_libc k) n cap (part @ [p]) (g r buf')"
      using udp_size [OF assms(1), of p w] got Cons by (auto intro: takesI)
    then show ?thesis by blast
  qed
qed (rule assms(5))

end

interpretation fallback_calls: slot_calls recvfrom_steps recv_contract queue_contract "\<lambda>_. True" "\<lambda>_ _. True"
  unfolding recvfrom_steps_def by unfold_locales (rule fallback_source.one_receive)

text \<open>Once the extension function has been looked for, a receive is the one that knows the answer.\<close>

lemma wsa_recv_found:
  "wsa_recv_steps W k fd buf g = Step (\<lambda>w. case get_wsa_recvmsg W k w of (found, w1) \<Rightarrow>
     (Step (\<lambda>w. let (r, buf', w') = windows_recv1 (W\<lparr>ws_ptr := \<lambda>_. Some found\<rparr>) k fd buf w in (g r buf', w')), w1))"
  by (auto simp: wsa_recv_steps_def windows_recv1_def windows_recv_one_def get_wsa_recvmsg_def Let_def fun_eq_iff
      split: prod.splits option.splits)

lemma winsock_found:
  "winsock_queue (W\<lparr>ws_ptr := x\<rparr>) k rxq = winsock_queue W k rxq" "winsock_rx_ok (W\<lparr>ws_ptr := x\<rparr>) k = winsock_rx_ok W k"
  by (simp_all add: winsock_queue_def winsock_rx_ok_def)

interpretation windows_calls: slot_calls "wsa_recv_steps W" "winsock_rx_ok W" "winsock_queue W" wsa_roomy wsa_admits
  for W :: "'w winsock"
proof unfold_locales
  fix k :: "'w kernel" and fits rxq buf part cap n g fd
  assume q: "winsock_queue W k rxq" and rest: "winsock_rx_ok W k" "wsa_roomy (length buf)"
    "\<And>p. fits p \<Longrightarrow> wsa_admits (length buf) p" "length part \<le> cap"
    "\<And>p. length (fst p) < 65536 \<Longrightarrow> receiver_traces fits rxq (k_libc k) n cap (part @ [p])
         (g (Inr (min (length (fst p)) (length buf), snd p)) (deposit buf (fst p)))"
    "\<And>e buf'. kind (k_libc k) e = WouldBlock \<Longrightarrow> length buf' = length buf \<Longrightarrow>
         receiver_traces fits rxq (k_libc k) n cap part (g (Inl e) buf')"
  have "receiver_traces fits rxq (k_libc k) n cap part (Step (\<lambda>w.
      let (r, buf', w') = windows_recv1 (W\<lparr>ws_ptr := \<lambda>_. Some found\<rparr>) k fd buf w in (g r buf', w')))" for found
    by (rule windows_source.one_receive) (use q rest in \<open>simp_all add: winsock_found\<close>)
  then show "receiver_traces fits rxq (k_libc k) n cap part (wsa_recv_steps W k fd buf g)"
    unfolding wsa_recv_found using rest(4) get_wsa_recvmsg_quiet [OF q]
    by (intro taking.quiet_call) (auto intro: takesI split: prod.splits)
qed

lemma windows_receives:
  assumes "winsock_queue W k rxq" and "winsock_rx_ok W k" and "rb_inv n b" and "wsa_roomy n"
    and "\<And>p. fits p \<Longrightarrow> wsa_admits n p"
  shows "receiver_traces fits rxq (k_libc k) n (RecvBatchRaw_capacity b) [] (windows_recv_steps W k fd b)"
  using windows_calls.slots_receive [OF assms(1,2,4,5,3), of fits] assms(3)
  by (auto simp: windows_recv_steps_def Let_def recv_answers_Returns intro!: traces.ends)

subsection \<open>All slots with one call\<close>

text \<open>An attempt that is a single call does what it does alone.\<close>

lemma one_call_receives:
  assumes "\<And>w j ms' w'. f ms w = (j, ms', w') \<Longrightarrow>
        (0 \<le> j \<or> kind (k_libc k) (last_os_error k w') \<noteq> Interrupted) \<and>
        (\<exists>x. g (if 0 \<le> j then Inr j else Inl (last_os_error k w')) ms' = Ends x)"
    and "\<And>w. regroup (alone (retry_steps k f g ms) w) = attempt w"
    and "\<And>w. rxq w \<noteq> [] \<Longrightarrow> \<exists>b' w'. attempt w = Returns (Inr (min cap (length (rxq w))), b', w') \<and>
        rxq w' = drop cap (rxq w) \<and> rb_packets b' = map (cut_to n) (take cap (rxq w))"
    and "\<And>w. rxq w = [] \<Longrightarrow> \<exists>r b' w'. attempt w = Returns (r, b', w') \<and> rxq w' = [] \<and>
        (r = Inr 0 \<or> (\<exists>e. r = Inl e \<and> kind c e = WouldBlock))"
    and "\<And>w r b' w'. attempt w = Returns (r, b', w') \<Longrightarrow> rb_inv n b' \<and> RecvBatchRaw_capacity b' = cap"
    and "0 < cap"
  shows "receiver_traces fits rxq c n cap [] (retry_steps k f g ms)"
proof -
  obtain h where h: "retry_steps k f g ms = Step h" and h_def: "h = (\<lambda>w. case f ms w of (j, ms', w') \<Rightarrow>
     (if 0 \<le> j then g (Inr j) ms'
      else if kind (k_libc k) (last_os_error k w') = Interrupted then retry_steps k f g ms'
      else g (Inl (last_os_error k w')) ms', w'))" using retry_steps_Step by metis
  show ?thesis
    unfolding h
  proof (rule taking.last_call)
    fix w
    obtain x where x: "fst (h w) = Ends x"
    proof -
      obtain j ms' w' where fw: "f ms w = (j, ms', w')" by (metis surj_pair)
      from assms(1) [OF this] fw that show thesis by (auto simp: h_def split: if_splits)
    qed
    have ends: "x = Returns (r, b') \<and> snd (h w) = w'" if "attempt w = Returns (r, b', w')" for r b' w'
      using that x assms(2) [of w] unfolding h by (cases x) (auto simp: split_beta)
    show "\<exists>x es. fst (h w) = Ends x \<and> takes fits rxq w (snd (h w)) es \<and> length ([] @ es) \<le> cap \<and>
        recv_answers c n cap ([] @ es) x"
    proof (cases "rxq w = []")
      case True
      with assms(4) obtain r b' w' where a: "attempt w = Returns (r, b', w')" "rxq w' = []"
        "r = Inr 0 \<or> (\<exists>e. r = Inl e \<and> kind c e = WouldBlock)" by blast
      with x ends [OF a(1)] True assms(5) [OF a(1)] show ?thesis
        by (intro exI [of _ x] exI [of _ "[]"]) (auto simp: recv_answers_Returns intro: takesI)
    next
      case False
      with assms(3) obtain b' w' where a: "attempt w = Returns (Inr (min cap (length (rxq w))), b', w')"
        "rxq w' = drop cap (rxq w)" "rb_packets b' = map (cut_to n) (take cap (rxq w))" by blast
      with x ends [OF a(1)] False assms(5) [OF a(1)] assms(6) show ?thesis
        by (intro exI [of _ x] exI [of _ "take cap (rxq w)"]) (auto simp: recv_answers_Returns min.commute intro!: takesI)
    qed
  qed simp
qed

lemma resume_after_Ends:
  "resume_after v (\<lambda>y. Ends (g y)) = Ends (outcome_bind v g)"
  "resume_after p (\<lambda>(x, y). Ends (g' x y)) = Ends (outcome_bind p (\<lambda>(x, y). g' x y))"
  by (cases v; simp) (cases p; simp add: split_beta)

text \<open>While no signal arrives, the first call of \<^verbatim>\<open>retry_eintr\<close> is the only one.\<close>

lemma linux_recv_steps_call:
  assumes "0 < RecvBatchRaw_capacity b"
  shows "linux_recv_steps f k fd b = recvmmsg_steps f k fd b (rx_init (k_libc k) b)"
  using rx_stack_fill_result [of _ 0 b "replicate MAX_STACK zeroed_rx" "k_libc k"]
    rx_heap_fill_result [of _ 0 b "[]" "k_libc k"] assms
  by (auto simp: linux_recv_steps_def RecvBatchRaw_capacity_def Let_def)

lemma linux_receives:
  assumes "\<not> feat_gro f" and "queue_contract k rxq" and "recv_contract k" and "rb_inv n b"
    and "RecvBatchRaw_capacity b < 2 ^ 32"
  shows "receiver_traces fits rxq (k_libc k) n (RecvBatchRaw_capacity b) [] (linux_recv_steps f k fd b)"
proof (cases "0 < RecvBatchRaw_capacity b")
  case True
  let ?c = "k_libc k" and ?cap = "RecvBatchRaw_capacity b"
  have v: "0 < unat (of_nat ?cap :: u32)" "unat (of_nat ?cap :: u32) \<le> length (rx_init ?c b)"
    using assms(5) True by (simp_all add: RecvBatchRaw_capacity_def unat_of_nat_u32)
  note ok = queue_contract_libc(2) [OF assms(2)]
  have enosys: "raw_os_error (Os (EAGAIN ?c)) \<noteq> Some (ENOSYS ?c)" using ok by (simp add: errno_ok_def)
  show ?thesis
    unfolding linux_recv_steps_call [OF True] recvmmsg_steps_def
  proof (rule one_call_receives)
    show "(0 \<le> j \<or> kind ?c (last_os_error k w1) \<noteq> Interrupted) \<and>
        (\<exists>x. recvmmsg_done f k fd b (if 0 \<le> j then Inr j else Inl (last_os_error k w1)) ms = Ends x)"
      if rm: "k_recvmmsg k fd (rx_init ?c b) (of_nat ?cap) w = (j, ms, w1)" for w j ms w1
    proof -
      from queue_contract_recvmmsg [OF assms(2) rm v]
      have "0 \<le> j \<or> last_os_error k w1 = Os (EAGAIN ?c)" by (auto simp: last_os_error_def split: if_splits)
      with enosys kind_EAGAIN [OF ok] show ?thesis
        by (auto simp: recvmmsg_done_def resume_after_Ends simp del: kind.simps)
    qed
    show "regroup (alone (retry_steps k (\<lambda>ms. k_recvmmsg k fd ms (of_nat ?cap)) (recvmmsg_done f k fd b) (rx_init ?c b)) w) =
        linux_try_recv_batch f k fd b w" for w
      unfolding recvmmsg_steps_def [symmetric] recvmmsg_alone linux_recv_call [OF True] ..
    show "rxq w \<noteq> [] \<Longrightarrow> \<exists>b' w'. linux_try_recv_batch f k fd b w = Returns (Inr (min ?cap (length (rxq w))), b', w') \<and>
        rxq w' = drop ?cap (rxq w) \<and> rb_packets b' = map (cut_to n) (take ?cap (rxq w))" for w
      by (rule linux_recv_delivers [OF assms(1,2,4,5) True])
    show "rxq w = [] \<Longrightarrow> \<exists>r b' w'. linux_try_recv_batch f k fd b w = Returns (r, b', w') \<and> rxq w' = [] \<and>
        (r = Inr 0 \<or> (\<exists>e. r = Inl e \<and> kind ?c e = WouldBlock))" for w
      using linux_recv_starved [OF assms(2,5) True, of w f fd] by blast
    show "linux_try_recv_batch f k fd b w = Returns (r, b', w') \<Longrightarrow> rb_inv n b' \<and> RecvBatchRaw_capacity b' = ?cap" for w r b' w'
      by (rule linux_recv.keeps_inv [OF assms(3,4)])
  qed (rule True)
qed (use assms(4) in \<open>auto simp: linux_recv_steps_def recv_answers_Returns intro!: traces.ends\<close>)

lemma recvmsg_x_receives:
  assumes "macos_queue A k rxq" and "macos_rx_ok A k" and "rb_inv n b" and "RecvBatchRaw_capacity b < 2 ^ 32"
    and "0 < RecvBatchRaw_capacity b"
  shows "receiver_traces fits rxq (k_libc k) n (RecvBatchRaw_capacity b) []
     (recvmsg_x_steps k (ma_recvmsg_x A) fd b (x_init (k_libc k) b))"
proof -
  let ?c = "k_libc k" and ?cap = "RecvBatchRaw_capacity b"
  let ?call = "call_recvmsg_x k (ma_recvmsg_x A) fd b (x_init ?c b)"
  have v: "0 < unat (of_nat ?cap :: u32)" "unat (of_nat ?cap :: u32) \<le> length (x_init ?c b)"
    using assms(4,5) by (simp_all add: RecvBatchRaw_capacity_def unat_of_nat_u32)
  note ok = queue_contract_libc(2) [OF macos_queueD(1) [OF assms(1)]]
  show ?thesis
    unfolding recvmsg_x_steps_def
  proof (rule one_call_receives)
    show "(0 \<le> j \<or> kind ?c (last_os_error k w1) \<noteq> Interrupted) \<and>
        (\<exists>x. recvmsg_x_done k b (if 0 \<le> j then Inr j else Inl (last_os_error k w1)) ms = Ends x)"
      if rm: "ma_recvmsg_x A fd (x_init ?c b) (of_nat ?cap) w = (j, ms, w1)" for w j ms w1
    proof -
      from macos_queue_recvmsg_x [OF assms(1) rm v]
      have "0 \<le> j \<or> last_os_error k w1 = Os (EAGAIN ?c)" by (auto simp: last_os_error_def split: if_splits)
      with kind_EAGAIN [OF ok] show ?thesis
        by (auto simp: recvmsg_x_done_def resume_after_Ends Let_def simp del: kind.simps)
    qed
    show "regroup (alone (retry_steps k (\<lambda>ms. ma_recvmsg_x A fd ms (of_nat ?cap)) (recvmsg_x_done k b) (x_init ?c b)) w) =
        ?call w" for w
      unfolding recvmsg_x_steps_def [symmetric] by (rule recvmsg_x_alone)
    show "rxq w \<noteq> [] \<Longrightarrow> \<exists>b' w'. ?call w = Returns (Inr (min ?cap (length (rxq w))), b', w') \<and>
        rxq w' = drop ?cap (rxq w) \<and> rb_packets b' = map (cut_to n) (take ?cap (rxq w))" for w
      by (rule call_recvmsg_x_delivers [OF assms(1,3,4,5)])
    show "rxq w = [] \<Longrightarrow> \<exists>r b' w'. ?call w = Returns (r, b', w') \<and> rxq w' = [] \<and>
        (r = Inr 0 \<or> (\<exists>e. r = Inl e \<and> kind ?c e = WouldBlock))" for w
      using call_recvmsg_x_starved [OF assms(1,4,5), of w fd] by blast
    show "?call w = Returns (r, b', w') \<Longrightarrow> rb_inv n b' \<and> RecvBatchRaw_capacity b' = ?cap" for w r b' w'
      using call_recvmsg_x_shape [OF assms(2,3)] by (simp add: RecvBatchRaw_capacity_def)
  qed (rule assms(5))
qed

lemma macos_receives:
  assumes "macos_queue A k rxq" and "macos_rx_ok A k" and "rb_inv n b" and "RecvBatchRaw_capacity b < 2 ^ 32"
  shows "receiver_traces fits rxq (k_libc k) n (RecvBatchRaw_capacity b) [] (macos_recv_steps A k fd b)"
proof (cases "0 < RecvBatchRaw_capacity b")
  case True
  have "receiver_traces fits rxq (k_libc k) n (RecvBatchRaw_capacity b) [] (fallback_recv_steps k fd b)"
    unfolding fallback_recv_steps_def
    by (rule fallback_calls.slots_receive [OF macos_queueD(1) [OF assms(1)] macos_rx_okD(1) [OF assms(2)] _ _ assms(3)]) simp_all
  with recvmsg_x_receives [OF assms True] True macos_queueD(2) [OF assms(1)] show ?thesis
    by (auto simp: macos_recv_steps_def Let_def x_fill_all [folded RecvBatchRaw_capacity_def] intro!: taking.quiet_call
        intro: takesI split: prod.splits option.splits dest!: recvmsg_x_fn_Some)
qed (use assms(3) in \<open>auto simp: macos_recv_steps_def recv_answers_Returns intro!: traces.ends\<close>)

subsection \<open>All backends\<close>

locale threaded_receiver =
  fixes steps :: "'w kernel \<Rightarrow> fd \<Rightarrow> RecvBatchRaw \<Rightarrow> (nat io_result \<times> RecvBatchRaw, 'w) resume"
    and rx_ok :: "'w kernel \<Rightarrow> bool"
    and queue_ok :: "'w kernel \<Rightarrow> ('w \<Rightarrow> (bytes \<times> SocketAddr) list) \<Rightarrow> bool"
    and roomy :: "nat \<Rightarrow> bool"
    and admits :: "nat \<Rightarrow> bytes \<times> SocketAddr \<Rightarrow> bool"
  assumes receives: "queue_ok k rxq \<Longrightarrow> rx_ok k \<Longrightarrow> rb_inv n b \<Longrightarrow> RecvBatchRaw_capacity b < 2 ^ 32 \<Longrightarrow> roomy n \<Longrightarrow>
      (\<And>p. fits p \<Longrightarrow> admits n p) \<Longrightarrow>
      receiver_traces fits rxq (k_libc k) n (RecvBatchRaw_capacity b) [] (steps k fd b)"
begin

lemma all_interleavings:
  assumes "queue_ok k rxq" and "rx_ok k"
    and "\<forall>(n, b) \<in> set rbs. rb_inv n b \<and> RecvBatchRaw_capacity b < 2 ^ 32 \<and> roomy n"
    and "(thread_step env)\<^sup>*\<^sup>* (map (\<lambda>(n, b). steps k fd b) rbs, w) (rs, w')"
    and "\<forall>(n, b) \<in> set rbs. list_all (admits n) (rxq w)"
    and "\<And>w w'. env w w' \<Longrightarrow> \<exists>arrivals. rxq w' = rxq w @ arrivals \<and> (\<forall>(n, b) \<in> set rbs. list_all (admits n) arrivals)"
  shows "length rs = length rbs \<and> (\<exists>tr arrivals. rxq w @ arrivals = map snd tr @ rxq w' \<and>
     fst ` set tr \<subseteq> {..< length rbs} \<and>
     (\<forall>i < length rbs. length (of_thread i tr) \<le> RecvBatchRaw_capacity (snd (rbs ! i)) \<and>
        (\<forall>x. rs ! i = Ends x \<longrightarrow>
           recv_answers (k_libc k) (fst (rbs ! i)) (RecvBatchRaw_capacity (snd (rbs ! i))) (of_thread i tr) x)))"
proof -
  define fits where "fits p \<longleftrightarrow> (\<forall>(n, b) \<in> set rbs. admits n p)" for p
  have fits: "list_all fits ps \<longleftrightarrow> (\<forall>(n, b) \<in> set rbs. list_all (admits n) ps)" for ps
    by (auto simp: fits_def list_all_iff)
  let ?ok = "\<lambda>i part. length part \<le> RecvBatchRaw_capacity (snd (rbs ! i))"
  let ?fin = "\<lambda>i. recv_answers (k_libc k) (fst (rbs ! i)) (RecvBatchRaw_capacity (snd (rbs ! i)))"
  let ?tr = "\<lambda>i. traces (\<lambda>w. list_all fits (rxq w)) (takes fits rxq) (?ok i) (?fin i)"
  have t: "?tr i [] (map (\<lambda>(n, b). steps k fd b) rbs ! i)" if "i < length (map (\<lambda>(n, b). steps k fd b) rbs)" for i
  proof -
    obtain n b where nb: "rbs ! i = (n, b)" by (metis surj_pair)
    with that have "(n, b) \<in> set rbs" by (metis length_map nth_mem)
    with receives [OF assms(1,2), of n b fits fd] assms(3) that nb show ?thesis by (auto simp: fits_def)
  qed
  have e: "takes fits rxq v v' []" if "env v v'" for v v'
    using assms(6) [OF that] by (auto simp: takes_def fits)
  have "list_all fits (rxq w)" using assms(5) by (simp add: fits)
  note r = taking.interleaving_results [where rxq = rxq and fits = fits and ok = ?ok and fin = ?fin, OF assms(4) this t]
  from r e show ?thesis unfolding takes_def by auto
qed

end

interpretation fallback_receivers: threaded_receiver fallback_recv_steps recv_contract queue_contract "\<lambda>_. True" "\<lambda>_ _. True"
  unfolding fallback_recv_steps_def by unfold_locales (rule fallback_calls.slots_receive)

interpretation linux_receivers: threaded_receiver
  "linux_recv_steps \<lparr>feat_gro = False, feat_timestamping = ts, feat_pktinfo = pk\<rparr>" recv_contract queue_contract
  "\<lambda>_. True" "\<lambda>_ _. True" for ts pk
  by unfold_locales (rule linux_receives, simp_all)

interpretation macos_receivers: threaded_receiver "macos_recv_steps A" "macos_rx_ok A" "macos_queue A" "\<lambda>_. True" "\<lambda>_ _. True"
  for A :: "'w macos_api"
  by unfold_locales (rule macos_receives)

interpretation windows_receivers: threaded_receiver "windows_recv_steps W" "winsock_rx_ok W" "winsock_queue W" wsa_roomy
  wsa_admits for W :: "'w winsock"
  by unfold_locales (rule windows_receives)

lemma imp_receivers:
  assumes "native bld = Linux \<longrightarrow> \<not> feat_gro (build_rx bld)"
  shows "threaded_receiver (imp_recv_steps bld A W) (imp_rx_ok bld A W) (imp_queue bld A W) (imp_roomy bld) (imp_admits bld)"
proof (cases "native bld")
  case Linux
  obtain ts pk where "build_rx bld = \<lparr>feat_gro = False, feat_timestamping = ts, feat_pktinfo = pk\<rparr>"
    using Linux assms by (cases "build_rx bld") simp
  with Linux show ?thesis by (simp add: imp_recv_steps_def imp_defs linux_receivers.threaded_receiver_axioms)
qed (simp_all add: imp_recv_steps_def imp_defs macos_receivers.threaded_receiver_axioms
    windows_receivers.threaded_receiver_axioms fallback_receivers.threaded_receiver_axioms)

section \<open>Schedules\<close>

text \<open>An order of calls, one thread number per call.\<close>

fun schedule :: "nat list \<Rightarrow> ('r, 'w) resume list \<times> 'w \<Rightarrow> ('r, 'w) resume list \<times> 'w" where
  "schedule [] s = s"
| "schedule (i # is) (rs, w) =
     (if i < length rs
      then case rs ! i of Ends _ \<Rightarrow> schedule is (rs, w) | Step f \<Rightarrow> (case f w of (r, w') \<Rightarrow> schedule is (rs[i := r], w'))
      else schedule is (rs, w))"

lemma schedule_runs: "(thread_step env)\<^sup>*\<^sup>* s (schedule is s)"
proof (induction "is" s rule: schedule.induct)
  case (2 i "is" rs w)
  show ?case
  proof (cases "i < length rs")
    case True
    show ?thesis
    proof (cases "rs ! i")
      case (Step f)
      obtain r w' where fw: "f w = (r, w')" by (metis surj_pair)
      from thread_step.thread [OF True Step fw]
      have "thread_step env (rs, w) (rs[i := r], w')" .
      moreover have "(thread_step env)\<^sup>*\<^sup>* (rs[i := r], w') (schedule is (rs[i := r], w'))"
        by (rule 2(2) [OF True Step fw [symmetric]])
      ultimately show ?thesis using True Step fw by (auto intro: converse_rtranclp_into_rtranclp)
    qed (use 2 True in simp)
  qed (use 2 in simp)
qed simp

section \<open>How many calls an attempt makes\<close>

text \<open>At most \<open>n\<close> calls, whatever they return and whatever happens in between.\<close>

primrec ends_within :: "nat \<Rightarrow> ('r, 'w) resume \<Rightarrow> bool" where
  "ends_within 0 r = (case r of Ends _ \<Rightarrow> True | Step _ \<Rightarrow> False)"
| "ends_within (Suc n) r = (case r of Ends _ \<Rightarrow> True | Step f \<Rightarrow> (\<forall>w. ends_within n (fst (f w))))"

lemma within_simps [simp]:
  "ends_within n (Ends x)"
  "ends_within n (Step f) \<longleftrightarrow> (\<exists>k. n = Suc k \<and> (\<forall>w. ends_within k (fst (f w))))"
  by (cases n; simp)+

lemma within_mono: "ends_within n r \<Longrightarrow> n \<le> k \<Longrightarrow> ends_within k r"
proof (induction n arbitrary: k r)
  case 0
  then show ?case by (cases r) simp_all
next
  case (Suc n)
  then show ?case by (cases r; cases k) auto
qed

lemma within_after [simp]: "ends_within n (resume_after v g) \<longleftrightarrow> (\<forall>x. v = Returns x \<longrightarrow> ends_within n (g x))"
  by (cases v) simp_all

lemma within_send_steps: "ends_within (length is) (send_steps k fd m b is_conn is sent)"
  by (induction "is" arbitrary: sent) (auto simp: Let_def split: prod.splits sum.splits)

lemma within_windows_loop: "ends_within (length is) (windows_loop_steps W k fd m b is_conn is sent)"
  by (induction "is" arbitrary: sent) (auto simp: Let_def split: prod.splits)

lemma within_fallback: "ends_within (Suc (SendBatchRaw_len b)) (fallback_steps k fd m b)"
  using within_send_steps [of "[0 ..< SendBatchRaw_len b]"]
  by (auto simp: fallback_steps_def Let_def split: prod.splits)

lemma within_sendmmsg: "ends_within (SendBatchRaw_len b + 2) (sendmmsg_steps k fd m b st len)"
  using within_fallback [of b k fd m] by (auto simp: sendmmsg_steps_def Let_def split: prod.splits)

lemma within_imp:
  assumes "native bld \<noteq> MacOS"
  shows "ends_within (SendBatchRaw_len b + 2) (imp_send_steps bld A W k fd m b)"
proof -
  have "ends_within (Suc (SendBatchRaw_len b)) (windows_steps W k fd m b)"
    using within_windows_loop [of "[0 ..< SendBatchRaw_len b]"]
    by (auto simp: windows_steps_def Let_def split: prod.splits)
  then have "ends_within (SendBatchRaw_len b + 2) (windows_steps W k fd m b)" by (rule within_mono) simp
  moreover have "ends_within (SendBatchRaw_len b + 2) (fallback_steps k fd m b)"
    by (rule within_mono [OF within_fallback]) simp
  moreover have "ends_within (SendBatchRaw_len b + 2) (linux_steps k fd m b)"
    using within_sendmmsg by (auto simp: linux_steps_def Let_def simp del: add_2_eq_Suc add_2_eq_Suc')
  ultimately show ?thesis using assms by (cases "native bld") (simp_all add: imp_send_steps_def)
qed

text \<open>A thread with that many turns has ended, whoever runs in between.\<close>

lemma turns_end:
  assumes "ends_within n (rs ! i)" and "i < length rs" and "n \<le> count_list is i"
  shows "\<exists>x. fst (schedule is (rs, w)) ! i = Ends x"
  using assms
proof (induction "is" arbitrary: n rs w)
  case Nil
  then show ?case by (cases "rs ! i") simp_all
next
  case (Cons j js)
  show ?case
  proof (cases "j < length rs")
    case True
    show ?thesis
    proof (cases "rs ! j")
      case (Ends x)
      have "ends_within n (rs ! i) \<Longrightarrow> ends_within (n - 1) (rs ! i)" if "j = i" using Ends that by simp
      with Cons.IH [of n rs w] Cons.IH [of "n - 1" rs w] Cons.prems Ends True show ?thesis
        by (cases "j = i") auto
    next
      case (Step f)
      obtain r w' where fw: "f w = (r, w')" by (metis surj_pair)
      have "ends_within (if j = i then n - 1 else n) (rs[j := r] ! i)"
        using Cons.prems(1,2) Step fw True by (cases n) (auto, metis fst_conv)
      moreover have "(if j = i then n - 1 else n) \<le> count_list js i" using Cons.prems(3) by auto
      ultimately show ?thesis using Cons.IH [of "if j = i then n - 1 else n" "rs[j := r]" w'] Cons.prems(2) Step fw True by simp
    qed
  next
    case False
    with Cons.IH [of n rs w] Cons.prems show ?thesis by (auto split: if_splits)
  qed
qed

section \<open>Properties\<close>


text \<open>Two portable senders that take turns.\<close>

definition portable_build :: build where
  "portable_build = \<lparr>build_os = OtherOS, miri_safe = False, has_tokio = True, has_metrics = True, has_gso = False,
     has_busy_poll = False, has_pacing = False,
     build_rx = \<lparr>feat_gro = False, feat_timestamping = False, feat_pktinfo = False\<rparr>\<rparr>"

lemma portable_native [simp]: "native portable_build = OtherOS"
  by (simp add: native_def portable_build_def)

lemma turns_run:
  "\<exists>w'. schedule [0, 1, 1, 0, 1, 0] (map (imp_send_steps portable_build A W (loopback linux_libc) 3
       (\<lambda>a. Some (of_nat a))) [byte_batch 2, byte_batch 2], idle) =
     ([Ends (Returns (Inr 2)), Ends (Returns (Inr 2))], w') \<and> map tx_data (w_sent w') = [[0], [0], [1], [1]]"
  by (simp add: imp_send_steps_def fallback_steps_def loopback_def idle_def byte_batch_def SendBatchRaw_len_def
      is_connected_def numeral_2_eq_2 SendBatchRaw_entry_def index_or_panic_def slot_slice_def read_mem_def
      raw_send_def loopback_send_def payload_def refuse_def accept_def last_os_error_def linux_libc_def)


text \<open>C8. Threads that receive on the same socket share out what arrives. Whatever the order of their
  system calls, and whatever arrives in between: the threads have taken, together, the datagrams
  of the queue from its head, each exactly once and none out of turn; a thread that has ended
  returned normally with a readable batch, and its user reads exactly the datagrams that thread
  took, in order and cut to its slot size, or \<^verbatim>\<open>Ok(0)\<close> or \<^verbatim>\<open>WouldBlock\<close> when it took none. All four
  backends, on Linux without the \<^verbatim>\<open>gro\<close> feature, on Windows for datagrams that fit the slots.\<close>

theorem concurrent_receivers:
  assumes "native bld = Linux \<longrightarrow> \<not> feat_gro (build_rx bld)"
    and "imp_queue bld A W k rxq" and "imp_rx_ok bld A W k"
    and "\<forall>(n, b) \<in> set rbs. rb_inv n b \<and> RecvBatchRaw_capacity b < 2 ^ 32 \<and> imp_roomy bld n"
    and "(thread_step env)\<^sup>*\<^sup>* (map (\<lambda>(n, b). imp_recv_steps bld A W k fd b) rbs, w) (rs, w')"
    and "\<forall>(n, b) \<in> set rbs. list_all (imp_admits bld n) (rxq w)"
    and "\<forall>w w'. env w w' \<longrightarrow>
      (\<exists>arrivals. rxq w' = rxq w @ arrivals \<and> (\<forall>(n, b) \<in> set rbs. list_all (imp_admits bld n) arrivals))"
  shows "length rs = length rbs \<and> (\<exists>tr arrivals. rxq w @ arrivals = map snd tr @ rxq w' \<and>
     fst ` set tr \<subseteq> {..< length rbs} \<and>
     (\<forall>i < length rbs. length (of_thread i tr) \<le> RecvBatchRaw_capacity (snd (rbs ! i)) \<and>
        (\<forall>x. rs ! i = Ends x \<longrightarrow>
           recv_answers (k_libc k) (fst (rbs ! i)) (RecvBatchRaw_capacity (snd (rbs ! i))) (of_thread i tr) x)))"
  using assms(2-6) by (rule threaded_receiver.all_interleavings [OF imp_receivers [OF assms(1)]]) (use assms(7) in blast)

text \<open>Two portable receivers, one slot each, of different sizes, and two datagrams.\<close>

lemma one_slot_turn:
  assumes "arrived w \<noteq> []"
  shows "\<exists>f b' w'. imp_recv_steps portable_build A W (loopback linux_libc) 3 (RecvBatchRaw_with_capacity 1 n) = Step f \<and>
     f w = (Ends (Returns (Inr 1, b')), w') \<and> arrived w' = tl (arrived w)"
proof -
  let ?k = "loopback linux_libc" and ?b = "RecvBatchRaw_with_capacity 1 n"
  obtain p q where pq: "arrived w = p # q" using assms by (cases "arrived w") auto
  have i: "0 < length (rb_slots ?b)" by (simp add: RecvBatchRaw_with_capacity_def)
  let ?buf = "rs_buf (rb_slots ?b ! 0)"
  obtain r buf' w' where rf: "raw_recvfrom ?k 3 ?buf w = (r, buf', w')" by (metis surj_pair)
  from raw_recvfrom_queue [OF linux_loopback(1) rf] pq
  have "r = Inr (min (length (fst p)) (length ?buf), snd p)" "arrived w' = q" by simp_all
  moreover have "[0 ..< RecvBatchRaw_capacity ?b] = [0]"
    by (simp add: RecvBatchRaw_capacity_def RecvBatchRaw_with_capacity_def)
  ultimately show ?thesis
    using pq rf by (simp add: imp_recv_steps_def fallback_recv_steps_def slot_steps_step [OF i] recvfrom_steps_def
        del: slot_steps.simps(2) One_nat_def)
qed

lemma shared_run:
  "\<exists>ba bb w'. schedule [1, 0] (map (\<lambda>(n, b). imp_recv_steps portable_build A W (loopback linux_libc) 3 b)
       [(4 :: nat, RecvBatchRaw_with_capacity 1 4), (8 :: nat, RecvBatchRaw_with_capacity 1 8)], two_arrived) =
     ([Ends (Returns (Inr 1, ba)), Ends (Returns (Inr 1, bb))], w')"
proof -
  let ?r = "\<lambda>n. imp_recv_steps portable_build A W (loopback linux_libc) 3 (RecvBatchRaw_with_capacity 1 n)"
  have "arrived two_arrived \<noteq> []" using two_arrived by simp
  from one_slot_turn [OF this, of A W 8] obtain f bb w1 where
    f: "?r 8 = Step f" "f two_arrived = (Ends (Returns (Inr 1, bb)), w1)" "arrived w1 = tl (arrived two_arrived)" by blast
  have "arrived w1 \<noteq> []" using f(3) two_arrived(1) by (simp add: two_arrived_def)
  from one_slot_turn [OF this, of A W 4] obtain g ba w2 where
    g: "?r 4 = Step g" "g w1 = (Ends (Returns (Inr 1, ba)), w2)" by blast
  have "schedule [1, 0] ([?r 4, ?r 8], two_arrived) = ([Ends (Returns (Inr 1, ba)), Ends (Returns (Inr 1, bb))], w2)"
    unfolding f(1) g(1) by (simp add: f(2) g(2))
  then show ?thesis unfolding list.map prod.case by blast
qed

theorem concurrent_receivers_witness:
  "\<exists>ba bb w' tr arrivals. schedule [1, 0] (map (\<lambda>(n, b). imp_recv_steps portable_build (loopback_x True linux_libc)
       (loopback_ws True linux_libc) (loopback linux_libc) 3 b)
       [(4 :: nat, RecvBatchRaw_with_capacity 1 4), (8 :: nat, RecvBatchRaw_with_capacity 1 8)], two_arrived) =
     ([Ends (Returns (Inr 1, ba)), Ends (Returns (Inr 1, bb))], w') \<and>
     arrived two_arrived @ arrivals = map snd tr @ arrived w' \<and>
     length (of_thread 0 tr) = 1 \<and> rb_packets ba = map (cut_to 4) (of_thread 0 tr) \<and>
     length (of_thread 1 tr) = 1 \<and> rb_packets bb = map (cut_to 8) (of_thread 1 tr)"
proof -
  let ?A = "loopback_x True linux_libc" and ?W = "loopback_ws True linux_libc" and ?k = "loopback linux_libc"
  let ?rbs = "[(4 :: nat, RecvBatchRaw_with_capacity 1 4), (8 :: nat, RecvBatchRaw_with_capacity 1 8)]"
  let ?s = "(map (\<lambda>(n, b). imp_recv_steps portable_build ?A ?W ?k 3 b) ?rbs, two_arrived)"
  from shared_run [of ?A ?W] obtain ba bb w' where
    r: "schedule [1, 0] ?s = ([Ends (Returns (Inr 1, ba)), Ends (Returns (Inr 1, bb))], w')" by blast
  let ?rs = "[Ends (Returns (Inr 1, ba)), Ends (Returns (Inr 1, bb))] :: (nat io_result \<times> RecvBatchRaw, world) resume list"
  have run: "(thread_step (\<lambda>_ _. False))\<^sup>*\<^sup>* ?s (?rs, w')" unfolding r [symmetric] by (rule schedule_runs)
  have cap: "RecvBatchRaw_capacity (RecvBatchRaw_with_capacity c n) = c" for c n
    by (simp add: RecvBatchRaw_capacity_def RecvBatchRaw_with_capacity_def)
  have h: "imp_queue portable_build ?A ?W ?k arrived" "imp_rx_ok portable_build ?A ?W ?k"
    "\<forall>(n, b) \<in> set ?rbs. rb_inv n b \<and> RecvBatchRaw_capacity b < 2 ^ 32 \<and> imp_roomy portable_build n"
    "\<forall>(n, b) \<in> set ?rbs. list_all (imp_admits portable_build n) (arrived two_arrived)"
    using linux_loopback by (simp_all add: imp_defs list_all_iff cap rb_inv_with_capacity)
  have no_env: "\<forall>w w' :: world. False \<longrightarrow> (\<exists>arrivals. arrived w' = arrived w @ arrivals \<and>
      (\<forall>(n, b) \<in> set ?rbs. list_all (imp_admits portable_build n) arrivals))" by simp
  have "native portable_build = Linux \<longrightarrow> \<not> feat_gro (build_rx portable_build)" by simp
  note c = concurrent_receivers [OF this h(1-3) run h(4) no_env]
  from conjunct2 [OF c] obtain tr arrivals where c1: "arrived two_arrived @ arrivals = map snd tr @ arrived w' \<and>
     fst ` set tr \<subseteq> {..< length ?rbs} \<and>
     (\<forall>i < length ?rbs. length (of_thread i tr) \<le> RecvBatchRaw_capacity (snd (?rbs ! i)) \<and>
        (\<forall>x. ?rs ! i = Ends x \<longrightarrow>
           recv_answers (k_libc ?k) (fst (?rbs ! i)) (RecvBatchRaw_capacity (snd (?rbs ! i))) (of_thread i tr) x))"
    by (elim exE) (rule that)
  note tr = conjunct1 [OF c1] and fin = conjunct2 [OF conjunct2 [OF c1]]
  have "recv_answers (k_libc ?k) 4 (RecvBatchRaw_capacity (snd (?rbs ! 0))) (of_thread 0 tr) (Returns (Inr 1, ba))"
    "recv_answers (k_libc ?k) 8 (RecvBatchRaw_capacity (snd (?rbs ! 1))) (of_thread 1 tr) (Returns (Inr 1, bb))"
    using fin by auto
  with r tr show ?thesis
    by (intro exI [of _ ba] exI [of _ bb] exI [of _ w'] exI [of _ tr] exI [of _ arrivals])
       (auto simp: recv_answers_Returns split: if_splits)
qed

text \<open>C21. No thread can hold up another for ever: whatever the other threads do and whatever the calls
  return, a \<^verbatim>\<open>try_send_batch\<close> of \<open>n\<close> datagrams ends after at most \<open>n + 2\<close> system calls of its own. (On
  macOS \<^verbatim>\<open>retry_eintr\<close> has no such bound.)\<close>

theorem send_ends_in_bounded_calls:
  assumes "native bld \<noteq> MacOS" and "i < length bs" and "SendBatchRaw_len (bs ! i) + 2 \<le> count_list is i"
  shows "\<exists>x. fst (schedule is (map (imp_send_steps bld A W k fd m) bs, w)) ! i = Ends x"
  using within_imp [OF assms(1), of "bs ! i" A W k fd m] assms(2,3)
  by (intro turns_end [of "SendBatchRaw_len (bs ! i) + 2"]) (simp_all del: add_2_eq_Suc')

theorem send_ends_in_bounded_calls_witness:
  "\<exists>x. fst (schedule [0, 1, 0, 1, 0, 0] (map (imp_send_steps portable_build (loopback_x True linux_libc)
     (loopback_ws True linux_libc) (loopback linux_libc) 3 (\<lambda>a. Some (of_nat a))) [byte_batch 2, byte_batch 70], idle)) ! 0 = Ends x"
  by (rule send_ends_in_bounded_calls) (simp_all add: byte_batch_def SendBatchRaw_len_def)

end
