(* ===== verification/Spec2Isabelle.thy ===== *)
theory Spec2Isabelle
  imports Lifetime Unit_Tests Offload Interleavings
begin

text \<open>
  \<^bold>\<open>binger-udp\<close>, a Rust library for batched UDP I/O: a user fills a \<^verbatim>\<open>SendBatch\<close> with borrowed
  buffers and destinations or passes a \<^verbatim>\<open>RecvBatch\<close> with slots, and \<^verbatim>\<open>BingerUdp\<close> moves the whole batch
  with as few system calls as the platform allows. This development models the library
  (\<^verbatim>\<open>src/src\<close>) and proves what its batch calls promise.

  \<^bold>\<open>Parts and theories.\<close>
  \<^item> \<open>Prelude\<close>: bytes and their order in memory, the address space (\<open>memory\<close>, \<open>slice\<close>), and \<open>outcome\<close>, the
    result of code that may return, panic, be undefined or not return.
  \<^item> \<open>Sys\<close>: what is not code of the repository: the C ABI (\<open>libc\<close>), the system calls, the clock and
    Tokio's readiness waits (\<open>kernel\<close>) as parameters, and the contracts under which properties
    hold. Also \<^verbatim>\<open>io::Error\<close> and \<^verbatim>\<open>sys/unix.rs\<close>.
  \<^item> \<open>Sockaddr\<close>: \<^verbatim>\<open>sockaddr/unix.rs\<close>, encoding and decoding of addresses at the byte level for any ABI,
    and the raw calls. \<open>Sockaddr_Windows\<close>: \<^verbatim>\<open>sockaddr/windows_impl.rs\<close> and \<^verbatim>\<open>sys/windows.rs\<close> over WinSock.
  \<^item> \<open>Batch\<close>: \<^verbatim>\<open>batch.rs\<close> and \<^verbatim>\<open>error.rs\<close>, the send and receive batches with their invariants \<open>sb_inv\<close> and
    \<open>rb_inv\<close>. A pushed slice is an address and a length: the batch does not own the bytes.
  \<^item> \<open>Delivery\<close>: the abstract view of sending and receiving. A send batch is a list of datagrams
    compared with the log of what the socket took; a receive takes datagrams off a queue. The
    locales \<open>send_backend\<close>, \<open>prefix_backend\<close>, \<open>recv_backend\<close> and \<open>queue_backend\<close> are what the socket layer needs
    from a platform. It ends with a loopback kernel on which witnesses run.
  \<^item> \<open>Slots\<close>: the loop that receives one datagram per slot, with the locale \<open>slot_source\<close> for a single
    receive; a sublocale makes it a \<open>queue_backend\<close>.
  \<^item> \<open>Fallback\<close>, \<open>Linux_Send\<close>, \<open>Linux_Recv\<close>, \<open>Macos\<close>, \<open>Windows_Io\<close>: the four backends of \<^verbatim>\<open>platform/\<close>,
    each with an \<open>interpretation\<close> of these locales. Linux: \<^verbatim>\<open>sendmmsg\<close> from stack or heap arrays, GSO,
    \<^verbatim>\<open>recvmmsg\<close> with retry after \<^verbatim>\<open>EINTR\<close>, control messages, the splitting of GRO messages, the per-packet
    loops on a kernel without the calls. macOS: \<^verbatim>\<open>sendmsg_x\<close> and \<^verbatim>\<open>recvmsg_x\<close> through \<^verbatim>\<open>dlsym\<close>.
    Windows: \<^verbatim>\<open>WSASendMsg\<close>, and \<^verbatim>\<open>WSARecvMsg\<close> through \<^verbatim>\<open>WSAIoctl\<close>.
  \<^item> \<open>Float64\<close>, \<open>Metrics\<close>, \<open>Adaptive\<close>: IEEE double arithmetic as far as it is used, the counters of
    \<^verbatim>\<open>metrics.rs\<close>, the adaptive batch size of \<^verbatim>\<open>socket.rs\<close>.
  \<^item> \<open>Buffer_Pool\<close>: \<^verbatim>\<open>bufs.rs\<close> over a bounded queue with the laws of \<^verbatim>\<open>ArrayQueue\<close>.
  \<^item> \<open>Socket\<close>: \<^verbatim>\<open>socket.rs\<close> and \<^verbatim>\<open>platform/mod.rs\<close> (\<open>imp\<close> selects the backend of a build): \<^verbatim>\<open>Config\<close>,
    \<^verbatim>\<open>PlatformCaps\<close>, \<^verbatim>\<open>BingerUdp\<close> with every method. \<open>Socket_Runs\<close>: the asynchronous loops as step
    relations, the locales \<open>udp_backend\<close> and \<open>queue_udp\<close>, and their interpretation for each backend and for \<open>imp\<close>.
  \<^item> \<open>Offload\<close>: segmentation on top of the Linux backend: how \<^verbatim>\<open>recvmmsg\<close> with GRO is split into slots, and
    what \<^verbatim>\<open>send_gso\<close> puts on the wire.
  \<^item> \<open>Frame\<close>: whatever relation the system calls of a backend respect, its attempts respect (locale
    \<open>framed_backend\<close>, interpreted for every backend).
  \<^item> \<open>Tasks\<close>: many tasks on one socket. A \<open>future\<close> is a call of \<^verbatim>\<open>send_batch\<close> or \<^verbatim>\<open>recv_batch\<close> at the head of
    its loop or at its \<^verbatim>\<open>await\<close>; \<open>advances\<close> is one poll, or the drop of the future; \<open>runs\<close> is any interleaving
    with the network, with the answers on the way. Locales \<open>shared_udp\<close> and \<open>shared_queue\<close>.
  \<^item> \<open>Threads\<close>: the attempts of every backend one system call at a time, as resumptions (a codatatype, since
    \<^verbatim>\<open>retry_eintr\<close> may go on for ever); run alone they are the attempts of the other theories. \<open>Interleavings\<close>:
    threads that make such attempts on one socket, call by call in any order; the locales
    \<open>observation\<close>, \<open>threaded_sender\<close>, \<open>slot_calls\<close> and \<open>threaded_receiver\<close>, interpreted for every backend.
  \<^item> \<open>Lifetime\<close>: the descriptor from \<^verbatim>\<open>from_std\<close> to \<^verbatim>\<open>Drop\<close>. \<open>Network\<close>: a kernel with several sockets as one of
    them sees it (\<open>view\<close>), and what one socket sends and another receives.
  \<^item> \<open>Examples\<close>: the programs of \<^verbatim>\<open>examples/\<close>. \<open>Unit_Tests\<close>: the unit tests that need no operating system,
    as conjunctions of their assertions, which hold of the model.

  \<^bold>\<open>What is shown.\<close> Per backend: a send hands the socket a prefix of the batch, in order, and reports
  its length, on the batches the code gets right; a receive hands the user the datagrams of the
  queue in order, cut to the slots; invariants of batches are kept. For the codec: round trip,
  well-formed results, agreement of the unix and Windows modules. For the socket, on every
  platform: \<^verbatim>\<open>send_batch\<close> sends nothing twice (C1), \<^verbatim>\<open>recv_from\<close> returns the first datagram, \<^verbatim>\<open>recv_batch\<close>
  never returns an empty batch; on Linux both loops return when the environment makes
  progress. For tasks that share a socket, in every interleaving and with calls dropped at an
  \<^verbatim>\<open>await\<close>: what left the socket is the answered sends one after the other (C5), what arrived is the
  answered receives and the rest of the queue (C6), the counters add up, the descriptor is
  closed once; a task alone behaves as the sequential definitions say. For threads, whose system
  calls interleave within attempts: each sender has sent a prefix of its own batch and reports its
  length (\<open>concurrent_senders\<close>), receivers share out the queue without loss or repetition
  (\<open>concurrent_receivers\<close>), and a send ends after a bounded number of its own calls. From socket to socket,
  on every platform (C4): what \<^verbatim>\<open>send_batch\<close> reports as sent is what \<^verbatim>\<open>recv_batch\<close> hands out, in order; the examples print
  what their comments say, and the loop of \<^verbatim>\<open>select.rs\<close> ends. Where the code does not do what it
  means to, the failing behaviour itself is a theorem: wrong destinations (Linux beyond 64
  entries, macOS), lost GRO messages and a panic, GSO sends that a strict kernel refuses, silent
  loss in \<^verbatim>\<open>send_to\<close> on the portable backend, a batch without slots, dangling slices.

  \<^bold>\<open>Loops and numbers.\<close> The retry loops (\<open>retry_eintr\<close>, \<open>send_batch_loop\<close>, \<open>recv_batch_loop\<close>, \<open>send_gso_loop\<close>)
  and the loop of \<^verbatim>\<open>select.rs\<close> are partial functions in the option monad, \<open>None\<close> being a loop that never
  ends; no fuel is used. Loops over indices are recursions over the list of indices. \<^verbatim>\<open>u8\<close> to \<^verbatim>\<open>u64\<close> are
  words where they can wrap (ports, lengths in headers, counters, \<^verbatim>\<open>as\<close> casts), \<^verbatim>\<open>usize\<close> is \<open>nat\<close>.

  \<^bold>\<open>Assumptions.\<close> Properties name the contracts they need: \<open>libc_ok\<close> and \<open>errno_ok\<close> (the ABI),
  \<open>count_contract\<close>, \<open>log_contract\<close>, \<open>recv_contract\<close>, \<open>queue_contract\<close> (POSIX calls), \<open>macos_log\<close>,
  \<open>macos_queue\<close> and their parts, \<open>winsock_log\<close>, \<open>winsock_queue\<close>, \<open>winsock_rx_ok\<close>, \<open>gso_contract\<close>,
  \<open>quiet_contract\<close> (waiting sends nothing), \<open>ready_contract\<close> and \<open>drain_contract\<close> (progress),
  \<open>imp_tx_frame\<close>, \<open>imp_rx_frame\<close>, \<open>idle_frame\<close> (what calls, waits and the network leave alone),
  \<open>life_contract\<close> (only \<^verbatim>\<open>close\<close> closes). Every one of them holds of a concrete system on which a witness
  runs.

  \<^bold>\<open>Not modelled.\<close> \<open>Tasks\<close> interleaves whole attempts, as on a current-thread runtime; \<open>Threads\<close> interleaves
  the system calls of attempts, but not the updates of the counters and of the adaptive state around
  them (the counters and the pool have interleavings of their own). A panic ends a run. \<^verbatim>\<open>Debug\<close> and
  \<^verbatim>\<open>Display\<close> texts; module declarations (\<^verbatim>\<open>lib.rs\<close>, \<^verbatim>\<open>sockaddr/mod.rs\<close>, \<^verbatim>\<open>sys/mod.rs\<close>); integration tests, the
  unit tests that need sockets or threads, and benchmarks, which run against an operating system.
\<close>

section \<open>Sending through the socket\<close>


text \<open>A socket of a build with Tokio, and a loopback that has to be waited for.\<close>

definition plain_build :: build where
  "plain_build = \<lparr>build_os = Linux, miri_safe = False, has_tokio = True, has_metrics = True, has_gso = False,
     has_busy_poll = False, has_pacing = False,
     build_rx = \<lparr>feat_gro = False, feat_timestamping = False, feat_pktinfo = False\<rparr>\<rparr>"

definition plain_socket :: BingerUdp where
  "plain_socket = \<lparr>udp_fd = 3, udp_metrics = Some BingerMetrics_default, adaptive_send = None, adaptive_recv = None\<rparr>"

definition congested :: world where
  "congested = idle\<lparr>w_budget := 0\<rparr>"

abbreviation byte_mem :: memory where
  "byte_mem \<equiv> \<lambda>a. Some (of_nat a)"

text \<open>The systems of the other platforms, which \<open>plain_build\<close> does not use.\<close>

abbreviation plain_imp :: "world backend" where
  "plain_imp \<equiv> imp plain_build (loopback_x True macos_libc) (loopback_ws True windows_libc)"

lemma plain_native: "native plain_build = Linux"
  by (simp add: native_def plain_build_def)

lemma plain_imp: "plain_imp = linux_backend (build_rx plain_build)"
  by (simp add: imp_def plain_native)

lemma loopback_linux_send:
  assumes "0 < n" and "n \<le> 64" and "w_mmsg w" and "w_refusal w = EAGAIN linux_libc"
  shows "linux_try_send_batch (loopback linux_libc) fd byte_mem (byte_batch n) w =
     (if w_budget w = 0 then Returns (Inl (Os (EAGAIN linux_libc)), w\<lparr>w_errno := EAGAIN linux_libc\<rparr>)
      else Returns (Inr (min (w_budget w) n),
        accept (take (min (w_budget w) n) (datagrams linux_libc byte_mem (byte_batch n))) w))"
proof -
  let ?b = "byte_batch n"
  have l: "sb_len ?b = n" by (simp add: byte_batch_def)
  have d: "length (datagrams linux_libc byte_mem ?b) = n"
    using length_datagrams [OF byte_batch_ok(1) [of n]] l by simp
  have v: "unat (of_nat n :: u32) = n" using assms(2) by (simp add: unat_of_nat_u32)
  have c: "k_libc (loopback linux_libc) = linux_libc" "k_errno (loopback linux_libc) = w_errno"
    "k_sendmmsg (loopback linux_libc) = (\<lambda>_ msgs vlen w. loopback_sendmmsg linux_libc msgs vlen w)"
    by (simp_all add: loopback_def)
  have e: "ENOSYS linux_libc \<noteq> EAGAIN linux_libc" by (simp add: linux_libc_def)
  have "linux_try_send_batch (loopback linux_libc) fd byte_mem ?b w =
     (let (sent, w') = loopback_sendmmsg linux_libc (datagrams linux_libc byte_mem ?b) (of_nat n) w in
      if 0 \<le> sent then Returns (Inr (nat sent), w')
      else let err = last_os_error (loopback linux_libc) w' in
        if raw_os_error err = Some (ENOSYS linux_libc) then linux_fallback_send (loopback linux_libc) fd byte_mem ?b w'
        else Returns (Inl err, w'))"
    using linux_send_call [OF byte_batch_ok, of n "loopback linux_libc" fd w, unfolded c l] assms(1,2)
    by (simp add: MAX_STACK_def)
  then show ?thesis
    using assms d v e
    by (auto simp: loopback_sendmmsg_def refuse_def last_os_error_def c Let_def)
qed



text \<open>A kernel that runs out of buffer space only as long as \<open>w_clock\<close> is positive; every refusal
  counts it down.\<close>

definition busy_kernel :: "world kernel" where
  "busy_kernel = (loopback linux_libc)\<lparr>k_sendmmsg := \<lambda>_ msgs vlen w.
     if 0 < w_clock w then refuse (EAGAIN linux_libc) (w\<lparr>w_clock := w_clock w - 1\<rparr>)
     else (int (min (length msgs) (unat vlen)), accept (take (min (length msgs) (unat vlen)) msgs) w)\<rparr>"

lemma busy_kernel_ok:
  "log_contract busy_kernel w_sent" "quiet_contract busy_kernel w_sent" "drain_contract busy_kernel w_clock"
proof -
  have "n \<le> uint vlen \<and> w_sent w' = w_sent w @ take (nat n) msgs"
    if "k_sendmmsg busy_kernel fd msgs vlen w = (n, w')" for fd msgs vlen w n w'
    using that by (auto simp: busy_kernel_def refuse_def accept_def intro!: int_le_uint split: if_splits)
  moreover have sel: "k_sendto busy_kernel = k_sendto (loopback linux_libc)" "k_send busy_kernel = k_send (loopback linux_libc)"
    "k_getpeername busy_kernel = k_getpeername (loopback linux_libc)"
    by (simp_all add: busy_kernel_def)
  ultimately show "log_contract busy_kernel w_sent"
    using loopback_log [of linux_libc] unfolding log_contract_def sel by blast
  show "quiet_contract busy_kernel w_sent" "drain_contract busy_kernel w_clock"
    by (simp_all add: quiet_contract_def drain_contract_def busy_kernel_def loopback_def)
qed


text \<open>\<^verbatim>\<open>send_batch\<close> may return \<^verbatim>\<open>Ok\<close> with fewer packets than the batch has, where the documentation
  promises all of them: it retries a call that sent nothing, not one that sent a part. On a
  socket with room for one datagram, a batch of two returns \<^verbatim>\<open>Ok(1)\<close>.\<close>

lemma send_batch_may_be_partial:
  "\<exists>u' w'. send_batch (linux_backend f) bld (loopback linux_libc) byte_mem u (byte_batch 2) (idle\<lparr>w_budget := 1\<rparr>) =
       Returns (Inr 1, u', w') \<and> length (w_sent w') = 1"
proof -
  let ?w = "idle\<lparr>w_budget := 1\<rparr>"
  have d: "length (datagrams linux_libc byte_mem (byte_batch 2)) = 2"
    using length_datagrams [OF byte_batch_ok(1) [of 2]] by (simp add: byte_batch_def)
  have "linux_try_send_batch (loopback linux_libc) (udp_fd u) byte_mem (byte_batch 2) ?w =
      Returns (Inr 1, accept (take 1 (datagrams linux_libc byte_mem (byte_batch 2))) ?w)"
    by (subst loopback_linux_send) (simp_all add: idle_def linux_libc_def)
  moreover have "length (w_sent (accept (take 1 (datagrams linux_libc byte_mem (byte_batch 2))) ?w)) = 1"
    by (simp add: accept_def idle_def d)
  ultimately obtain w' where "linux_try_send_batch (loopback linux_libc) (udp_fd u) byte_mem (byte_batch 2) ?w =
      Returns (Inr 1, w')" and l: "length (w_sent w') = 1" by blast
  then have "be_try_send (linux_backend f) (loopback linux_libc) (udp_fd u) byte_mem (byte_batch 2) ?w =
      Returns (Inr 1, w')" by (simp add: linux_backend_def)
  from try_send_batch_run [OF this] obtain u' where
    "try_send_batch (linux_backend f) (loopback linux_libc) byte_mem u (byte_batch 2) ?w = Returns (Inr 1, u', w')" ..
  then have "send_batch (linux_backend f) bld (loopback linux_libc) byte_mem u (byte_batch 2) ?w =
      Returns (Inr 1, u', w')"
    by (simp add: send_batch_def send_batch_loop.simps)
  with l show ?thesis by blast
qed

text \<open>C35. On a platform with the portable backend, \<^verbatim>\<open>send_to\<close> reports the whole packet as sent when
  the socket's buffer is full and nothing was sent: the loop turns \<^verbatim>\<open>WouldBlock\<close> into \<^verbatim>\<open>Ok(0)\<close>,
  which \<^verbatim>\<open>send_batch\<close> does not retry and \<^verbatim>\<open>send_to\<close> replaces by the length of the buffer.\<close>

theorem fallback_send_to_silent_loss:
  assumes "log_contract k txlog" and "1 \<le> vec_alloc 1" and "read_mem m buf = Some bs"
    and "is_connected k (udp_fd u) w = (False, w1)"
    and "raw_sendto k (udp_fd u) bs addr w1 = (Inl e, w2)" and "kind (k_libc k) e = WouldBlock"
  shows "\<exists>u'. send_to fallback_backend bld k vec_alloc m u buf addr w = Returns (Inr (slice_len buf), u', w2) \<and>
     txlog w2 = txlog w"
proof -
  let ?b = "\<lparr>sb_slots = [\<lparr>data_ptr = slice_ptr buf, data_len = slice_len buf, slot_addr = Some addr\<rparr>],
    sb_cap = vec_alloc 1, sb_len = 1\<rparr>"
  have e: "SendBatchRaw_entry m ?b 0 = Returns (buf, Some addr)"
    using entry_Returns [of ?b 0 m bs] assms(2,3)
    by (cases buf) (simp add: sb_inv_def sb_entries_def slot_slice_def)
  have "fallback_try_send_batch k (udp_fd u) m ?b w = Returns (Inr 0, w2)"
    using e assms(3-6) by (simp add: fallback_try_send_batch_def SendBatchRaw_len_def payload_def)
  from try_send_batch_run [of fallback_backend, unfolded fallback_backend_def backend.simps, OF this]
  obtain u' where "try_send_batch fallback_backend k m u ?b w = Returns (Inr 0, u', w2)"
    unfolding fallback_backend_def ..
  then have "send_to fallback_backend bld k vec_alloc m u buf addr w = Returns (Inr (slice_len buf), u', w2)"
    using assms(2)
    by (simp add: send_to_def one_packet_Returns send_batch_def send_batch_loop.simps sent_all_def)
  moreover have "txlog w2 = txlog w"
    using send_one_log [OF assms(1), where is_conn = False and addr = "Some addr" and fd = "udp_fd u" and bs = bs
        and w = w1 and r = "Inl e" and w' = w2] assms(5) is_connected_quiet [OF assms(1,4)]
    by simp
  ultimately show ?thesis by blast
qed

theorem fallback_send_to_silent_loss_witness:
  "\<exists>u' w'. send_to fallback_backend plain_build (loopback linux_libc) id byte_mem plain_socket
       \<lparr>slice_ptr = 7, slice_len = 3\<rparr> (V4 (Ipv4Addr 127 0 0 1) 9000) congested = Returns (Inr 3, u', w') \<and>
     w_sent w' = []"
proof -
  have "is_connected (loopback linux_libc) (udp_fd plain_socket) congested = (False, congested)"
    by (simp add: is_connected_def loopback_def congested_def idle_def)
  moreover have "raw_sendto (loopback linux_libc) (udp_fd plain_socket) [7, 8, 9] (V4 (Ipv4Addr 127 0 0 1) 9000) congested =
      (Inl (Os 11), congested\<lparr>w_errno := 11\<rparr>)"
    by (simp add: raw_sendto_def loopback_def loopback_send_def refuse_def congested_def idle_def last_os_error_def
        split: prod.splits)
  moreover have "kind (k_libc (loopback linux_libc)) (Os 11) = WouldBlock"
    by (simp add: loopback_def linux_libc_def)
  moreover have "read_mem byte_mem \<lparr>slice_ptr = 7, slice_len = 3\<rparr> = Some [7, 8, 9]"
    by (simp add: read_mem_def upt_rec)
  ultimately show ?thesis
    using fallback_send_to_silent_loss [OF loopback_log, of id byte_mem "\<lparr>slice_ptr = 7, slice_len = 3\<rparr>" "[7, 8, 9]"
        linux_libc plain_socket congested congested "V4 (Ipv4Addr 127 0 0 1) 9000" "Os 11"
        "congested\<lparr>w_errno := 11\<rparr>" plain_build]
    by (auto simp: congested_def idle_def)
qed

text \<open>The counters of a successful \<^verbatim>\<open>try_send_batch\<close> are true on Linux: \<^verbatim>\<open>packets_sent\<close> grows by
  the number of datagrams that left the socket (modulo \<open>2 ^ 64\<close>), batches and system calls by
  one, nothing else changes.\<close>

lemma try_send_counts_what_was_sent:
  assumes "log_contract k txlog" and "sb_inv b" and "sb_readable m b" and "sb_len b \<le> MAX_STACK \<or> dests_first b"
    and "udp_metrics u = Some mt" and "try_send_batch (linux_backend f) k m u b w = Returns (Inr n, u', w')"
  shows "length (txlog w') = length (txlog w) + n \<and>
     metrics u' = Some (mt\<lparr>c_packets_sent := c_packets_sent mt + of_nat n,
       c_batches_sent := c_batches_sent mt + 1, c_send_syscalls := c_send_syscalls mt + 1\<rparr>)"
proof -
  from try_send_batch_Returns(1) [OF assms(6)] have "linux_try_send_batch k (udp_fd u) m b w = Returns (Inr n, w')"
    by (simp add: linux_backend_def)
  from linux_prefix.prefix_result [OF assms(1-4) this] length_datagrams [OF assms(2), of "k_libc k" m]
  have "length (txlog w') = length (txlog w) + n" by (auto simp: SendBatchRaw_len_def)
  moreover from assms(5,6) have "metrics u' = Some (inc_send_syscalls (inc_batches_sent (inc_packets_sent (of_nat n) mt)))"
    by (auto simp: try_send_batch_def metrics_def on_metrics_def Let_def elim!: outcome_bind_ReturnsE
        split: sum.split_asm)
  ultimately show ?thesis by (simp add: inc_send_syscalls_def inc_batches_sent_def inc_packets_sent_def)
qed

section \<open>Receiving through the socket\<close>

text \<open>C9. \<^verbatim>\<open>recv_from\<close> hands over the first datagram of the queue, on every platform: if at the call,
  or after some waits, a datagram is at the head of the queue, the call returns its source,
  its length cut to the buffer, and its bytes at the start of the buffer, the rest of which
  keeps its content; the rest of the queue stays. (On Linux without the feature \<^verbatim>\<open>gro\<close>; on
  Windows the datagram has to fit.)\<close>

theorem recv_from_first_datagram:
  assumes "native bld = Linux \<longrightarrow> \<not> feat_gro (build_rx bld)"
    and "imp_queue bld A W k rxq" and "imp_rx_ok bld A W k"
    and "(recv_waits (imp bld A W) bld k)\<^sup>*\<^sup>* (u, RecvBatchRaw_with_capacity 1 (length buf), w) (u1, b1, w1)"
    and "rxq w1 = p # q" and "imp_roomy bld (length buf)" and "imp_admits bld (length buf) p"
  shows "\<exists>u' w'. recv_from (imp bld A W) bld k u buf w =
       Returns (Inr (min (length (fst p)) (length buf), snd p), deposit buf (fst p), u', w') \<and> rxq w' = q"
  by (rule queue_udp.recv_from_delivers [OF imp_queue_udp [OF assms(1)] assms(2-7)])

lemma plain_conditions:
  "native plain_build = Linux \<longrightarrow> \<not> feat_gro (build_rx plain_build)" "imp_roomy plain_build n" "imp_admits plain_build n p"
  "imp_queue plain_build A W = queue_contract" "imp_rx_ok plain_build A W = recv_contract"
  by (simp_all add: plain_build_def imp_roomy_def imp_admits_def imp_queue_def imp_rx_ok_def native_def)

theorem recv_from_first_datagram_witness:
  "\<exists>u' w'. recv_from plain_imp plain_build (loopback linux_libc) plain_socket [0, 0, 0, 0] two_arrived =
     Returns (Inr (2, V4 (Ipv4Addr 127 0 0 1) 9000), [104, 105, 0, 0], u', w') \<and>
     arrived w' = [([1, 2, 3, 4, 5, 6], V4 (Ipv4Addr 10 0 0 1) 53)]"
proof -
  have q: "arrived two_arrived =
      ([104, 105], V4 (Ipv4Addr 127 0 0 1) 9000) # [([1, 2, 3, 4, 5, 6], V4 (Ipv4Addr 10 0 0 1) 53)]"
    using two_arrived(1) by (simp add: two_arrived_def)
  have d: "deposit [0, 0, 0, 0] [104, 105] = [104, 105, 0, 0]"
    by (simp add: deposit_def put_bytes_def)
  show ?thesis
    using recv_from_first_datagram [where bld = plain_build and k = "loopback linux_libc" and rxq = arrived
        and A = "loopback_x True macos_libc" and W = "loopback_ws True windows_libc" and w = two_arrived
        and buf = "[0, 0, 0, 0]", OF plain_conditions(1) _ _ rtranclp.rtrancl_refl q, of plain_socket] linux_loopback
    by (simp add: plain_conditions d numeral_2_eq_2)
qed

text \<open>C11. When \<^verbatim>\<open>recv_batch\<close> returns \<^verbatim>\<open>Ok(l)\<close>, whatever the platform and the features and however often it
  waited, \<^verbatim>\<open>l\<close> is at least 1 and at most the number of slots, the batch holds exactly \<^verbatim>\<open>l\<close> packets,
  and it satisfies the invariant under which reading it cannot panic.\<close>

theorem recv_batch_ok_nonempty:
  assumes "imp_rx_ok bld A W k" and "rb_inv n b"
    and "recv_batch (imp bld A W) bld k u b w = Returns (Inr l, u', b', w')"
  shows "0 < l \<and> l \<le> RecvBatchRaw_capacity b \<and> RecvBatchRaw_len b' = l \<and> rb_inv n b' \<and>
     RecvBatchRaw_capacity b' = RecvBatchRaw_capacity b"
  using assms by (rule imp_udp.recv_batch_ok)

theorem recv_batch_ok_nonempty_witness:
  "\<exists>u' b' w'. recv_batch plain_imp plain_build (loopback linux_libc) plain_socket
       (RecvBatchRaw_with_capacity 8 4) two_arrived = Returns (Inr 2, u', b', w') \<and>
     RecvBatchRaw_len b' = 2 \<and> rb_inv 4 b'"
proof -
  have c: "RecvBatchRaw_capacity (RecvBatchRaw_with_capacity 8 4) = 8" "length (arrived two_arrived) = 2"
    "arrived two_arrived \<noteq> []"
    unfolding two_arrived
    by (simp_all add: RecvBatchRaw_capacity_def RecvBatchRaw_with_capacity_def two_arrived_def)
  have "list_all (imp_admits plain_build 4) ps" for ps by (simp add: list_all_iff plain_conditions)
  from queue_udp.recv_batch_delivers [where k = "loopback linux_libc" and rxq = arrived and w = two_arrived
      and bld = plain_build and u = plain_socket, OF imp_queue_udp [OF plain_conditions(1), where
        A = "loopback_x True macos_libc" and W = "loopback_ws True windows_libc"] _ _ rb_inv_with_capacity _ _
      rtranclp.rtrancl_refl c(3) plain_conditions(2) this, of 8] linux_loopback c(1,2)
  obtain u' b' w' where r: "recv_batch plain_imp plain_build (loopback linux_libc) plain_socket
       (RecvBatchRaw_with_capacity 8 4) two_arrived = Returns (Inr 2, u', b', w')" by (auto simp: plain_conditions)
  from recv_batch_ok_nonempty [OF _ rb_inv_with_capacity r] loopback_recv r
  show ?thesis by (auto simp: plain_conditions)
qed

text \<open>C16. \<^verbatim>\<open>recv_batch\<close> on Linux without \<^verbatim>\<open>gro\<close> returns: if Tokio's \<^verbatim>\<open>readable()\<close> wakes the task only
  finitely often without a datagram in the queue, then however the batch call is timed it comes
  back with at least one packet, in a batch that has a slot.\<close>

theorem recv_batch_completes:
  assumes "native bld = Linux" and "\<not> feat_gro (build_rx bld)" and "has_tokio bld"
    and "queue_contract k rxq" and "recv_contract k" and "ready_contract k rxq wakes"
    and "\<forall>fd ms vlen w l ms' w'. k_recvmmsg k fd ms vlen w = (l, ms', w') \<longrightarrow> wakes w' \<le> wakes w"
    and "rb_inv n b" and "RecvBatchRaw_capacity b < 2 ^ 32" and "0 < RecvBatchRaw_capacity b"
  shows "\<exists>l u' b' w'. recv_batch (imp bld A W) bld k u b w = Returns (Inr l, u', b', w') \<and> 0 < l"
proof -
  have be: "imp bld A W = linux_backend (build_rx bld)" using assms(1) by (simp add: imp_def)
  note q = imp_queue_udp [of bld A W]
  have c: "native bld = Linux \<longrightarrow> \<not> feat_gro (build_rx bld)" "imp_queue bld A W k rxq" "imp_rx_ok bld A W k"
    "imp_roomy bld n" and adm: "list_all (imp_admits bld n) ps" for ps
    using assms by (simp_all add: imp_defs list_all_iff)
  have "wakes w' \<le> wakes w" if "RecvBatchRaw_capacity b < 2 ^ 32" "0 < RecvBatchRaw_capacity b" "rxq w = []"
      "be_try_recv (imp bld A W) k fd b w = Returns (r, b', w')" for fd b w r b' w'
    using linux_recv_starved [OF assms(4) that(1-3), of "build_rx bld" fd] that(4) assms(7)
    by (auto simp: be linux_backend_def)
  then have "\<exists>u1 b1 w1. (recv_waits (imp bld A W) bld k)\<^sup>*\<^sup>* (u, b, w) (u1, b1, w1) \<and> rxq w1 \<noteq> []"
    by (intro queue_udp.recv_waits_until_ready [OF q [OF c(1)] c(2,3) assms(6,3,8-10) c(4)])
  then obtain u1 b1 w1 where s: "(recv_waits (imp bld A W) bld k)\<^sup>*\<^sup>* (u, b, w) (u1, b1, w1)" "rxq w1 \<noteq> []" by blast
  from queue_udp.recv_batch_delivers [OF q [OF c(1)] c(2,3) assms(8-10) s c(4) adm] assms(10) s(2)
  show ?thesis by (metis length_greater_0_conv min_less_iff_conj)
qed

text \<open>A kernel whose \<^verbatim>\<open>readable()\<close> wakes the task \<open>w_clock\<close> times for nothing, before a datagram arrives.\<close>

definition slow_kernel :: "world kernel" where
  "slow_kernel = (loopback linux_libc)\<lparr>k_readable := \<lambda>_ w. (Inr (),
     if w_clock w = 0 then w\<lparr>w_queue := [([42], V4 (Ipv4Addr 127 0 0 1) 9000)]\<rparr> else w\<lparr>w_clock := w_clock w - 1\<rparr>)\<rparr>"

lemma slow_kernel_ok:
  "queue_contract slow_kernel arrived" "recv_contract slow_kernel" "ready_contract slow_kernel arrived w_clock"
proof -
  have sel: "k_libc slow_kernel = k_libc (loopback linux_libc)" "k_errno slow_kernel = k_errno (loopback linux_libc)"
    "k_recvfrom slow_kernel = k_recvfrom (loopback linux_libc)" "k_recvmmsg slow_kernel = k_recvmmsg (loopback linux_libc)"
    by (simp_all add: slow_kernel_def)
  show "queue_contract slow_kernel arrived"
    using linux_loopback(1) unfolding queue_contract_def sel .
  show "recv_contract slow_kernel"
    using linux_loopback(2) unfolding recv_contract_def sel .
  show "ready_contract slow_kernel arrived w_clock"
    by (simp add: ready_contract_def slow_kernel_def arrived_def loopback_def)
qed

theorem recv_batch_completes_witness:
  "\<exists>l u' b' w'. recv_batch plain_imp plain_build slow_kernel plain_socket (RecvBatchRaw_with_capacity 8 4)
       (idle\<lparr>w_clock := 5\<rparr>) = Returns (Inr l, u', b', w') \<and> 0 < l"
proof (rule recv_batch_completes [OF plain_native _ _ slow_kernel_ok _ rb_inv_with_capacity])
  show "\<not> feat_gro (build_rx plain_build)" "has_tokio plain_build" by (simp_all add: plain_build_def)
  show "\<forall>fd ms vlen w l ms' w'. k_recvmmsg slow_kernel fd ms vlen w = (l, ms', w') \<longrightarrow> w_clock w' \<le> w_clock w"
    by (auto simp: slow_kernel_def loopback_def loopback_recvmmsg_def Let_def split: if_splits)
qed (simp_all add: RecvBatchRaw_capacity_def RecvBatchRaw_with_capacity_def)

text \<open>C40. \<^verbatim>\<open>recv_batch\<close> never returns on a batch without slots (\<^verbatim>\<open>RecvBatch<0>\<close>), on any platform: every
  attempt comes back with 0 packets and is repeated after a wait, as long as the waits succeed.\<close>

theorem recv_batch_no_slots_diverges:
  assumes "RecvBatchRaw_capacity b = 0" and "has_tokio bld" and "\<forall>fd w. fst (k_readable k fd w) = Inr ()"
  shows "recv_batch (imp bld A W) bld k u b w = Diverges"
  using assms by (rule imp_udp.recv_batch_no_room)

theorem recv_batch_no_slots_diverges_witness:
  "recv_batch plain_imp plain_build (loopback linux_libc) plain_socket
     (RecvBatchRaw_with_capacity 0 1500) two_arrived = Diverges"
  by (rule recv_batch_no_slots_diverges)
     (simp_all add: RecvBatchRaw_capacity_def RecvBatchRaw_with_capacity_def plain_build_def loopback_def)

section \<open>The life of a socket\<close>

text \<open>C29. From its creation on, through any sequence of calls, a socket keeps the descriptor it was
  made from, and \<^verbatim>\<open>recommended_batch_size\<close> stays between 1 and 1024. Without adaptive batching
  it is 32, whatever \<^verbatim>\<open>batch_size\<close> the configuration asked for.\<close>

theorem recommended_batch_size_in_range:
  assumes "from_std k bld socket config w = (Inr u, w')" and "(udp_call be bld k)\<^sup>*\<^sup>* u u'"
  shows "as_raw_fd u' = socket \<and> 1 \<le> recommended_batch_size u' \<and> recommended_batch_size u' \<le> 1024 \<and>
     (adaptive_batching config \<or> recommended_batch_size u' = 32)"
  using from_std_ok [OF assms(1)] udp_calls_keep [OF assms(2)]
  by (auto simp: udp_keeps_def mutex_ok_def recommended_batch_size_def as_raw_fd_def target_ok_def
      recommended_size_def MIN_BATCH_def MAX_BATCH_def split: option.splits)

theorem recommended_batch_size_in_range_witness:
  "case from_std (loopback linux_libc) plain_build 3 (with_batch_size 5000 Config_new) idle of
     (Inr u, w') \<Rightarrow> as_raw_fd u = 3 \<and> recommended_batch_size u = 32
   | _ \<Rightarrow> False"
proof -
  let ?c = "with_batch_size 5000 Config_new"
  have "\<exists>u w'. from_std (loopback linux_libc) plain_build 3 ?c idle = (Inr u, w')"
    by (simp add: from_std_def loopback_def set_buf_size_def adaptive_new_def with_batch_size_def Config_new_def
        Config_default_def)
  then obtain u w' where u: "from_std (loopback linux_libc) plain_build 3 ?c idle = (Inr u, w')" by blast
  have "\<not> adaptive_batching ?c" by (simp add: with_batch_size_def Config_new_def Config_default_def)
  with recommended_batch_size_in_range [OF u rtranclp.rtrancl_refl] u
  show ?thesis by simp
qed

section \<open>Tasks that share a socket\<close>

text \<open>Steps of tasks on the loopback.\<close>

lemma loopback_send_parks:
  assumes "0 < n" and "n \<le> 64" and "adaptive_send u = None" and "w_budget w = 0" and "w_mmsg w"
    and "w_refusal w = EAGAIN linux_libc"
  shows "\<exists>u'. advances plain_imp plain_build (loopback linux_libc) byte_mem (Sending (byte_batch n), u, w)
     (SendParked (byte_batch n), u', w\<lparr>w_errno := EAGAIN linux_libc\<rparr>) \<and> adaptive_send u' = None"
proof -
  have "be_try_send plain_imp (loopback linux_libc) (udp_fd u) byte_mem (byte_batch n) w =
      Returns (Inl (Os (EAGAIN linux_libc)), w\<lparr>w_errno := EAGAIN linux_libc\<rparr>)"
    using loopback_linux_send [OF assms(1,2,5,6)] assms(4) by (simp add: plain_imp linux_backend_def)
  from try_send_batch_run [OF this] obtain u1 where
    t: "try_send_batch plain_imp (loopback linux_libc) byte_mem u (byte_batch n) w =
      Returns (Inl (Os (EAGAIN linux_libc)), u1, w\<lparr>w_errno := EAGAIN linux_libc\<rparr>)" ..
  have "adaptive_send u1 = None" using try_send_batch_keeps [OF t] assms(3) by (simp add: udp_keeps_def)
  moreover have "would_block (k_libc (loopback linux_libc)) (Inl (Os (EAGAIN linux_libc)) :: nat io_result)"
    by (simp add: loopback_sel linux_libc_def)
  moreover have "note_blocked (loopback linux_libc) (adaptive_send u1) (w\<lparr>w_errno := EAGAIN linux_libc\<rparr>) =
      (None, w\<lparr>w_errno := EAGAIN linux_libc\<rparr>)" using calculation(1) by (simp add: note_blocked_def)
  ultimately show ?thesis
    by (intro exI [of _ "u1\<lparr>adaptive_send := None\<rparr>"] conjI advances.send_park [OF t]) simp_all
qed

lemma loopback_send_answers:
  assumes "0 < n" and "n \<le> 64" and "n \<le> w_budget w" and "w_mmsg w" and "w_refusal w = EAGAIN linux_libc"
  shows "\<exists>u' w'. advances plain_imp plain_build (loopback linux_libc) byte_mem (Sending (byte_batch n), u, w)
     (SendDone (Inr n), u', w')"
proof -
  have "\<exists>w'. be_try_send plain_imp (loopback linux_libc) (udp_fd u) byte_mem (byte_batch n) w = Returns (Inr n, w')"
    using loopback_linux_send [OF assms(1,2,4,5)] assms(1,3) by (simp add: plain_imp linux_backend_def min_absorb2)
  then obtain w' where "be_try_send plain_imp (loopback linux_libc) (udp_fd u) byte_mem (byte_batch n) w = Returns (Inr n, w')" ..
  from try_send_batch_run [OF this] obtain u' where
    "try_send_batch plain_imp (loopback linux_libc) byte_mem u (byte_batch n) w = Returns (Inr n, u', w')" ..
  from advances.send_answer [OF this] show ?thesis by auto
qed

lemma loopback_recv_answers:
  assumes "rb_inv n rb" and "RecvBatchRaw_capacity rb < 2 ^ 32" and "0 < RecvBatchRaw_capacity rb" and "arrived w \<noteq> []"
  shows "\<exists>u' rb' w'. advances plain_imp plain_build (loopback linux_libc) m (Receiving rb, u, w)
     (RecvDone (Inr (min (RecvBatchRaw_capacity rb) (length (arrived w)))) rb', u', w') \<and>
     arrived w' = drop (RecvBatchRaw_capacity rb) (arrived w)"
proof -
  let ?l = "min (RecvBatchRaw_capacity rb) (length (arrived w))"
  have adm: "list_all (imp_admits plain_build n) ps" for ps by (simp add: list_all_iff plain_conditions)
  obtain rb' w' where
    r: "be_try_recv plain_imp (loopback linux_libc) (udp_fd u) rb w = Returns (Inr ?l, rb', w')"
      "arrived w' = drop (RecvBatchRaw_capacity rb) (arrived w)"
    using queue_backend.delivers [where rxq = arrived, OF queue_udp.axioms(2) [OF imp_queue_udp [OF plain_conditions(1), where
        A = "loopback_x True macos_libc" and W = "loopback_ws True windows_libc"]] _ _ assms(1-4) plain_conditions(2) adm,
        of "loopback linux_libc" "udp_fd u"] linux_loopback by (auto simp: plain_conditions)
  from try_recv_batch_run [OF r(1)] obtain u' where
    "try_recv_batch plain_imp (loopback linux_libc) u rb w = Returns (Inr ?l, u', rb', w')" ..
  moreover have "\<not> recv_blocked (k_libc (loopback linux_libc)) (Inr ?l)" using assms(3,4) by (simp add: recv_blocked_def)
  ultimately show ?thesis
    using r(2) by (intro exI [of _ u'] exI [of _ rb'] exI [of _ w'] conjI advances.recv_answer)
qed

text \<open>Two senders find the socket full; one is woken and sends, the other gives up.\<close>

lemma two_senders_run:
  "\<exists>u' w'. runs plain_imp plain_build (loopback linux_libc) byte_mem (\<lambda>_ _. False)
     ([Sending (byte_batch 1), Sending (byte_batch 2)], plain_socket, congested)
     [Sent 1 (byte_batch 2) (Inr 2)] ([Dropped, SendDone (Inr 2)], u', w')"
proof -
  let ?R = "runs plain_imp plain_build (loopback linux_libc) byte_mem (\<lambda>_ _. False)
    ([Sending (byte_batch 1), Sending (byte_batch 2)], plain_socket, congested)"
  have c: "w_budget congested = 0" "w_mmsg congested" "w_refusal congested = EAGAIN linux_libc" "adaptive_send plain_socket = None"
    by (simp_all add: congested_def idle_def plain_socket_def linux_libc_def)
  let ?e = "congested\<lparr>w_errno := EAGAIN linux_libc\<rparr>"
  from loopback_send_parks [of 1 plain_socket congested] c obtain u1 where
    u1: "advances plain_imp plain_build (loopback linux_libc) byte_mem (Sending (byte_batch 1), plain_socket, congested)
      (SendParked (byte_batch 1), u1, ?e)" "adaptive_send u1 = None" by auto
  from loopback_send_parks [of 2 u1 ?e] c u1(2) obtain u2 where
    u2: "advances plain_imp plain_build (loopback linux_libc) byte_mem (Sending (byte_batch 2), u1, ?e)
      (SendParked (byte_batch 2), u2, ?e)" by auto
  let ?f = "?e\<lparr>w_budget := 1000\<rparr>"
  have "wait_writable plain_build (loopback linux_libc) u2 ?e = (Inr (), ?f)"
    by (simp add: wait_writable_def plain_build_def loopback_def congested_def idle_def)
  note wake = advances.send_wake [OF this, of plain_imp byte_mem "byte_batch 2"]
  from loopback_send_answers [of 2 ?f u2] c obtain u3 w3 where
    sent: "advances plain_imp plain_build (loopback linux_libc) byte_mem (Sending (byte_batch 2), u2, ?f)
      (SendDone (Inr 2), u3, w3)" by auto
  have "?R [] ([SendParked (byte_batch 1), Sending (byte_batch 2)], u1, ?e)"
    by (rule runs_task [OF runs.start _ _ u1(1), where i = 0]) (simp_all add: answered_def)
  then have "?R [] ([SendParked (byte_batch 1), SendParked (byte_batch 2)], u2, ?e)"
    by (rule runs_task [OF _ _ _ u2, where i = 1]) (simp_all add: answered_def)
  then have "?R [] ([SendParked (byte_batch 1), Sending (byte_batch 2)], u2, ?f)"
    by (rule runs_task [OF _ _ _ wake, where i = 1]) (simp_all add: answered_def)
  then have "?R [Sent 1 (byte_batch 2) (Inr 2)] ([SendParked (byte_batch 1), SendDone (Inr 2)], u3, w3)"
    by (rule runs_task [OF _ _ _ sent, where i = 1]) (simp_all add: answered_def)
  then have "?R [Sent 1 (byte_batch 2) (Inr 2)] ([Dropped, SendDone (Inr 2)], u3, w3)"
    by (rule runs_task [OF _ _ _ advances.drop_send_parked, where i = 0]) (simp_all add: answered_def)
  then show ?thesis by blast
qed

text \<open>Two receivers with one slot each take the two datagrams that are there.\<close>

lemma two_receivers_run:
  "\<exists>rb0 rb1 u' w'. runs plain_imp plain_build (loopback linux_libc) byte_mem (\<lambda>_ _. False)
     ([Receiving (RecvBatchRaw_with_capacity 1 4), Receiving (RecvBatchRaw_with_capacity 1 4)], plain_socket, two_arrived)
     [Received 1 (Inr 1) rb1, Received 0 (Inr 1) rb0] ([RecvDone (Inr 1) rb0, RecvDone (Inr 1) rb1], u', w')"
proof -
  let ?rb = "RecvBatchRaw_with_capacity 1 4"
  let ?R = "runs plain_imp plain_build (loopback linux_libc) byte_mem (\<lambda>_ _. False)
    ([Receiving ?rb, Receiving ?rb], plain_socket, two_arrived)"
  have c: "RecvBatchRaw_capacity ?rb = 1" by (simp add: RecvBatchRaw_capacity_def RecvBatchRaw_with_capacity_def)
  have q: "length (arrived two_arrived) = 2" using two_arrived(1) by (simp add: two_arrived_def)
  then have ne: "arrived two_arrived \<noteq> []" by auto
  from loopback_recv_answers [OF rb_inv_with_capacity _ _ ne, of 1 4 byte_mem plain_socket] c q obtain u1 rb1 w1 where
    r1: "advances plain_imp plain_build (loopback linux_libc) byte_mem (Receiving ?rb, plain_socket, two_arrived)
      (RecvDone (Inr 1) rb1, u1, w1)" "arrived w1 = drop 1 (arrived two_arrived)" by auto
  have q1: "length (arrived w1) = 1" unfolding r1(2) using q by simp
  then have ne1: "arrived w1 \<noteq> []" by auto
  from loopback_recv_answers [OF rb_inv_with_capacity _ _ ne1, of 1 4 byte_mem u1] c q1 obtain u2 rb0 w2 where
    r0: "advances plain_imp plain_build (loopback linux_libc) byte_mem (Receiving ?rb, u1, w1)
      (RecvDone (Inr 1) rb0, u2, w2)" by auto
  have "?R [Received 1 (Inr 1) rb1] ([Receiving ?rb, RecvDone (Inr 1) rb1], u1, w1)"
    by (rule runs_task [OF runs.start _ _ r1(1), where i = 1]) (simp_all add: answered_def)
  then have "?R [Received 1 (Inr 1) rb1, Received 0 (Inr 1) rb0] ([RecvDone (Inr 1) rb0, RecvDone (Inr 1) rb1], u2, w2)"
    by (rule runs_task [OF _ _ _ r0, where i = 0]) (simp_all add: answered_def)
  then show ?thesis by blast
qed



text \<open>C6. Concurrent receivers on one socket share its queue without loss or duplication, and a dropped
  call has taken nothing, on every platform (on Linux without \<^verbatim>\<open>gro\<close>; on Windows the datagrams have
  to fit): the datagrams that were in the queue and those that arrived are, in order, the
  packets of the answered receives, one receive after the other, and what is still in the
  queue.\<close>

theorem tasks_share_queue:
  assumes "native bld = Linux \<longrightarrow> \<not> feat_gro (build_rx bld)"
    and "imp_queue bld A W k rxq" and "imp_rx_ok bld A W k"
    and "imp_roomy bld n" and "\<forall>w. list_all (imp_admits bld n) (rxq w)"
    and "imp_tx_frame bld A W k (only_arrivals rxq)" and "idle_frame k env (only_arrivals rxq)"
    and "list_all (recvs_good n) ts"
    and "runs (imp bld A W) bld k m env (ts, u, w) tr (ts', u', w')"
  shows "\<exists>parts arrivals. rxq w @ arrivals = concat parts @ rxq w' \<and>
     list_all2 (\<lambda>(r, rb). recv_part n r rb) (receives tr) parts"
  using shared_queue.runs_queue [OF imp_shared_queue [OF assms(1)] assms(2-4) _ assms(6-9)] assms(5) by blast

theorem tasks_share_queue_witness:
  "\<exists>rb0 rb1 u' w'. runs plain_imp plain_build (loopback linux_libc) byte_mem (\<lambda>_ _. False)
       ([Receiving (RecvBatchRaw_with_capacity 1 4), Receiving (RecvBatchRaw_with_capacity 1 4)], plain_socket, two_arrived)
       [Received 1 (Inr 1) rb1, Received 0 (Inr 1) rb0] ([RecvDone (Inr 1) rb0, RecvDone (Inr 1) rb1], u', w') \<and>
     rb_packets rb1 = [([104, 105], V4 (Ipv4Addr 127 0 0 1) 9000)] \<and>
     rb_packets rb0 = [([1, 2, 3, 4], V4 (Ipv4Addr 10 0 0 1) 53)]"
proof -
  let ?ts = "[Receiving (RecvBatchRaw_with_capacity 1 4), Receiving (RecvBatchRaw_with_capacity 1 4)]"
  from two_receivers_run obtain rb0 rb1 u' w' where
    r: "runs plain_imp plain_build (loopback linux_libc) byte_mem (\<lambda>_ _. False) (?ts, plain_socket, two_arrived)
     [Received 1 (Inr 1) rb1, Received 0 (Inr 1) rb0] ([RecvDone (Inr 1) rb0, RecvDone (Inr 1) rb1], u', w')" by blast
  have good: "list_all (recvs_good 4) ?ts"
    using rb_inv_with_capacity by (simp add: recvs_good_def) (simp add: RecvBatchRaw_capacity_def RecvBatchRaw_with_capacity_def)
  have adm: "\<forall>w. list_all (imp_admits plain_build 4) (arrived w)" by (simp add: list_all_iff plain_conditions)
  have "imp_queue plain_build (loopback_x True macos_libc) (loopback_ws True windows_libc) (loopback linux_libc) arrived"
    "imp_rx_ok plain_build (loopback_x True macos_libc) (loopback_ws True windows_libc) (loopback linux_libc)"
    "imp_tx_frame plain_build (loopback_x True macos_libc) (loopback_ws True windows_libc) (loopback linux_libc) (only_arrivals arrived)"
    using linux_loopback by (simp_all add: plain_conditions imp_tx_frame_def plain_native loopback_frames)
  from tasks_share_queue [OF plain_conditions(1) this(1,2) plain_conditions(2) adm this(3) loopback_frames(4) good r]
  obtain z1 z0 arrivals where z: "arrived two_arrived @ arrivals = z1 @ z0 @ arrived w'" "recv_part 4 (Inr 1) rb1 z1"
    "recv_part 4 (Inr 1) rb0 z0" by (auto simp: list_all2_Cons1)
  then have "length z1 = 1" "length z0 = 1" by (simp_all add: recv_part_def)
  then obtain p1 p0 where "z1 = [p1]" "z0 = [p0]" by (auto simp: length_Suc_conv)
  with z two_arrived(1) have "rb_packets rb1 = [cut_to 4 ([104, 105], V4 (Ipv4Addr 127 0 0 1) 9000)]"
    "rb_packets rb0 = [cut_to 4 ([1, 2, 3, 4, 5, 6], V4 (Ipv4Addr 10 0 0 1) 53)]"
    by (simp_all add: recv_part_def two_arrived_def)
  then have "rb_packets rb1 = [([104, 105], V4 (Ipv4Addr 127 0 0 1) 9000)]"
    "rb_packets rb0 = [([1, 2, 3, 4], V4 (Ipv4Addr 10 0 0 1) 53)]" by (simp_all add: cut_to_def)
  with r show ?thesis by blast
qed

section \<open>From one socket to another\<close>

text \<open>C4. End to end, on every platform (Linux without \<^verbatim>\<open>gro\<close>): if \<^verbatim>\<open>send_batch\<close> on one socket reports \<^verbatim>\<open>Ok(l)\<close> with \<^verbatim>\<open>l\<close> at least 1, and the network has brought what that call sent to the queue of
  another socket, then one \<^verbatim>\<open>recv_batch\<close> there with at least \<^verbatim>\<open>l\<close> slots returns \<^verbatim>\<open>Ok(l)\<close>, and the packets
  the user reads are the payloads of the first \<^verbatim>\<open>l\<close> entries of the batch, in the order of the
  pushes, cut to the slots, each with the sender's address. (Both sockets live on one kernel;
  the contracts are about that kernel as each of them sees it. On Windows the packets have to fit
  the slots.)\<close>

theorem end_to_end:
  assumes "native bld = Linux \<longrightarrow> \<not> feat_gro (build_rx bld)"
    and "sends_at bld A W k (udp_fd us) txlog" and "receives_at bld A W k (udp_fd ur) rxq"
    and "sb_inv b" and "sb_readable m b" and "imp_sendable bld b"
    and "send_batch (imp bld A W) bld k m us b w = Returns (Inr l, us', w1)" and "0 < l"
    and "rxq w2 = map (carried src) (drop (length (txlog w)) (txlog w1))"
    and "rb_inv n rb" and "l \<le> RecvBatchRaw_capacity rb" and "RecvBatchRaw_capacity rb < 2 ^ 32"
    and "imp_roomy bld n" and "list_all (imp_admits bld n) (rxq w2)"
  shows "\<exists>ur' rb' w'. recv_batch (imp bld A W) bld k ur rb w2 = Returns (Inr l, ur', rb', w') \<and>
     rb_packets rb' = map (\<lambda>e. (take n (payload m (fst e)), src)) (take l (sb_entries b)) \<and> rxq w' = []"
  using assms by (rule socket_to_socket)

text \<open>Two packets of two bytes for the other end of the cable.\<close>

definition two_for_there :: SendBatchRaw where
  "two_for_there = \<lparr>sb_slots = map (\<lambda>p. \<lparr>data_ptr = p, data_len = 2, slot_addr = Some (V4 (Ipv4Addr 127 0 0 1) 9002)\<rparr>) [10, 20],
     sb_cap = 2, sb_len = 2\<rparr>"

lemma two_for_there_ok: "sb_inv two_for_there" "sb_readable byte_mem two_for_there" "imp_sendable plain_build two_for_there"
  by (simp_all add: two_for_there_def sb_inv_def sb_readable_def sb_entries_def list_all_iff read_mem_def imp_sendable_def
      plain_native MAX_STACK_def)

lemma cable_sends:
  "\<exists>us' w1. send_batch (imp plain_build A W) plain_build cable byte_mem plain_socket two_for_there (idle, idle) =
       Returns (Inr 2, us', w1) \<and> arrived (snd w1) = map (carried here) (w_sent (fst w1))"
proof -
  let ?d = "datagrams linux_libc byte_mem two_for_there"
  have l: "length ?d = 2" "sb_len two_for_there = 2" "k_libc cable = linux_libc"
    using length_datagrams [OF two_for_there_ok(1)] by (simp_all add: two_for_there_def cable_def)
  have v: "unat (2 :: u32) = 2" by simp
  have "takeWhile fits ?d = ?d"
    by (auto simp: takeWhile_eq_all_conv datagrams_def datagram_def fits_def two_for_there_def sb_entries_def slot_slice_def
        payload_def read_mem_def)
  note v = v this
  obtain w1 where w1: "k_sendmmsg cable 3 ?d 2 (idle, idle) = (2, w1)"
      "w_sent (fst w1) = ?d" "w_queue (snd w1) = map (carried here) ?d"
    using l v by (auto simp: cable_def crossed_def cable_sendmmsg_def loopback_sendmmsg_def hear_def accept_def idle_def Let_def)
  have "linux_try_send_batch cable 3 byte_mem two_for_there (idle, idle) = Returns (Inr 2, w1)"
    using linux_send_call [OF two_for_there_ok(1,2), of cable 3 "(idle, idle)"] l w1(1) by (simp add: MAX_STACK_def)
  then have "be_try_send (imp plain_build A W) cable (udp_fd plain_socket) byte_mem two_for_there (idle, idle) = Returns (Inr 2, w1)"
    by (simp add: imp_def plain_native linux_backend_def plain_socket_def)
  from try_send_batch_run [OF this] obtain us' where
    "try_send_batch (imp plain_build A W) cable byte_mem plain_socket two_for_there (idle, idle) = Returns (Inr 2, us', w1)" ..
  then have "send_batch (imp plain_build A W) plain_build cable byte_mem plain_socket two_for_there (idle, idle) = Returns (Inr 2, us', w1)"
    by (simp add: send_batch_def send_batch_loop.simps)
  moreover have "arrived (snd w1) = map (carried here) (w_sent (fst w1))"
    by (simp add: arrived_def w1(2,3) datagrams_def datagram_def carried_def here_def two_for_there_def sb_entries_def
        payload_def read_mem_def slot_slice_def)
  ultimately show ?thesis by blast
qed

theorem end_to_end_witness:
  "\<forall>A W. \<exists>us' w1 ur' rb' w'.
     send_batch (imp plain_build A W) plain_build cable byte_mem plain_socket two_for_there (idle, idle) = Returns (Inr 2, us', w1) \<and>
     recv_batch (imp plain_build A W) plain_build cable (plain_socket\<lparr>udp_fd := 4\<rparr>) (RecvBatchRaw_with_capacity 8 4) w1 =
       Returns (Inr 2, ur', rb', w') \<and> rb_packets rb' = [([10, 11], here), ([20, 21], here)]"
proof (intro allI)
  fix A W
  let ?ur = "plain_socket\<lparr>udp_fd := 4\<rparr>" and ?rb = "RecvBatchRaw_with_capacity 8 4"
  have none: "w_sent idle = []" by (simp add: idle_def)
  from cable_sends [of A W] none obtain us' w1 where
    s: "send_batch (imp plain_build A W) plain_build cable byte_mem plain_socket two_for_there (idle, idle) = Returns (Inr 2, us', w1)"
    and q: "(arrived \<circ> snd) w1 = map (carried here) (drop (length ((w_sent \<circ> fst) (idle, idle))) ((w_sent \<circ> fst) w1))"
    by auto
  have c: "udp_fd plain_socket = 3" "udp_fd ?ur = 4" "posix plain_build"
    "(0::nat) < 2" "2 \<le> RecvBatchRaw_capacity ?rb" "RecvBatchRaw_capacity ?rb < 2 ^ 32"
    "imp_roomy plain_build 4" "list_all (imp_admits plain_build 4) ps" for ps
    by (simp_all add: posix_def plain_native plain_socket_def RecvBatchRaw_capacity_def RecvBatchRaw_with_capacity_def
        imp_roomy_def imp_admits_def list_all_iff)
  have ends: "sends_at plain_build A W cable (udp_fd plain_socket) (w_sent \<circ> fst)"
    "receives_at plain_build A W cable (udp_fd ?ur) (arrived \<circ> snd)"
    unfolding c(1,2) by (rule cable_ends [OF c(3)])+
  have "map (\<lambda>e. (take 4 (payload byte_mem (fst e)), here)) (take 2 (sb_entries two_for_there)) = [([10, 11], here), ([20, 21], here)]"
    by (simp add: two_for_there_def sb_entries_def payload_def read_mem_def slot_slice_def upt_rec)
  with end_to_end [OF plain_conditions(1) ends two_for_there_ok s c(4) q rb_inv_with_capacity
      c(5-8)] s
  show "\<exists>us' w1 ur' rb' w'.
     send_batch (imp plain_build A W) plain_build cable byte_mem plain_socket two_for_there (idle, idle) = Returns (Inr 2, us', w1) \<and>
     recv_batch (imp plain_build A W) plain_build cable ?ur ?rb w1 =
       Returns (Inr 2, ur', rb', w') \<and> rb_packets rb' = [([10, 11], here), ([20, 21], here)]"
    by (auto simp del: o_apply)
qed

end
